(* ===== verification/RV_Prelude.thy ===== *)
theory RV_Prelude
  imports Main "HOL-Library.Word" "HOL-Library.Monad_Syntax"
begin

text \<open>
  What every component shares: the C integer types as words, little-endian byte buffers
  (the \<open>memcpy\<close> view of an integer), the option monad that stands for undefined behaviour
  of the host (\<open>None\<close>: an access outside the host object, a failed \<open>assert\<close>, an
  \<open>abort\<close>), and the lemma collections the component proofs use.
\<close>

unbundle bit_operations_syntax

section \<open>Integer types\<close>

type_synonym u8 = "8 word"
type_synonym u16 = "16 word"
type_synonym u32 = "32 word"
type_synonym u64 = "64 word"
type_synonym u128 = "128 word"

text \<open>
  C's shifts are \<open>push_bit\<close> (left), \<open>drop_bit\<close> (right, unsigned) and
  \<open>signed_drop_bit\<close> (right, signed). A widening of a signed value is \<open>scast\<close>, every
  other conversion \<open>ucast\<close>. Signed overflow wraps, as it does in the code that gcc and
  clang generate for this program. \<open>x & (1 << k)\<close> used as a truth value is \<open>bit x k\<close>.
\<close>

named_theorems c_field \<open>masks of a bit field as \<open>take_bit\<close>\<close>
named_theorems frame_simps \<open>what an operation leaves unchanged\<close>
named_theorems wf_intros \<open>operations that keep a well-formedness invariant\<close>

section \<open>Words\<close>

lemma and_low_mask [c_field]:
  fixes x :: "'a::len word"
  shows "x AND 1 = take_bit 1 x" and "x AND 3 = take_bit 2 x" and "x AND 7 = take_bit 3 x"
    and "x AND 0xf = take_bit 4 x" and "x AND 0x1f = take_bit 5 x"
    and "x AND 0x3f = take_bit 6 x" and "x AND 0x7f = take_bit 7 x"
    and "x AND 0xff = take_bit 8 x" and "x AND 0x1ff = take_bit 9 x"
    and "x AND 0x3ff = take_bit 10 x" and "x AND 0xfff = take_bit 12 x"
    and "x AND 0xfffff = take_bit 20 x"
  by (simp_all add: take_bit_eq_mask mask_eq_exp_minus_1)

lemma unat_and_mask_less:
  fixes x :: "'a::len word"
  shows "unat (x AND 0x1f) < 32" and "unat (x AND 0x3f) < 64" and "unat (x AND 7) < 8"
proof -
  have "unat (take_bit n x) < 2 ^ n" for n
    by (simp add: unsigned_take_bit_eq)
  from this [of 5] this [of 6] this [of 3]
  show "unat (x AND 0x1f) < 32" and "unat (x AND 0x3f) < 64" and "unat (x AND 7) < 8"
    by (simp_all add: c_field)
qed

lemma bit_0_numeral_take [simp]:
  fixes x :: "'a::len word"
  shows "bit (take_bit k x) n \<longleftrightarrow> n < k \<and> bit x n"
  by (rule bit_take_bit_iff)

lemma ucast_word_bit_length:
  fixes x :: "'a::len word"
  assumes "bit x n"
  shows "n < LENGTH('a)"
  using assms by (rule bit_imp_le_length)

text \<open>
  Equality of words of a known width, one goal per bit: with operands whose structure is
  known (shifts, masks, casts), each goal is decided by evaluating \<open>bit\<close> at a numeral.
\<close>

lemma all_bits_32:
  fixes P :: "nat \<Rightarrow> bool"
  shows
    "P 0 \<Longrightarrow> P 1 \<Longrightarrow> P 2 \<Longrightarrow> P 3 \<Longrightarrow> P 4 \<Longrightarrow> P 5 \<Longrightarrow> P 6 \<Longrightarrow> P 7 \<Longrightarrow>
     P 8 \<Longrightarrow> P 9 \<Longrightarrow> P 10 \<Longrightarrow> P 11 \<Longrightarrow> P 12 \<Longrightarrow> P 13 \<Longrightarrow> P 14 \<Longrightarrow> P 15 \<Longrightarrow>
     P 16 \<Longrightarrow> P 17 \<Longrightarrow> P 18 \<Longrightarrow> P 19 \<Longrightarrow> P 20 \<Longrightarrow> P 21 \<Longrightarrow> P 22 \<Longrightarrow> P 23 \<Longrightarrow>
     P 24 \<Longrightarrow> P 25 \<Longrightarrow> P 26 \<Longrightarrow> P 27 \<Longrightarrow> P 28 \<Longrightarrow> P 29 \<Longrightarrow> P 30 \<Longrightarrow> P 31 \<Longrightarrow>
     n < 32 \<Longrightarrow> P n"
proof -
  assume bits: "P 0" "P 1" "P 2" "P 3" "P 4" "P 5" "P 6" "P 7" "P 8" "P 9" "P 10" "P 11" "P 12" "P 13" "P 14" "P 15" "P 16" "P 17" "P 18" "P 19" "P 20" "P 21" "P 22" "P 23" "P 24" "P 25" "P 26" "P 27" "P 28" "P 29" "P 30" "P 31"
  assume "n < 32"
  then have "n \<in> set [0, 1, 2, 3, 4, 5, 6, 7, 8, 9, 10, 11, 12, 13, 14, 15, 16, 17, 18, 19, 20, 21,
      22, 23, 24, 25, 26, 27, 28, 29, 30, 31]"
    by (simp, arith)
  with bits show "P n" by auto
qed

lemma word32_eqI:
  fixes a b :: "32 word"
  shows
    "bit a 0 = bit b 0 \<Longrightarrow> bit a 1 = bit b 1 \<Longrightarrow> bit a 2 = bit b 2 \<Longrightarrow> bit a 3 = bit b 3 \<Longrightarrow>
     bit a 4 = bit b 4 \<Longrightarrow> bit a 5 = bit b 5 \<Longrightarrow> bit a 6 = bit b 6 \<Longrightarrow> bit a 7 = bit b 7 \<Longrightarrow>
     bit a 8 = bit b 8 \<Longrightarrow> bit a 9 = bit b 9 \<Longrightarrow> bit a 10 = bit b 10 \<Longrightarrow> bit a 11 = bit b 11 \<Longrightarrow>
     bit a 12 = bit b 12 \<Longrightarrow> bit a 13 = bit b 13 \<Longrightarrow> bit a 14 = bit b 14 \<Longrightarrow> bit a 15 = bit b 15 \<Longrightarrow>
     bit a 16 = bit b 16 \<Longrightarrow> bit a 17 = bit b 17 \<Longrightarrow> bit a 18 = bit b 18 \<Longrightarrow> bit a 19 = bit b 19 \<Longrightarrow>
     bit a 20 = bit b 20 \<Longrightarrow> bit a 21 = bit b 21 \<Longrightarrow> bit a 22 = bit b 22 \<Longrightarrow> bit a 23 = bit b 23 \<Longrightarrow>
     bit a 24 = bit b 24 \<Longrightarrow> bit a 25 = bit b 25 \<Longrightarrow> bit a 26 = bit b 26 \<Longrightarrow> bit a 27 = bit b 27 \<Longrightarrow>
     bit a 28 = bit b 28 \<Longrightarrow> bit a 29 = bit b 29 \<Longrightarrow> bit a 30 = bit b 30 \<Longrightarrow> bit a 31 = bit b 31 \<Longrightarrow>
     a = b"
  by (rule bit_word_eqI, rule all_bits_32 [where P = "\<lambda>n. bit a n = bit b n"]) simp_all

lemma word8_eq_iff:
  fixes a b :: "8 word"
  shows "a = b \<longleftrightarrow>
    (bit a 0 \<longleftrightarrow> bit b 0) \<and> (bit a 1 \<longleftrightarrow> bit b 1) \<and> (bit a 2 \<longleftrightarrow> bit b 2) \<and> (bit a 3 \<longleftrightarrow> bit b 3) \<and>
    (bit a 4 \<longleftrightarrow> bit b 4) \<and> (bit a 5 \<longleftrightarrow> bit b 5) \<and> (bit a 6 \<longleftrightarrow> bit b 6) \<and> (bit a 7 \<longleftrightarrow> bit b 7)"
    (is "_ \<longleftrightarrow> ?bits")
proof
  assume ?bits
  show "a = b"
  proof (rule bit_word_eqI)
    fix n :: nat
    assume "n < LENGTH(8)"
    then have "n \<in> set [0, 1, 2, 3, 4, 5, 6, 7]" by (simp, arith)
    with \<open>?bits\<close> show "bit a n = bit b n" by auto
  qed
qed simp

lemma unat_ucast_up:
  fixes x :: "'a::len word"
  assumes "LENGTH('a) \<le> LENGTH('b)"
  shows "unat (ucast x :: 'b::len word) = unat x"
proof -
  have "unat x < 2 ^ LENGTH('a)" by (rule unsigned_less)
  also have "(2 :: nat) ^ LENGTH('a) \<le> 2 ^ LENGTH('b)" using assms by (rule power_increasing) simp
  finally show ?thesis by (simp add: unsigned_ucast_eq take_bit_nat_eq_self)
qed

lemma bit_beyond:
  fixes w :: "'a::len word"
  shows "LENGTH('a) \<le> n \<Longrightarrow> bit w n = False"
  by (auto dest: bit_imp_le_length)

lemmas bit_eval = bit_simps bit_beyond

text \<open>
  The bits of a constant mask. A numeral's bits are looked up as those of an \<open>int\<close>, so the
  masks are stated there.
\<close>

named_theorems mask_bits \<open>which bits of a constant mask are set\<close>

lemma bit_mask_range:
  fixes k :: int
  assumes "k = push_bit p (mask q)"
  shows "bit k n \<longleftrightarrow> p \<le> n \<and> n < p + q"
  using assms by (auto simp: bit_simps)

lemma bit_int_masks [mask_bits]:
  "bit (0xffff :: int) n \<longleftrightarrow> n < 16"
  "bit (0x0000003ffffff000 :: int) n \<longleftrightarrow> 12 \<le> n \<and> n < 38"
  "bit (0xffff000000000000 :: int) n \<longleftrightarrow> 48 \<le> n \<and> n < 64"
  "bit (0xf000000000000000 :: int) n \<longleftrightarrow> 60 \<le> n \<and> n < 64"
  "bit (0x0ffff00000000000 :: int) n \<longleftrightarrow> 44 \<le> n \<and> n < 60"
  "bit (0x00000fffffffffff :: int) n \<longleftrightarrow> n < 44"
  "bit (0x003ffffffffffc00 :: int) n \<longleftrightarrow> 10 \<le> n \<and> n < 54"
  by (subst bit_mask_range [of _ 0 16] bit_mask_range [of _ 12 26] bit_mask_range [of _ 48 16]
      bit_mask_range [of _ 60 4] bit_mask_range [of _ 44 16] bit_mask_range [of _ 0 44]
      bit_mask_range [of _ 10 44]; simp add: mask_eq_exp_minus_1; fail)+

subsection \<open>Field calculus\<close>

text \<open>
  Reading a field back from a word assembled by \<open>OR\<close> of shifted operands: the other
  operands lie above or below the field and vanish.
\<close>

lemma field_or [c_field]:
  fixes a b :: "'a::len word"
  shows "drop_bit m (a OR b) = drop_bit m a OR drop_bit m b"
    and "take_bit k (a OR b) = take_bit k a OR take_bit k b"
  by (simp_all add: drop_bit_or)

lemma field_above [c_field]:
  fixes x :: "'a::len word"
  assumes "m + k \<le> p"
  shows "take_bit k (drop_bit m (push_bit p x)) = 0"
  using assms by (intro bit_word_eqI) (auto simp: bit_simps)

lemma field_below [c_field]:
  fixes y :: "'b::len word"
  assumes "p + LENGTH('b) \<le> m"
  shows "take_bit k (drop_bit m (push_bit p (ucast y :: 'a::len word))) = 0"
  using assms by (intro bit_word_eqI) (auto simp: bit_simps dest: bit_imp_le_length)

lemma field_below_masked [c_field]:
  fixes x :: "'a::len word"
  assumes "p + j \<le> m"
  shows "take_bit k (drop_bit m (push_bit p (take_bit j x))) = 0"
  using assms by (intro bit_word_eqI) (auto simp: bit_simps)

lemma field_below_0 [c_field]:
  fixes y :: "'b::len word"
  assumes "LENGTH('b) \<le> m"
  shows "take_bit k (drop_bit m (ucast y :: 'a::len word)) = 0"
  using assms by (intro bit_word_eqI) (auto simp: bit_simps dest: bit_imp_le_length)

lemma field_here [c_field]:
  fixes y :: "'b::len word"
  assumes "LENGTH('b) \<le> k" and "m + k \<le> LENGTH('a)"
  shows "take_bit k (drop_bit m (push_bit m (ucast y :: 'a::len word))) = ucast y"
  using assms by (intro bit_word_eqI) (auto simp: bit_simps dest: bit_imp_le_length)

lemma field_low_above [c_field]:
  fixes x :: "'a::len word"
  assumes "k \<le> p"
  shows "take_bit k (push_bit p x) = 0"
  using assms by (intro bit_word_eqI) (auto simp: bit_simps)

lemma field_low_here [c_field]:
  fixes y :: "'b::len word"
  assumes "LENGTH('b) \<le> k" 
  shows "take_bit k (ucast y :: 'a::len word) = ucast y"
  using assms by (intro bit_word_eqI) (auto simp: bit_simps dest: bit_imp_le_length)

section \<open>Undefined behaviour\<close>

text \<open>
  A guarded host access: the value where the access stays inside the object.
\<close>

definition guard_ub :: "bool \<Rightarrow> unit option" where
  "guard_ub P = (if P then Some () else None)"

lemma guard_ub_Some [simp]: "guard_ub P = Some u \<longleftrightarrow> P"
  by (cases u) (simp add: guard_ub_def)

lemma guard_ub_bind [simp]:
  "Option.bind (guard_ub P) f = (if P then f () else None)"
  by (simp add: guard_ub_def)

section \<open>Little-endian byte buffers\<close>

text \<open>
  \<open>le_bytes n v\<close> is the first \<open>n\<close> bytes of \<open>v\<close> in host memory (the host is little-endian),
  \<open>le_word bs\<close> the integer a zero-initialised 64-bit variable holds after \<open>memcpy\<close> has
  copied \<open>bs\<close> into it.
\<close>

fun le_bytes :: "nat \<Rightarrow> u64 \<Rightarrow> u8 list" where
  "le_bytes 0 v = []"
| "le_bytes (Suc n) v = ucast v # le_bytes n (drop_bit 8 v)"

fun le_word :: "u8 list \<Rightarrow> u64" where
  "le_word [] = 0"
| "le_word (b # bs) = ucast b OR push_bit 8 (le_word bs)"

text \<open>\<open>memcpy(dst, src, n)\<close> over the first bytes of a buffer.\<close>

definition overwrite :: "u8 list \<Rightarrow> u8 list \<Rightarrow> u8 list" where
  "overwrite src dst = src @ drop (length src) dst"

lemma length_le_bytes [simp]: "length (le_bytes n v) = n"
  by (induction n arbitrary: v) auto

lemma bit_le_word:
  "bit (le_word bs) n \<longleftrightarrow> n < 64 \<and> n div 8 < length bs \<and> bit (bs ! (n div 8)) (n mod 8)"
proof (induction bs arbitrary: n)
  case Nil
  then show ?case by simp
next
  case (Cons b bs)
  show ?case
  proof (cases "n < 8")
    case True
    then show ?thesis by (auto simp: bit_simps)
  next
    case False
    then have "n div 8 = Suc ((n - 8) div 8)" and "n mod 8 = (n - 8) mod 8"
      by (simp_all add: le_div_geq le_mod_geq)
    moreover from False have "\<not> bit b n"
      by (auto dest: ucast_word_bit_length)
    ultimately show ?thesis
      using False Cons.IH [of "n - 8"] by (auto simp: bit_simps)
  qed
qed

lemma nth_le_bytes: "i < n \<Longrightarrow> le_bytes n v ! i = ucast (drop_bit (8 * i) v)"
proof (induction n arbitrary: v i)
  case 0
  then show ?case by simp
next
  case (Suc n)
  then show ?case
    by (cases i) (simp_all add: add.commute)
qed

lemma le_word_le_bytes: "le_word (le_bytes n v) = take_bit (8 * n) v"
proof (rule bit_word_eqI)
  fix k :: nat
  assume "k < LENGTH(64)"
  then show "bit (le_word (le_bytes n v)) k = bit (take_bit (8 * n) v) k"
    by (auto simp: bit_le_word nth_le_bytes bit_simps div_less_iff_less_mult mult.commute)
qed

corollary le_word_le_bytes_8 [simp]: "le_word (le_bytes 8 v) = v"
  by (simp add: le_word_le_bytes take_bit_word_eq_self)

lemma length_overwrite [simp]:
  "length src \<le> length dst \<Longrightarrow> length (overwrite src dst) = length dst"
  by (simp add: overwrite_def)

lemma take_overwrite [simp]: "length src = n \<Longrightarrow> take n (overwrite src dst) = src"
  by (simp add: overwrite_def)

lemma overwrite_full: "length src = length dst \<Longrightarrow> overwrite src dst = src"
  by (simp add: overwrite_def)

section \<open>Lists updated by index\<close>

lemma list_all_update:
  assumes "list_all P xs" and "i < length xs \<Longrightarrow> P x"
  shows "list_all P (xs[i := x])"
  unfolding list_all_length
proof (intro allI impI)
  fix n
  assume "n < length (xs[i := x])"
  then show "P (xs[i := x] ! n)"
    using assms by (cases "n = i") (auto simp: list_all_length)
qed

end
