(* ===== verification/RV_State.thy ===== *)
theory RV_State
  imports RV_Prelude
begin

text \<open>
  The machine's state: one record per C struct, with the struct's fields in its order.
  Arrays are lists of the array's length. What is not a field of the C structs is named
  as such: the bytes of RAM are a function of their offset together with the size of the
  allocation, callbacks are named by a number (the value of the C pointer) that
  \<open>emu_env\<close> gives its behaviour, \<open>host_ns\<close> is the host's monotonic clock, and \<open>host_frm\<close> the
  rounding mode of the host's floating-point environment in the thread of each core.
\<close>

section \<open>Traps\<close>

record rv_trap =
  trap_epc :: u64
  trap_tval :: u64
  trap_cause :: u64

datatype rv_cause =
    RV_CAUSE_IALIGN | RV_CAUSE_IACCESS | RV_CAUSE_IILLEGAL | RV_CAUSE_EBREAK
  | RV_CAUSE_LALIGN | RV_CAUSE_LACCESS | RV_CAUSE_SALIGN | RV_CAUSE_SACCESS
  | RV_CAUSE_ECALL_U | RV_CAUSE_ECALL_S | RV_CAUSE_ECALL_M | RV_CAUSE_IPAGE
  | RV_CAUSE_LPAGE | RV_CAUSE_SPAGE | RV_CAUSE_SWCHK | RV_CAUSE_HWERR

fun rv_cause_code :: "rv_cause \<Rightarrow> u64" where
  "rv_cause_code RV_CAUSE_IALIGN   = 0"
| "rv_cause_code RV_CAUSE_IACCESS  = 1"
| "rv_cause_code RV_CAUSE_IILLEGAL = 2"
| "rv_cause_code RV_CAUSE_EBREAK   = 3"
| "rv_cause_code RV_CAUSE_LALIGN   = 4"
| "rv_cause_code RV_CAUSE_LACCESS  = 5"
| "rv_cause_code RV_CAUSE_SALIGN   = 6"
| "rv_cause_code RV_CAUSE_SACCESS  = 7"
| "rv_cause_code RV_CAUSE_ECALL_U  = 8"
| "rv_cause_code RV_CAUSE_ECALL_S  = 9"
| "rv_cause_code RV_CAUSE_ECALL_M  = 11"
| "rv_cause_code RV_CAUSE_IPAGE    = 12"
| "rv_cause_code RV_CAUSE_LPAGE    = 13"
| "rv_cause_code RV_CAUSE_SPAGE    = 15"
| "rv_cause_code RV_CAUSE_SWCHK    = 18"
| "rv_cause_code RV_CAUSE_HWERR    = 19"

definition RV_CAUSE_INTR_FLAG :: u64 where
  "RV_CAUSE_INTR_FLAG = 0x8000000000000000"

section \<open>Memory accesses\<close>

datatype rv_access = RV_ACCESS_INSN | RV_ACCESS_AMO | RV_ACCESS_LOAD | RV_ACCESS_STORE

datatype rv_mem_result = RV_MEM_OK | RV_MEM_ACCESS_FAULT | RV_MEM_PAGE_FAULT

fun rv_mem_cause :: "rv_mem_result \<Rightarrow> rv_access \<Rightarrow> rv_cause" where
  "rv_mem_cause RV_MEM_PAGE_FAULT RV_ACCESS_INSN = RV_CAUSE_IPAGE"
| "rv_mem_cause RV_MEM_PAGE_FAULT RV_ACCESS_LOAD = RV_CAUSE_LPAGE"
| "rv_mem_cause RV_MEM_PAGE_FAULT RV_ACCESS_AMO = RV_CAUSE_SPAGE"
| "rv_mem_cause RV_MEM_PAGE_FAULT RV_ACCESS_STORE = RV_CAUSE_SPAGE"
| "rv_mem_cause _ RV_ACCESS_INSN = RV_CAUSE_IACCESS"
| "rv_mem_cause _ RV_ACCESS_LOAD = RV_CAUSE_LACCESS"
| "rv_mem_cause _ RV_ACCESS_AMO = RV_CAUSE_SACCESS"
| "rv_mem_cause _ RV_ACCESS_STORE = RV_CAUSE_SACCESS"

section \<open>One core\<close>

text \<open>\<open>union rv_pmpcfg\<close> is kept packed; byte \<open>i\<close> of the unpacked view is computed.\<close>

record rv_csr_state =
  mhartid :: u64
  marchid :: u64
  mimpid :: u64
  mvendorid :: u64
  mstatus :: u64
  mie :: u64
  mideleg :: u64
  medeleg :: u64
  mtvec :: u64
  mcause :: u64
  mtval :: u64
  mepc :: u64
  mtinst :: u64
  pmpcfg :: "u64 list"
  pmpaddr :: "u64 list"
  sie :: u64
  stvec :: u64
  scause :: u64
  stval :: u64
  sepc :: u64
  sscratch :: u64
  mscratch :: u64
  satp :: u64
  fcsr :: u64
  vtype :: u64
  vl :: u64
  vstart :: u64
  vcsr :: u64

definition pmpcfg_unpacked :: "rv_csr_state \<Rightarrow> nat \<Rightarrow> u8" where
  "pmpcfg_unpacked c i = ucast (drop_bit (8 * (i mod 8)) (pmpcfg c ! (i div 8)))"

record rv_tlb_entry =
  vma :: u64
  pte :: u64

abbreviation "RV_TLB_COLUMNS \<equiv> (16 :: nat)"
abbreviation "RV_TLB_ROWS \<equiv> (16 :: nat)"

record rv_tlb =
  tlb_entries :: "rv_tlb_entry list"
  tlb_valid :: "u16 list"
  next_column :: u8

text \<open>A floating-point register is the 64-bit view of \<open>union rv_freg\<close>.\<close>

record rv_cpu =
  vregs :: "u64 list list"
  tlb :: rv_tlb
  xregs :: "u64 list"
  fregs :: "u64 list"
  csr :: rv_csr_state
  pc :: u64
  epc :: u64
  privilege :: u8
  mem_privilege :: u8
  halted :: bool
  clint_timer_armed :: bool
  irq_pending :: u64

text \<open>Bits of \<open>mstatus\<close>.\<close>

abbreviation "RV_STATUS_SIE_BIT \<equiv> (1 :: nat)"
abbreviation "RV_STATUS_MIE_BIT \<equiv> (3 :: nat)"
abbreviation "RV_STATUS_SPIE_BIT \<equiv> (5 :: nat)"
abbreviation "RV_STATUS_UBE_BIT \<equiv> (6 :: nat)"
abbreviation "RV_STATUS_MPIE_BIT \<equiv> (7 :: nat)"
abbreviation "RV_STATUS_SPP_BIT \<equiv> (8 :: nat)"
abbreviation "RV_STATUS_VS_BASE_BIT \<equiv> (9 :: nat)"
abbreviation "RV_STATUS_MPP_BASE_BIT \<equiv> (11 :: nat)"
abbreviation "RV_STATUS_FS_BASE_BIT \<equiv> (13 :: nat)"
abbreviation "RV_STATUS_XS_BASE_BIT \<equiv> (15 :: nat)"
abbreviation "RV_STATUS_MPRV_BIT \<equiv> (17 :: nat)"
abbreviation "RV_STATUS_SUM_BIT \<equiv> (18 :: nat)"
abbreviation "RV_STATUS_MXR_BIT \<equiv> (19 :: nat)"
abbreviation "RV_STATUS_TVM_BIT \<equiv> (20 :: nat)"
abbreviation "RV_STATUS_TW_BIT \<equiv> (21 :: nat)"
abbreviation "RV_STATUS_TSR_BIT \<equiv> (22 :: nat)"
abbreviation "RV_STATUS_UXL_BASE_BIT \<equiv> (32 :: nat)"
abbreviation "RV_STATUS_SXL_BASE_BIT \<equiv> (34 :: nat)"

text \<open>\<open>rv_sync_mem_privilege\<close>: the privilege of data accesses.\<close>

definition rv_sync_mem_privilege :: "rv_cpu \<Rightarrow> rv_cpu" where
  "rv_sync_mem_privilege cpu =
     (let mprv = drop_bit RV_STATUS_MPRV_BIT (mstatus (csr cpu)) AND 1 \<noteq> 0
      in cpu\<lparr>mem_privilege :=
           (if mprv then ucast (drop_bit RV_STATUS_MPP_BASE_BIT (mstatus (csr cpu)) AND 3)
            else privilege cpu)\<rparr>)"

definition rv_xreg_read :: "rv_cpu \<Rightarrow> u32 \<Rightarrow> u64" where
  "rv_xreg_read cpu index = xregs cpu ! unat index"

definition rv_xreg_write :: "rv_cpu \<Rightarrow> u32 \<Rightarrow> u64 \<Rightarrow> rv_cpu" where
  "rv_xreg_write cpu index value =
     (if index \<noteq> 0 then cpu\<lparr>xregs := (xregs cpu)[unat index := value]\<rparr> else cpu)"

definition rv_freg_read :: "rv_cpu \<Rightarrow> u32 \<Rightarrow> u64" where
  "rv_freg_read cpu index = fregs cpu ! unat index"

definition rv_freg_write :: "rv_cpu \<Rightarrow> u32 \<Rightarrow> u64 \<Rightarrow> rv_cpu" where
  "rv_freg_write cpu index value = cpu\<lparr>fregs := (fregs cpu)[unat index := value]\<rparr>"

text \<open>An update of the control registers.\<close>

abbreviation upd_csr :: "(rv_csr_state \<Rightarrow> rv_csr_state) \<Rightarrow> rv_cpu \<Rightarrow> rv_cpu" where
  "upd_csr f cpu \<equiv> cpu\<lparr>csr := f (csr cpu)\<rparr>"

section \<open>Devices\<close>

record rv_clint =
  epoch_ns :: u64
  mtimecmp :: "u64 list"
  deadline_ns :: "u64 list"
  clint_cpu_count :: nat

text \<open>A memory-mapped region; \<open>mr_device\<close> stands for the device and its two callbacks.\<close>

record emu_mmio_region =
  mr_base :: u64
  mr_size :: u64
  mr_device :: nat

section \<open>The machine\<close>

datatype host_round = FE_TONEAREST | FE_TOWARDZERO | FE_DOWNWARD | FE_UPWARD

record rv_reservation =
  res_addr :: u64
  res_valid :: bool

record 'd emu_machine =
  ram_start :: u64
  ram_end :: u64
  ram :: "nat \<Rightarrow> u8"
  ram_alloc :: nat
  trap_hook :: "nat option list"
  cpus :: "rv_cpu list"
  reservations :: "rv_reservation list"
  mmio :: "emu_mmio_region list"
  clint :: "rv_clint option"
  devs :: 'd
  host_ns :: u64
  host_frm :: "nat \<Rightarrow> host_round"

text \<open>
  The code behind the machine's function pointers: the device callbacks (a success flag
  and, for a read, the value) and the trap hooks (true: continue with the normal trap).
  They may change the machine, as the C callbacks may through their pointers.
\<close>

record 'd emu_env =
  mmio_read_fn :: "nat \<Rightarrow> u64 \<Rightarrow> u8 \<Rightarrow> 'd emu_machine \<Rightarrow> bool \<times> u64 \<times> 'd emu_machine"
  mmio_write_fn :: "nat \<Rightarrow> u64 \<Rightarrow> u8 \<Rightarrow> u64 \<Rightarrow> 'd emu_machine \<Rightarrow> bool \<times> 'd emu_machine"
  trap_hook_fn :: "nat \<Rightarrow> nat \<Rightarrow> rv_trap \<Rightarrow> 'd emu_machine \<Rightarrow> bool \<times> 'd emu_machine"

text \<open>
  The C functions receive a pointer to one of the machine's cores; here it is the core's
  index \<open>h\<close>, so that a device that writes to the core through the machine writes to the
  same core the function holds.
\<close>

abbreviation get_cpu :: "'d emu_machine \<Rightarrow> nat \<Rightarrow> rv_cpu" where
  "get_cpu m h \<equiv> cpus m ! h"

definition put_cpu :: "nat \<Rightarrow> rv_cpu \<Rightarrow> 'd emu_machine \<Rightarrow> 'd emu_machine" where
  "put_cpu h c m = m\<lparr>cpus := (cpus m)[h := c]\<rparr>"

section \<open>Access lemmas\<close>

lemma get_put_cpu [simp]: "h < length (cpus m) \<Longrightarrow> get_cpu (put_cpu h c m) h = c"
  by (simp add: put_cpu_def)

lemma get_put_cpu_other [simp]: "h \<noteq> h' \<Longrightarrow> get_cpu (put_cpu h c m) h' = get_cpu m h'"
  by (simp add: put_cpu_def)

lemma put_cpu_frame [simp, frame_simps]:
  "length (cpus (put_cpu h c m)) = length (cpus m)"
  "ram_start (put_cpu h c m) = ram_start m" "ram_end (put_cpu h c m) = ram_end m"
  "ram (put_cpu h c m) = ram m" "ram_alloc (put_cpu h c m) = ram_alloc m"
  "trap_hook (put_cpu h c m) = trap_hook m" "reservations (put_cpu h c m) = reservations m"
  "mmio (put_cpu h c m) = mmio m" "clint (put_cpu h c m) = clint m"
  "devs (put_cpu h c m) = devs m" "host_ns (put_cpu h c m) = host_ns m"
  "host_frm (put_cpu h c m) = host_frm m"
  by (simp_all add: put_cpu_def)

lemma put_cpu_cpus: "cpus (put_cpu h c m) = (cpus m)[h := c]"
  by (simp add: put_cpu_def)

lemma put_cpu_twice [simp]: "put_cpu h c (put_cpu h c' m) = put_cpu h c m"
  by (simp add: put_cpu_def)

lemma put_get_cpu [simp]: "put_cpu h (get_cpu m h) m = m"
  by (simp add: put_cpu_def)

lemma xreg_write_zero [simp]: "rv_xreg_write cpu 0 v = cpu"
  by (simp add: rv_xreg_write_def)

lemma xreg_write_frame [simp, frame_simps]:
  "csr (rv_xreg_write cpu i v) = csr cpu" "pc (rv_xreg_write cpu i v) = pc cpu"
  "epc (rv_xreg_write cpu i v) = epc cpu" "privilege (rv_xreg_write cpu i v) = privilege cpu"
  "mem_privilege (rv_xreg_write cpu i v) = mem_privilege cpu"
  "tlb (rv_xreg_write cpu i v) = tlb cpu" "fregs (rv_xreg_write cpu i v) = fregs cpu"
  "vregs (rv_xreg_write cpu i v) = vregs cpu" "halted (rv_xreg_write cpu i v) = halted cpu"
  "irq_pending (rv_xreg_write cpu i v) = irq_pending cpu"
  "clint_timer_armed (rv_xreg_write cpu i v) = clint_timer_armed cpu"
  "length (xregs (rv_xreg_write cpu i v)) = length (xregs cpu)"
  by (simp_all add: rv_xreg_write_def)

lemma xreg_read_write:
  "unat i < length (xregs cpu) \<Longrightarrow>
   rv_xreg_read (rv_xreg_write cpu i v) j =
     (if i = j \<and> i \<noteq> 0 then v else rv_xreg_read cpu j)"
  by (auto simp: rv_xreg_read_def rv_xreg_write_def nth_list_update word_unat_eq_iff)

lemma freg_write_frame [simp, frame_simps]:
  "csr (rv_freg_write cpu i v) = csr cpu" "pc (rv_freg_write cpu i v) = pc cpu"
  "epc (rv_freg_write cpu i v) = epc cpu" "privilege (rv_freg_write cpu i v) = privilege cpu"
  "mem_privilege (rv_freg_write cpu i v) = mem_privilege cpu"
  "tlb (rv_freg_write cpu i v) = tlb cpu" "xregs (rv_freg_write cpu i v) = xregs cpu"
  "vregs (rv_freg_write cpu i v) = vregs cpu" "halted (rv_freg_write cpu i v) = halted cpu"
  "irq_pending (rv_freg_write cpu i v) = irq_pending cpu"
  "clint_timer_armed (rv_freg_write cpu i v) = clint_timer_armed cpu"
  "length (fregs (rv_freg_write cpu i v)) = length (fregs cpu)"
  by (simp_all add: rv_freg_write_def)

lemma sync_mem_privilege_frame [simp, frame_simps]:
  "csr (rv_sync_mem_privilege cpu) = csr cpu" "pc (rv_sync_mem_privilege cpu) = pc cpu"
  "epc (rv_sync_mem_privilege cpu) = epc cpu"
  "privilege (rv_sync_mem_privilege cpu) = privilege cpu"
  "tlb (rv_sync_mem_privilege cpu) = tlb cpu" "xregs (rv_sync_mem_privilege cpu) = xregs cpu"
  "fregs (rv_sync_mem_privilege cpu) = fregs cpu" "vregs (rv_sync_mem_privilege cpu) = vregs cpu"
  "halted (rv_sync_mem_privilege cpu) = halted cpu"
  "irq_pending (rv_sync_mem_privilege cpu) = irq_pending cpu"
  "clint_timer_armed (rv_sync_mem_privilege cpu) = clint_timer_armed cpu"
  by (simp_all add: rv_sync_mem_privilege_def Let_def)

end
