(* ===== verification/RV_Tlb.thy ===== *)
theory RV_Tlb
  imports RV_State
begin

text \<open>
  The translation lookaside buffer's invalidation functions (\<open>rv_flush_tlb\<close> to
  \<open>rv_inval_tlb\<close> in \<open>cpu/rv_paging.c\<close>), which only clear valid bits. The locale
  \<open>tlb_invalidation\<close> is what the callers rely on: exactly the entries it names become
  invalid, and nothing else of the core changes.
\<close>

section \<open>Masks\<close>

abbreviation "RV_TLB_VPN_MASK \<equiv> (0x0000003ffffff000 :: u64)"
abbreviation "RV_TLB_ASID_MASK \<equiv> (0xffff000000000000 :: u64)"
abbreviation "RV_TLB_ASID_BASE_BIT \<equiv> (48 :: nat)"
abbreviation "RV_CPU_PAGE_SIZE_EXP \<equiv> (12 :: nat)"
abbreviation "RV_CPU_PAGE_SIZE \<equiv> (4096 :: u64)"
abbreviation "RV_SATP_MODE_BASE_BIT \<equiv> (60 :: nat)"
abbreviation "RV_SATP_ASID_BASE_BIT \<equiv> (44 :: nat)"
abbreviation "RV_SATP_MODE_MASK \<equiv> (0xf000000000000000 :: u64)"
abbreviation "RV_SATP_ASID_MASK \<equiv> (0x0ffff00000000000 :: u64)"
abbreviation "RV_SATP_PPN_MASK \<equiv> (0x00000fffffffffff :: u64)"

section \<open>Entries\<close>

definition tlb_entry_at :: "rv_cpu \<Rightarrow> nat \<Rightarrow> nat \<Rightarrow> rv_tlb_entry" where
  "tlb_entry_at cpu row col = tlb_entries (tlb cpu) ! (row * RV_TLB_COLUMNS + col)"

definition tlb_is_valid :: "rv_cpu \<Rightarrow> nat \<Rightarrow> nat \<Rightarrow> bool" where
  "tlb_is_valid cpu row col \<longleftrightarrow> bit (tlb_valid (tlb cpu) ! row) col"

text \<open>\<open>valid[row] &= ~(1 << col)\<close> and \<open>valid[row] |= 1 << col\<close>.\<close>

definition tlb_clear_valid :: "nat \<Rightarrow> nat \<Rightarrow> rv_cpu \<Rightarrow> rv_cpu" where
  "tlb_clear_valid row col cpu =
     cpu\<lparr>tlb := (tlb cpu)\<lparr>tlb_valid :=
       (tlb_valid (tlb cpu))[row := (tlb_valid (tlb cpu) ! row) AND NOT (push_bit col 1)]\<rparr>\<rparr>"

definition tlb_set_valid :: "nat \<Rightarrow> nat \<Rightarrow> rv_cpu \<Rightarrow> rv_cpu" where
  "tlb_set_valid row col cpu =
     cpu\<lparr>tlb := (tlb cpu)\<lparr>tlb_valid :=
       (tlb_valid (tlb cpu))[row := (tlb_valid (tlb cpu) ! row) OR push_bit col 1]\<rparr>\<rparr>"

definition vma_asid :: "u64 \<Rightarrow> u16" where
  "vma_asid v = ucast (drop_bit RV_TLB_ASID_BASE_BIT (v AND RV_TLB_ASID_MASK))"

definition tlb_row :: "u64 \<Rightarrow> nat" where
  "tlb_row vaddr = unat (vaddr div RV_CPU_PAGE_SIZE mod of_nat RV_TLB_ROWS)"

section \<open>Invalidation\<close>

text \<open>The loop body both invalidations share: clear the bit of an entry that matches.\<close>

definition tlb_clear_if :: "(rv_tlb_entry \<Rightarrow> bool) \<Rightarrow> nat \<Rightarrow> nat \<Rightarrow> rv_cpu \<Rightarrow> rv_cpu" where
  "tlb_clear_if matches row col cpu =
     (if matches (tlb_entry_at cpu row col) then tlb_clear_valid row col cpu else cpu)"

definition rv_flush_tlb :: "rv_cpu \<Rightarrow> rv_cpu" where
  "rv_flush_tlb cpu =
     fold (\<lambda>row cpu. cpu\<lparr>tlb := (tlb cpu)\<lparr>tlb_valid := (tlb_valid (tlb cpu))[row := 0]\<rparr>\<rparr>)
       [0..<RV_TLB_ROWS] cpu"

definition rv_inval_tlb_asid :: "u16 \<Rightarrow> rv_cpu \<Rightarrow> rv_cpu" where
  "rv_inval_tlb_asid asid cpu =
     fold (\<lambda>row. fold (\<lambda>col. tlb_clear_if (\<lambda>e. vma_asid (vma e) = asid) row col)
         [0..<RV_TLB_COLUMNS])
       [0..<RV_TLB_ROWS] cpu"

definition rv_inval_tlb_vaddr :: "u64 \<Rightarrow> u16 \<Rightarrow> bool \<Rightarrow> rv_cpu \<Rightarrow> rv_cpu" where
  "rv_inval_tlb_vaddr vaddr asid with_asid cpu =
     (let row = tlb_row vaddr;
          mask = (if with_asid then RV_TLB_VPN_MASK OR RV_TLB_ASID_MASK else RV_TLB_VPN_MASK);
          match = (if with_asid
                   then (vaddr AND RV_TLB_VPN_MASK) OR push_bit RV_TLB_ASID_BASE_BIT (ucast asid)
                   else vaddr AND RV_TLB_VPN_MASK)
      in fold (\<lambda>col. tlb_clear_if (\<lambda>e. vma e AND mask = match) row col)
           [0..<RV_TLB_COLUMNS] cpu)"

definition rv_is_canon_vaddr :: "rv_cpu \<Rightarrow> u64 \<Rightarrow> bool" where
  "rv_is_canon_vaddr cpu vaddr \<longleftrightarrow>
     (if drop_bit RV_SATP_MODE_BASE_BIT (satp (csr cpu) AND RV_SATP_MODE_MASK) \<noteq> 8 then False
      else signed_drop_bit (64 - 39) (push_bit (64 - 39) vaddr) = vaddr)"

definition rv_inval_tlb :: "u64 \<Rightarrow> u16 \<Rightarrow> bool \<Rightarrow> bool \<Rightarrow> rv_cpu \<Rightarrow> rv_cpu" where
  "rv_inval_tlb vaddr asid with_vaddr with_asid cpu =
     (if with_vaddr \<and> \<not> rv_is_canon_vaddr cpu vaddr then cpu
      else if with_vaddr then rv_inval_tlb_vaddr vaddr asid with_asid cpu
      else if with_asid then rv_inval_tlb_asid asid cpu
      else rv_flush_tlb cpu)"

section \<open>The contract of an invalidation\<close>

text \<open>
  \<open>tlb_frame c c'\<close>: \<open>c'\<close> is \<open>c\<close> with other valid bits (of the same number).
\<close>

definition tlb_frame :: "rv_cpu \<Rightarrow> rv_cpu \<Rightarrow> bool" where
  "tlb_frame c c' \<longleftrightarrow>
     (\<exists>v. c' = c\<lparr>tlb := (tlb c)\<lparr>tlb_valid := v\<rparr>\<rparr> \<and> length v = length (tlb_valid (tlb c)))"

lemma tlb_frame_refl [simp]: "tlb_frame c c"
  unfolding tlb_frame_def by (rule exI [where x = "tlb_valid (tlb c)"]) simp

lemma tlb_frame_trans: "tlb_frame a b \<Longrightarrow> tlb_frame b c \<Longrightarrow> tlb_frame a c"
  unfolding tlb_frame_def by fastforce

lemma tlb_frame_fold: "(\<And>x c. tlb_frame c (f x c)) \<Longrightarrow> tlb_frame c (fold f xs c)"
  by (induction xs arbitrary: c) (auto intro: tlb_frame_trans)

lemma tlb_frame_clear [simp]: "tlb_frame c (tlb_clear_if p row col c)"
proof (cases "p (tlb_entry_at c row col)")
  case True
  then show ?thesis
    unfolding tlb_frame_def tlb_clear_if_def tlb_clear_valid_def
    by (intro exI [where x =
          "(tlb_valid (tlb c))[row := (tlb_valid (tlb c) ! row) AND NOT (push_bit col 1)]"]) simp
qed (simp add: tlb_clear_if_def)

lemma tlb_frameD:
  assumes "tlb_frame c c'"
  shows "length (tlb_valid (tlb c')) = length (tlb_valid (tlb c))"
    and "tlb_entries (tlb c') = tlb_entries (tlb c)" and "next_column (tlb c') = next_column (tlb c)"
    and "tlb_entry_at c' row col = tlb_entry_at c row col"
    and "csr c' = csr c" and "xregs c' = xregs c" and "fregs c' = fregs c" and "vregs c' = vregs c"
    and "pc c' = pc c" and "epc c' = epc c" and "privilege c' = privilege c"
    and "mem_privilege c' = mem_privilege c" and "irq_pending c' = irq_pending c"
    and "halted c' = halted c" and "clint_timer_armed c' = clint_timer_armed c"
  using assms by (auto simp: tlb_frame_def tlb_entry_at_def)

locale tlb_invalidation =
  fixes inval :: "rv_cpu \<Rightarrow> rv_cpu"
    and names :: "rv_cpu \<Rightarrow> nat \<Rightarrow> nat \<Rightarrow> bool"
  assumes inval_frame: "tlb_frame c (inval c)"
    and valid_after:
      "length (tlb_valid (tlb c)) = RV_TLB_ROWS \<Longrightarrow> row < RV_TLB_ROWS \<Longrightarrow> col < RV_TLB_COLUMNS \<Longrightarrow>
       tlb_is_valid (inval c) row col \<longleftrightarrow> tlb_is_valid c row col \<and> \<not> names c row col"
begin

lemma inval_entry [simp]: "tlb_entry_at (inval c) row col = tlb_entry_at c row col"
  using inval_frame by (rule tlb_frameD)

lemma inval_length [simp]: "length (tlb_valid (tlb (inval c))) = length (tlb_valid (tlb c))"
  using inval_frame by (rule tlb_frameD)

text \<open>What was invalid stays invalid, and a second call changes no valid bit.\<close>

lemma inval_monotone:
  assumes "length (tlb_valid (tlb c)) = RV_TLB_ROWS" "row < RV_TLB_ROWS" "col < RV_TLB_COLUMNS"
    and "tlb_is_valid (inval c) row col"
  shows "tlb_is_valid c row col"
  using assms valid_after by blast

lemma inval_removes:
  assumes "length (tlb_valid (tlb c)) = RV_TLB_ROWS" "row < RV_TLB_ROWS" "col < RV_TLB_COLUMNS"
    and "names c row col"
  shows "\<not> tlb_is_valid (inval c) row col"
  using assms valid_after by blast

end

lemma tlb_is_valid_clear_if:
  assumes "r < length (tlb_valid (tlb c))" and "k < 16" and "col < 16"
  shows "tlb_is_valid (tlb_clear_if p row col c) r k \<longleftrightarrow>
    tlb_is_valid c r k \<and> \<not> (r = row \<and> k = col \<and> p (tlb_entry_at c row col))"
  using assms
  by (cases "row < length (tlb_valid (tlb c))")
    (auto simp: tlb_is_valid_def tlb_clear_if_def tlb_clear_valid_def nth_list_update bit_simps)

lemma tlb_is_valid_clear_cols:
  assumes "r < length (tlb_valid (tlb c))" and "k < 16" and "\<forall>col \<in> set cols. col < 16"
  shows "tlb_is_valid (fold (\<lambda>col. tlb_clear_if p row col) cols c) r k \<longleftrightarrow>
    tlb_is_valid c r k \<and> \<not> (r = row \<and> k \<in> set cols \<and> p (tlb_entry_at c row k))"
  using assms
proof (induction cols arbitrary: c)
  case Nil
  then show ?case by simp
next
  case (Cons col cols)
  let ?c = "tlb_clear_if p row col c"
  have "tlb_frame c ?c" by simp
  from tlb_frameD(1,4) [OF this] Cons show ?case
    by (auto simp: tlb_is_valid_clear_if)
qed

lemma tlb_frame_clear_cols: "tlb_frame c (fold (\<lambda>col. tlb_clear_if p row col) cols c)"
  by (rule tlb_frame_fold) simp

lemma tlb_is_valid_clear_rows:
  assumes "r < length (tlb_valid (tlb c))" and "k < 16"
  shows "tlb_is_valid (fold (\<lambda>row. fold (\<lambda>col. tlb_clear_if p row col) [0..<16]) rows c) r k \<longleftrightarrow>
    tlb_is_valid c r k \<and> \<not> (r \<in> set rows \<and> p (tlb_entry_at c r k))"
  using assms
proof (induction rows arbitrary: c)
  case Nil
  then show ?case by simp
next
  case (Cons row rows)
  let ?c = "fold (\<lambda>col. tlb_clear_if p row col) [0..<16] c"
  have "tlb_frame c ?c" by (rule tlb_frame_clear_cols)
  from tlb_frameD(1,4) [OF this] Cons show ?case
    by (auto simp del: upt_conv_Cons simp: tlb_is_valid_clear_cols)
qed

section \<open>Instances\<close>

lemma flush_valid: "tlb_valid (tlb (fold (\<lambda>row cpu. cpu\<lparr>tlb := (tlb cpu)\<lparr>tlb_valid :=
    (tlb_valid (tlb cpu))[row := 0]\<rparr>\<rparr>) rows c)) = fold (\<lambda>row v. v[row := 0]) rows (tlb_valid (tlb c))"
  by (induction rows arbitrary: c) auto

lemma nth_fold_zero:
  "r < length v \<Longrightarrow> fold (\<lambda>row v. v[row := (0::u16)]) rows v ! r = (if r \<in> set rows then 0 else v ! r)"
  by (induction rows arbitrary: v) (auto simp: nth_list_update)

lemma flush_frame: "tlb_frame c (rv_flush_tlb c)"
  unfolding rv_flush_tlb_def
proof (rule tlb_frame_fold)
  fix row c
  show "tlb_frame c (c\<lparr>tlb := (tlb c)\<lparr>tlb_valid := (tlb_valid (tlb c))[row := 0]\<rparr>\<rparr>)"
    unfolding tlb_frame_def by (rule exI [where x = "(tlb_valid (tlb c))[row := 0]"]) simp
qed

interpretation flush: tlb_invalidation rv_flush_tlb "\<lambda>_ _ _. True"
proof unfold_locales
  show "tlb_frame c (rv_flush_tlb c)" for c by (rule flush_frame)
next
  fix c :: rv_cpu and row col :: nat
  assume "length (tlb_valid (tlb c)) = RV_TLB_ROWS" and "row < RV_TLB_ROWS"
  then have "tlb_valid (tlb (rv_flush_tlb c)) ! row = 0"
    unfolding rv_flush_tlb_def flush_valid by (subst nth_fold_zero) auto
  then show "tlb_is_valid (rv_flush_tlb c) row col \<longleftrightarrow> tlb_is_valid c row col \<and> \<not> True"
    by (simp add: tlb_is_valid_def)
qed

definition asid_names :: "u16 \<Rightarrow> rv_cpu \<Rightarrow> nat \<Rightarrow> nat \<Rightarrow> bool" where
  "asid_names asid c row col \<longleftrightarrow> vma_asid (vma (tlb_entry_at c row col)) = asid"

interpretation by_asid: tlb_invalidation "rv_inval_tlb_asid asid" "asid_names asid" for asid
proof unfold_locales
  show "tlb_frame c (rv_inval_tlb_asid asid c)" for c
    unfolding rv_inval_tlb_asid_def
    by (rule tlb_frame_fold) (rule tlb_frame_clear_cols)
next
  fix c :: rv_cpu and row col :: nat
  assume "length (tlb_valid (tlb c)) = RV_TLB_ROWS" "row < RV_TLB_ROWS" "col < RV_TLB_COLUMNS"
  then show "tlb_is_valid (rv_inval_tlb_asid asid c) row col \<longleftrightarrow>
      tlb_is_valid c row col \<and> \<not> asid_names asid c row col"
    unfolding rv_inval_tlb_asid_def asid_names_def
    by (subst tlb_is_valid_clear_rows) auto
qed

text \<open>The entry was filled for \<open>vaddr\<close>'s page and, if asked for, has the address space.\<close>

definition vaddr_names :: "u64 \<Rightarrow> u16 \<Rightarrow> bool \<Rightarrow> rv_cpu \<Rightarrow> nat \<Rightarrow> nat \<Rightarrow> bool" where
  "vaddr_names vaddr asid with_asid c row col \<longleftrightarrow>
     row = tlb_row vaddr
     \<and> vma (tlb_entry_at c row col) AND RV_TLB_VPN_MASK = vaddr AND RV_TLB_VPN_MASK
     \<and> (with_asid \<longrightarrow> vma_asid (vma (tlb_entry_at c row col)) = asid)"

lemma vma_and_asid: "v AND RV_TLB_ASID_MASK = push_bit 48 (ucast (vma_asid v))"
  by (rule bit_word_eqI) (auto simp: bit_simps mask_bits vma_asid_def)

lemma vma_match_split:
  fixes asid :: u16 and v va :: u64
  shows "v AND (RV_TLB_VPN_MASK OR RV_TLB_ASID_MASK)
      = (va AND RV_TLB_VPN_MASK) OR push_bit RV_TLB_ASID_BASE_BIT (ucast asid)
    \<longleftrightarrow> v AND RV_TLB_VPN_MASK = va AND RV_TLB_VPN_MASK \<and> vma_asid v = asid"
    (is "?l = ?r \<longleftrightarrow> ?V \<and> ?A")
proof
  have l: "?l = (v AND RV_TLB_VPN_MASK) OR push_bit 48 (ucast (vma_asid v))"
    by (simp only: bit.conj_disj_distrib vma_and_asid)
  have low: "((x AND RV_TLB_VPN_MASK) OR push_bit 48 y) AND RV_TLB_VPN_MASK = x AND RV_TLB_VPN_MASK"
    for x y :: u64
    by (rule bit_word_eqI) (auto simp: bit_simps mask_bits)
  have high: "(ucast (drop_bit 48 ((x AND RV_TLB_VPN_MASK) OR push_bit 48 (ucast a)))) = a"
    for x :: u64 and a :: u16
    by (rule bit_word_eqI) (auto simp: bit_simps mask_bits)
  show "?V \<and> ?A" if "?l = ?r"
    using that low [of v "ucast (vma_asid v)"] low [of va "ucast asid"]
      high [of v "vma_asid v"] high [of va asid]
    unfolding l by metis
  show "?l = ?r" if "?V \<and> ?A"
    using that by (simp only: l)
qed

interpretation by_vaddr: tlb_invalidation "rv_inval_tlb_vaddr vaddr asid with_asid"
    "vaddr_names vaddr asid with_asid" for vaddr asid with_asid
proof unfold_locales
  show "tlb_frame c (rv_inval_tlb_vaddr vaddr asid with_asid c)" for c
    unfolding rv_inval_tlb_vaddr_def Let_def by (rule tlb_frame_clear_cols)
next
  fix c :: rv_cpu and row col :: nat
  assume "length (tlb_valid (tlb c)) = RV_TLB_ROWS" "row < RV_TLB_ROWS" "col < RV_TLB_COLUMNS"
  then show "tlb_is_valid (rv_inval_tlb_vaddr vaddr asid with_asid c) row col \<longleftrightarrow>
      tlb_is_valid c row col \<and> \<not> vaddr_names vaddr asid with_asid c row col"
    unfolding rv_inval_tlb_vaddr_def Let_def vaddr_names_def
    by (subst tlb_is_valid_clear_cols)
      (simp_all only: vma_match_split if_cancel split: if_split, auto)
qed

text \<open>\<open>rv_inval_tlb\<close>: the argument flags choose which of the three runs.\<close>

definition inval_names :: "u64 \<Rightarrow> u16 \<Rightarrow> bool \<Rightarrow> bool \<Rightarrow> rv_cpu \<Rightarrow> nat \<Rightarrow> nat \<Rightarrow> bool" where
  "inval_names vaddr asid with_vaddr with_asid c row col \<longleftrightarrow>
     (if with_vaddr then rv_is_canon_vaddr c vaddr \<and> vaddr_names vaddr asid with_asid c row col
      else with_asid \<longrightarrow> asid_names asid c row col)"

interpretation inval: tlb_invalidation "rv_inval_tlb vaddr asid with_vaddr with_asid"
    "inval_names vaddr asid with_vaddr with_asid" for vaddr asid with_vaddr with_asid
  by unfold_locales
    (auto simp: rv_inval_tlb_def inval_names_def by_vaddr.valid_after by_asid.valid_after
      flush.valid_after by_vaddr.inval_frame by_asid.inval_frame flush.inval_frame)

lemmas flush_fields [simp, frame_simps] = tlb_frameD(2-3,5-) [OF flush.inval_frame]
lemmas inval_fields [simp, frame_simps] = tlb_frameD(2-3,5-) [OF inval.inval_frame]

lemma tlb_row_less [simp]: "tlb_row vaddr < RV_TLB_ROWS"
  by (simp add: tlb_row_def unat_mod)

end
