(* ===== verification/RV_Csr.thy ===== *)
theory RV_Csr
  imports RV_Tlb
begin

text \<open>
  Control and status registers: the register list of \<open>cpu/rv_defs/csr.h\<close>, the masks of
  \<open>cpu/rv_csr.h\<close> and the read and write functions of \<open>cpu/rv_csr.c\<close>. A read gives
  \<open>None\<close> and a write gives \<open>None\<close> where the C function returns false; the core is then
  unchanged. The compare-and-exchange loops of \<open>mip\<close> and \<open>sip\<close> are single steps.
\<close>

section \<open>Register list\<close>

datatype rv_csr =
    RV_CSR_fflags | RV_CSR_frm | RV_CSR_fcsr | RV_CSR_vstart
  | RV_CSR_vxsat | RV_CSR_vxrm | RV_CSR_vcsr | RV_CSR_vl
  | RV_CSR_vtype | RV_CSR_vlenb | RV_CSR_cycle | RV_CSR_time
  | RV_CSR_instret | RV_CSR_sstatus | RV_CSR_sie | RV_CSR_stvec
  | RV_CSR_sscratch | RV_CSR_sepc | RV_CSR_scause | RV_CSR_stval
  | RV_CSR_sip | RV_CSR_satp | RV_CSR_mvendorid | RV_CSR_marchid
  | RV_CSR_mimpid | RV_CSR_mhartid | RV_CSR_mconfigptr | RV_CSR_mstatus
  | RV_CSR_misa | RV_CSR_medeleg | RV_CSR_mideleg | RV_CSR_mie
  | RV_CSR_mtvec | RV_CSR_mcounteren | RV_CSR_mscratch | RV_CSR_mepc
  | RV_CSR_mcause | RV_CSR_mtval | RV_CSR_mip | RV_CSR_mtinst
  | RV_CSR_pmpcfg0 | RV_CSR_pmpcfg15 | RV_CSR_pmpaddr0 | RV_CSR_pmpaddr63
  | RV_CSR_mcycle | RV_CSR_minstret

fun rv_csr_index :: "rv_csr \<Rightarrow> u32" where
  "rv_csr_index RV_CSR_fflags = 0x001"
| "rv_csr_index RV_CSR_frm = 0x002"
| "rv_csr_index RV_CSR_fcsr = 0x003"
| "rv_csr_index RV_CSR_vstart = 0x008"
| "rv_csr_index RV_CSR_vxsat = 0x009"
| "rv_csr_index RV_CSR_vxrm = 0x00A"
| "rv_csr_index RV_CSR_vcsr = 0x00F"
| "rv_csr_index RV_CSR_vl = 0xC20"
| "rv_csr_index RV_CSR_vtype = 0xC21"
| "rv_csr_index RV_CSR_vlenb = 0xC22"
| "rv_csr_index RV_CSR_cycle = 0xC00"
| "rv_csr_index RV_CSR_time = 0xC01"
| "rv_csr_index RV_CSR_instret = 0xC02"
| "rv_csr_index RV_CSR_sstatus = 0x100"
| "rv_csr_index RV_CSR_sie = 0x104"
| "rv_csr_index RV_CSR_stvec = 0x105"
| "rv_csr_index RV_CSR_sscratch = 0x140"
| "rv_csr_index RV_CSR_sepc = 0x141"
| "rv_csr_index RV_CSR_scause = 0x142"
| "rv_csr_index RV_CSR_stval = 0x143"
| "rv_csr_index RV_CSR_sip = 0x144"
| "rv_csr_index RV_CSR_satp = 0x180"
| "rv_csr_index RV_CSR_mvendorid = 0xF11"
| "rv_csr_index RV_CSR_marchid = 0xF12"
| "rv_csr_index RV_CSR_mimpid = 0xF13"
| "rv_csr_index RV_CSR_mhartid = 0xF14"
| "rv_csr_index RV_CSR_mconfigptr = 0xF15"
| "rv_csr_index RV_CSR_mstatus = 0x300"
| "rv_csr_index RV_CSR_misa = 0x301"
| "rv_csr_index RV_CSR_medeleg = 0x302"
| "rv_csr_index RV_CSR_mideleg = 0x303"
| "rv_csr_index RV_CSR_mie = 0x304"
| "rv_csr_index RV_CSR_mtvec = 0x305"
| "rv_csr_index RV_CSR_mcounteren = 0x306"
| "rv_csr_index RV_CSR_mscratch = 0x340"
| "rv_csr_index RV_CSR_mepc = 0x341"
| "rv_csr_index RV_CSR_mcause = 0x342"
| "rv_csr_index RV_CSR_mtval = 0x343"
| "rv_csr_index RV_CSR_mip = 0x344"
| "rv_csr_index RV_CSR_mtinst = 0x34A"
| "rv_csr_index RV_CSR_pmpcfg0 = 0x3A0"
| "rv_csr_index RV_CSR_pmpcfg15 = 0x3AF"
| "rv_csr_index RV_CSR_pmpaddr0 = 0x3B0"
| "rv_csr_index RV_CSR_pmpaddr63 = 0x3EF"
| "rv_csr_index RV_CSR_mcycle = 0xB00"
| "rv_csr_index RV_CSR_minstret = 0xB02"

fun rv_csr_name :: "rv_csr \<Rightarrow> string" where
  "rv_csr_name RV_CSR_fflags = ''fflags''"
| "rv_csr_name RV_CSR_frm = ''frm''"
| "rv_csr_name RV_CSR_fcsr = ''fcsr''"
| "rv_csr_name RV_CSR_vstart = ''vstart''"
| "rv_csr_name RV_CSR_vxsat = ''vxsat''"
| "rv_csr_name RV_CSR_vxrm = ''vxrm''"
| "rv_csr_name RV_CSR_vcsr = ''vcsr''"
| "rv_csr_name RV_CSR_vl = ''vl''"
| "rv_csr_name RV_CSR_vtype = ''vtype''"
| "rv_csr_name RV_CSR_vlenb = ''vlenb''"
| "rv_csr_name RV_CSR_cycle = ''cycle''"
| "rv_csr_name RV_CSR_time = ''time''"
| "rv_csr_name RV_CSR_instret = ''instret''"
| "rv_csr_name RV_CSR_sstatus = ''sstatus''"
| "rv_csr_name RV_CSR_sie = ''sie''"
| "rv_csr_name RV_CSR_stvec = ''stvec''"
| "rv_csr_name RV_CSR_sscratch = ''sscratch''"
| "rv_csr_name RV_CSR_sepc = ''sepc''"
| "rv_csr_name RV_CSR_scause = ''scause''"
| "rv_csr_name RV_CSR_stval = ''stval''"
| "rv_csr_name RV_CSR_sip = ''sip''"
| "rv_csr_name RV_CSR_satp = ''satp''"
| "rv_csr_name RV_CSR_mvendorid = ''mvendorid''"
| "rv_csr_name RV_CSR_marchid = ''marchid''"
| "rv_csr_name RV_CSR_mimpid = ''mimpid''"
| "rv_csr_name RV_CSR_mhartid = ''mhartid''"
| "rv_csr_name RV_CSR_mconfigptr = ''mconfigptr''"
| "rv_csr_name RV_CSR_mstatus = ''mstatus''"
| "rv_csr_name RV_CSR_misa = ''misa''"
| "rv_csr_name RV_CSR_medeleg = ''medeleg''"
| "rv_csr_name RV_CSR_mideleg = ''mideleg''"
| "rv_csr_name RV_CSR_mie = ''mie''"
| "rv_csr_name RV_CSR_mtvec = ''mtvec''"
| "rv_csr_name RV_CSR_mcounteren = ''mcounteren''"
| "rv_csr_name RV_CSR_mscratch = ''mscratch''"
| "rv_csr_name RV_CSR_mepc = ''mepc''"
| "rv_csr_name RV_CSR_mcause = ''mcause''"
| "rv_csr_name RV_CSR_mtval = ''mtval''"
| "rv_csr_name RV_CSR_mip = ''mip''"
| "rv_csr_name RV_CSR_mtinst = ''mtinst''"
| "rv_csr_name RV_CSR_pmpcfg0 = ''pmpcfg0''"
| "rv_csr_name RV_CSR_pmpcfg15 = ''pmpcfg15''"
| "rv_csr_name RV_CSR_pmpaddr0 = ''pmpaddr0''"
| "rv_csr_name RV_CSR_pmpaddr63 = ''pmpaddr63''"
| "rv_csr_name RV_CSR_mcycle = ''mcycle''"
| "rv_csr_name RV_CSR_minstret = ''minstret''"

definition rv_csrs :: "rv_csr list" where
  "rv_csrs =
     [RV_CSR_fflags, RV_CSR_frm, RV_CSR_fcsr, RV_CSR_vstart,
      RV_CSR_vxsat, RV_CSR_vxrm, RV_CSR_vcsr, RV_CSR_vl,
      RV_CSR_vtype, RV_CSR_vlenb, RV_CSR_cycle, RV_CSR_time,
      RV_CSR_instret, RV_CSR_sstatus, RV_CSR_sie, RV_CSR_stvec,
      RV_CSR_sscratch, RV_CSR_sepc, RV_CSR_scause, RV_CSR_stval,
      RV_CSR_sip, RV_CSR_satp, RV_CSR_mvendorid, RV_CSR_marchid,
      RV_CSR_mimpid, RV_CSR_mhartid, RV_CSR_mconfigptr, RV_CSR_mstatus,
      RV_CSR_misa, RV_CSR_medeleg, RV_CSR_mideleg, RV_CSR_mie,
      RV_CSR_mtvec, RV_CSR_mcounteren, RV_CSR_mscratch, RV_CSR_mepc,
      RV_CSR_mcause, RV_CSR_mtval, RV_CSR_mip, RV_CSR_mtinst,
      RV_CSR_pmpcfg0, RV_CSR_pmpcfg15, RV_CSR_pmpaddr0, RV_CSR_pmpaddr63,
      RV_CSR_mcycle, RV_CSR_minstret]"

text \<open>A \<open>switch\<close> over a CSR number.\<close>

definition rv_csr_of_index :: "u32 \<Rightarrow> rv_csr option" where
  "rv_csr_of_index index = find (\<lambda>c. rv_csr_index c = index) rv_csrs"

definition rv_csr_to_name :: "u32 \<Rightarrow> string option" where
  "rv_csr_to_name index = map_option rv_csr_name (rv_csr_of_index index)"

definition rv_csr_from_name :: "string \<Rightarrow> u32" where
  "rv_csr_from_name name =
     (case find (\<lambda>c. rv_csr_name c = name) rv_csrs of
        None \<Rightarrow> 0 | Some c \<Rightarrow> rv_csr_index c)"

section \<open>Masks\<close>

definition RV_MISA_MASK :: "nat \<Rightarrow> u64" where
  "RV_MISA_MASK ext = push_bit (ext - 65) 1"

text \<open>The letters of the extensions are given by their character codes.\<close>

definition RV_MISA_VALUE :: u64 where
  "RV_MISA_VALUE =
     push_bit 63 1 OR RV_MISA_MASK 73 OR RV_MISA_MASK 77 OR RV_MISA_MASK 65
       OR RV_MISA_MASK 70 OR RV_MISA_MASK 68 OR RV_MISA_MASK 67"

definition RV_MSTATUS_HARDWIRED :: u64 where
  "RV_MSTATUS_HARDWIRED =
     push_bit RV_STATUS_UXL_BASE_BIT 2 OR push_bit RV_STATUS_SXL_BASE_BIT 2"

definition RV_SSTATUS_HARDWIRED :: u64 where
  "RV_SSTATUS_HARDWIRED = push_bit RV_STATUS_UXL_BASE_BIT 2"

definition RV_MSTATUS_MASK :: u64 where
  "RV_MSTATUS_MASK =
     push_bit RV_STATUS_SIE_BIT 1 OR push_bit RV_STATUS_MIE_BIT 1
       OR push_bit RV_STATUS_SPIE_BIT 1 OR push_bit RV_STATUS_UBE_BIT 1
       OR push_bit RV_STATUS_MPIE_BIT 1 OR push_bit RV_STATUS_SPP_BIT 1
       OR push_bit RV_STATUS_VS_BASE_BIT 3 OR push_bit RV_STATUS_MPP_BASE_BIT 3
       OR push_bit RV_STATUS_FS_BASE_BIT 3 OR push_bit RV_STATUS_XS_BASE_BIT 3
       OR push_bit RV_STATUS_MPRV_BIT 1 OR push_bit RV_STATUS_SUM_BIT 1
       OR push_bit RV_STATUS_MXR_BIT 1 OR push_bit RV_STATUS_TVM_BIT 1
       OR push_bit RV_STATUS_TW_BIT 1 OR push_bit RV_STATUS_TSR_BIT 1"

definition RV_SSTATUS_MASK :: u64 where
  "RV_SSTATUS_MASK =
     push_bit RV_STATUS_SIE_BIT 1 OR push_bit RV_STATUS_SPIE_BIT 1
       OR push_bit RV_STATUS_UBE_BIT 1 OR push_bit RV_STATUS_SPP_BIT 1
       OR push_bit RV_STATUS_VS_BASE_BIT 3 OR push_bit RV_STATUS_FS_BASE_BIT 3
       OR push_bit RV_STATUS_XS_BASE_BIT 3 OR push_bit RV_STATUS_SUM_BIT 1
       OR push_bit RV_STATUS_MXR_BIT 1"

definition RV_CHECK_XS :: "u64 \<Rightarrow> nat \<Rightarrow> bool" where
  "RV_CHECK_XS bits xs_base_bit \<longleftrightarrow> drop_bit xs_base_bit bits AND 3 \<noteq> 0"

abbreviation "RV_FFLAGS_NV_BIT \<equiv> (4 :: nat)"
abbreviation "RV_FFLAGS_DZ_BIT \<equiv> (3 :: nat)"
abbreviation "RV_FFLAGS_OF_BIT \<equiv> (2 :: nat)"
abbreviation "RV_FFLAGS_UF_BIT \<equiv> (1 :: nat)"
abbreviation "RV_FFLAGS_NX_BIT \<equiv> (0 :: nat)"
abbreviation "RV_FCSR_FRM_BASE_BIT \<equiv> (5 :: nat)"
abbreviation "RV_FFLAGS_MASK \<equiv> (0x1f :: u64)"
abbreviation "RV_FRM_MASK \<equiv> (0x7 :: u64)"

definition RV_FCSR_MASK :: u64 where
  "RV_FCSR_MASK = push_bit RV_FCSR_FRM_BASE_BIT RV_FRM_MASK OR RV_FFLAGS_MASK"

abbreviation "RV_MIP_SSIP_BIT \<equiv> (1 :: nat)"
abbreviation "RV_MIP_MSIP_BIT \<equiv> (3 :: nat)"
abbreviation "RV_MIP_STIP_BIT \<equiv> (5 :: nat)"
abbreviation "RV_MIP_MTIP_BIT \<equiv> (7 :: nat)"
abbreviation "RV_MIP_SEIP_BIT \<equiv> (9 :: nat)"
abbreviation "RV_MIP_MEIP_BIT \<equiv> (11 :: nat)"

definition RV_SIP_WMASK :: u64 where
  "RV_SIP_WMASK =
     push_bit RV_MIP_SSIP_BIT 1 OR push_bit RV_MIP_STIP_BIT 1 OR push_bit RV_MIP_SEIP_BIT 1"

abbreviation "RV_PMPCFG_R_BIT \<equiv> (0 :: nat)"
abbreviation "RV_PMPCFG_W_BIT \<equiv> (1 :: nat)"
abbreviation "RV_PMPCFG_X_BIT \<equiv> (2 :: nat)"
abbreviation "RV_PMPCFG_A_BASE_BIT \<equiv> (3 :: nat)"
abbreviation "RV_PMPCFG_L_BIT \<equiv> (7 :: nat)"
abbreviation "RV_PMP_ADDR_MATCH_NAPOT \<equiv> (3 :: u8)"
abbreviation "RV_PMPCFG_BYTE_MASK \<equiv> (0x9F :: u64)"
abbreviation "RV_PMPGRAIN \<equiv> (12 :: nat)"

definition RV_PMPGRAIN_NAPOT_MASK :: u64 where
  "RV_PMPGRAIN_NAPOT_MASK = push_bit (RV_PMPGRAIN - 1) 1 - 1"

definition RV_PMPGRAIN_OFF_MASK :: u64 where
  "RV_PMPGRAIN_OFF_MASK = push_bit RV_PMPGRAIN 1 - 1"

section \<open>Reading\<close>

definition csr_priv :: "u32 \<Rightarrow> u32" where
  "csr_priv index = drop_bit 8 index AND 3"

text \<open>The guard both functions have on \<open>satp\<close>: supervisor mode with \<open>TVM\<close> set.\<close>

definition satp_trapped :: "rv_cpu \<Rightarrow> bool" where
  "satp_trapped cpu \<longleftrightarrow>
     privilege cpu = 1 \<and> drop_bit RV_STATUS_TVM_BIT (mstatus (csr cpu)) AND 1 \<noteq> 0"

text \<open>The array registers of the \<open>default\<close> case.\<close>

definition pmpaddr_read :: "rv_csr_state \<Rightarrow> nat \<Rightarrow> u64" where
  "pmpaddr_read s addr_idx =
     (if drop_bit RV_PMPCFG_A_BASE_BIT (pmpcfg_unpacked s addr_idx) AND 3 = RV_PMP_ADDR_MATCH_NAPOT
      then pmpaddr s ! addr_idx OR RV_PMPGRAIN_NAPOT_MASK
      else pmpaddr s ! addr_idx AND NOT RV_PMPGRAIN_OFF_MASK)"

definition csr_read_array :: "rv_cpu \<Rightarrow> u32 \<Rightarrow> u64 option" where
  "csr_read_array cpu index =
     (if 0x3A0 \<le> index \<and> index \<le> 0x3AF then
        if index AND 1 \<noteq> 0 then None
        else Some (pmpcfg (csr cpu) ! unat ((index - 0x3A0) div 2))
      else if 0x3B0 \<le> index \<and> index \<le> 0x3EF then
        Some (pmpaddr_read (csr cpu) (unat (index - 0x3B0)))
      else None)"

text \<open>The cases of the \<open>switch\<close>; a register without a case of its own takes the default.\<close>

fun csr_read_case :: "rv_cpu \<Rightarrow> u32 \<Rightarrow> rv_csr \<Rightarrow> u64 option" where
  "csr_read_case cpu index RV_CSR_misa = Some RV_MISA_VALUE"
| "csr_read_case cpu index RV_CSR_mhartid = Some (mhartid (csr cpu))"
| "csr_read_case cpu index RV_CSR_marchid = Some (marchid (csr cpu))"
| "csr_read_case cpu index RV_CSR_mvendorid = Some (mvendorid (csr cpu))"
| "csr_read_case cpu index RV_CSR_mimpid = Some (mimpid (csr cpu))"
| "csr_read_case cpu index RV_CSR_mstatus = Some (mstatus (csr cpu) OR RV_MSTATUS_HARDWIRED)"
| "csr_read_case cpu index RV_CSR_mie = Some (mie (csr cpu))"
| "csr_read_case cpu index RV_CSR_mip = Some (irq_pending cpu)"
| "csr_read_case cpu index RV_CSR_mideleg = Some (mideleg (csr cpu))"
| "csr_read_case cpu index RV_CSR_medeleg = Some (medeleg (csr cpu))"
| "csr_read_case cpu index RV_CSR_mtvec = Some (mtvec (csr cpu))"
| "csr_read_case cpu index RV_CSR_mcause = Some (mcause (csr cpu))"
| "csr_read_case cpu index RV_CSR_mtval = Some (mtval (csr cpu))"
| "csr_read_case cpu index RV_CSR_mepc = Some (mepc (csr cpu))"
| "csr_read_case cpu index RV_CSR_mtinst = Some (mtinst (csr cpu))"
| "csr_read_case cpu index RV_CSR_mscratch = Some (mscratch (csr cpu))"
| "csr_read_case cpu index RV_CSR_sstatus =
     Some ((mstatus (csr cpu) AND RV_SSTATUS_MASK) OR RV_SSTATUS_HARDWIRED)"
| "csr_read_case cpu index RV_CSR_sie = Some (sie (csr cpu))"
| "csr_read_case cpu index RV_CSR_sip = Some (irq_pending cpu AND mideleg (csr cpu))"
| "csr_read_case cpu index RV_CSR_stvec = Some (stvec (csr cpu))"
| "csr_read_case cpu index RV_CSR_scause = Some (scause (csr cpu))"
| "csr_read_case cpu index RV_CSR_stval = Some (stval (csr cpu))"
| "csr_read_case cpu index RV_CSR_sepc = Some (sepc (csr cpu))"
| "csr_read_case cpu index RV_CSR_sscratch = Some (sscratch (csr cpu))"
| "csr_read_case cpu index RV_CSR_satp =
     (if satp_trapped cpu then None else Some (satp (csr cpu)))"
| "csr_read_case cpu index RV_CSR_fcsr =
     (if \<not> RV_CHECK_XS (mstatus (csr cpu)) RV_STATUS_FS_BASE_BIT then None
      else Some (fcsr (csr cpu)))"
| "csr_read_case cpu index RV_CSR_fflags =
     (if \<not> RV_CHECK_XS (mstatus (csr cpu)) RV_STATUS_FS_BASE_BIT then None
      else Some (fcsr (csr cpu) AND RV_FFLAGS_MASK))"
| "csr_read_case cpu index RV_CSR_frm =
     (if \<not> RV_CHECK_XS (mstatus (csr cpu)) RV_STATUS_FS_BASE_BIT then None
      else Some (drop_bit RV_FCSR_FRM_BASE_BIT (fcsr (csr cpu)) AND RV_FRM_MASK))"
| "csr_read_case cpu index _ = csr_read_array cpu index"

definition rv_csr_read :: "rv_cpu \<Rightarrow> u32 \<Rightarrow> u64 option" where
  "rv_csr_read cpu index =
     (if csr_priv index > ucast (privilege cpu) then None
      else case rv_csr_of_index index of
        Some r \<Rightarrow> csr_read_case cpu index r
      | None \<Rightarrow> csr_read_array cpu index)"

section \<open>Writing\<close>

text \<open>One byte of a \<open>pmpcfg\<close> register: only OFF and NAPOT exist, locked bytes stay.\<close>

definition pmpcfg_write_byte :: "u64 \<Rightarrow> u64 \<Rightarrow> nat \<Rightarrow> u8" where
  "pmpcfg_write_byte old wdata b =
     (let old_byte = ucast (drop_bit (b * 8) old AND 0xFF) :: u8;
          new_byte = ucast (drop_bit (b * 8) wdata AND RV_PMPCFG_BYTE_MASK) :: u8;
          a = drop_bit RV_PMPCFG_A_BASE_BIT new_byte AND 3;
          new_byte = (new_byte AND NOT (push_bit RV_PMPCFG_A_BASE_BIT 3))
                       OR push_bit RV_PMPCFG_A_BASE_BIT (if a AND 2 \<noteq> 0 then 3 else 0)
      in if bit old_byte RV_PMPCFG_L_BIT then old_byte else new_byte)"

definition pmpcfg_write :: "u64 \<Rightarrow> u64 \<Rightarrow> u64" where
  "pmpcfg_write old wdata =
     fold (\<lambda>b result. result OR push_bit (b * 8) (ucast (pmpcfg_write_byte old wdata b)))
       [0..<8] 0"

definition csr_write_array :: "rv_cpu \<Rightarrow> u32 \<Rightarrow> u64 \<Rightarrow> rv_cpu option" where
  "csr_write_array cpu index wdata =
     (if 0x3A0 \<le> index \<and> index \<le> 0x3AF then
        if index AND 1 \<noteq> 0 then None
        else
          let packed_idx = unat ((index - 0x3A0) div 2);
              old = pmpcfg (csr cpu) ! packed_idx
          in Some (upd_csr (\<lambda>c. c\<lparr>pmpcfg := (pmpcfg c)[packed_idx := pmpcfg_write old wdata]\<rparr>)
                     cpu)
      else if 0x3B0 \<le> index \<and> index \<le> 0x3EF then
        let addr_idx = unat (index - 0x3B0);
            cfg = pmpcfg_unpacked (csr cpu) addr_idx
        in if bit cfg RV_PMPCFG_L_BIT then Some cpu
           else Some (upd_csr (\<lambda>c. c\<lparr>pmpaddr := (pmpaddr c)[addr_idx := wdata]\<rparr>) cpu)
      else None)"

fun csr_write_case :: "rv_cpu \<Rightarrow> u32 \<Rightarrow> u64 \<Rightarrow> rv_csr \<Rightarrow> rv_cpu option" where
  "csr_write_case cpu index wdata RV_CSR_misa = Some cpu"
| "csr_write_case cpu index wdata RV_CSR_mhartid = Some cpu"
| "csr_write_case cpu index wdata RV_CSR_marchid = Some cpu"
| "csr_write_case cpu index wdata RV_CSR_mimpid = Some cpu"
| "csr_write_case cpu index wdata RV_CSR_mvendorid = Some cpu"
| "csr_write_case cpu index wdata RV_CSR_mstatus =
     (let wdata = wdata OR (drop_bit 1 wdata AND of_nat RV_STATUS_MPP_BASE_BIT)
      in Some (rv_sync_mem_privilege
           (upd_csr (\<lambda>c. c\<lparr>mstatus := wdata AND RV_MSTATUS_MASK\<rparr>) cpu)))"
| "csr_write_case cpu index wdata RV_CSR_mie =
     Some (upd_csr (\<lambda>c. c\<lparr>mie := wdata\<rparr>) cpu)"
| "csr_write_case cpu index wdata RV_CSR_mip =
     Some (cpu\<lparr>irq_pending :=
       (irq_pending cpu AND NOT RV_SIP_WMASK) OR (wdata AND RV_SIP_WMASK)\<rparr>)"
| "csr_write_case cpu index wdata RV_CSR_mideleg =
     Some (upd_csr (\<lambda>c. c\<lparr>mideleg := wdata\<rparr>) cpu)"
| "csr_write_case cpu index wdata RV_CSR_medeleg =
     Some (upd_csr (\<lambda>c. c\<lparr>medeleg := wdata\<rparr>) cpu)"
| "csr_write_case cpu index wdata RV_CSR_mtvec =
     Some (upd_csr (\<lambda>c. c\<lparr>mtvec := wdata\<rparr>) cpu)"
| "csr_write_case cpu index wdata RV_CSR_mcause =
     Some (upd_csr (\<lambda>c. c\<lparr>mcause := wdata\<rparr>) cpu)"
| "csr_write_case cpu index wdata RV_CSR_mtval =
     Some (upd_csr (\<lambda>c. c\<lparr>mtval := wdata\<rparr>) cpu)"
| "csr_write_case cpu index wdata RV_CSR_mepc =
     Some (upd_csr (\<lambda>c. c\<lparr>mepc := wdata\<rparr>) cpu)"
| "csr_write_case cpu index wdata RV_CSR_mtinst =
     Some (upd_csr (\<lambda>c. c\<lparr>mtinst := wdata\<rparr>) cpu)"
| "csr_write_case cpu index wdata RV_CSR_mscratch =
     Some (upd_csr (\<lambda>c. c\<lparr>mscratch := wdata\<rparr>) cpu)"
| "csr_write_case cpu index wdata RV_CSR_sstatus =
     Some (upd_csr (\<lambda>c. c\<lparr>mstatus :=
       (mstatus c AND NOT RV_SSTATUS_MASK) OR (wdata AND RV_SSTATUS_MASK)\<rparr>) cpu)"
| "csr_write_case cpu index wdata RV_CSR_sie =
     Some (upd_csr (\<lambda>c. c\<lparr>sie := wdata\<rparr>) cpu)"
| "csr_write_case cpu index wdata RV_CSR_sip =
     (let mask = mideleg (csr cpu) AND RV_SIP_WMASK
      in Some (cpu\<lparr>irq_pending :=
           (irq_pending cpu AND NOT mask) OR (wdata AND mask)\<rparr>))"
| "csr_write_case cpu index wdata RV_CSR_stvec =
     Some (upd_csr (\<lambda>c. c\<lparr>stvec := wdata\<rparr>) cpu)"
| "csr_write_case cpu index wdata RV_CSR_scause =
     Some (upd_csr (\<lambda>c. c\<lparr>scause := wdata\<rparr>) cpu)"
| "csr_write_case cpu index wdata RV_CSR_stval =
     Some (upd_csr (\<lambda>c. c\<lparr>stval := wdata\<rparr>) cpu)"
| "csr_write_case cpu index wdata RV_CSR_sepc =
     Some (upd_csr (\<lambda>c. c\<lparr>sepc := wdata\<rparr>) cpu)"
| "csr_write_case cpu index wdata RV_CSR_sscratch =
     Some (upd_csr (\<lambda>c. c\<lparr>sscratch := wdata\<rparr>) cpu)"
| "csr_write_case cpu index wdata RV_CSR_satp =
     (if satp_trapped cpu then None
      else
        let mode = drop_bit RV_SATP_MODE_BASE_BIT (wdata AND RV_SATP_MODE_MASK)
        in if mode \<noteq> 8 \<and> mode \<noteq> 0 then Some cpu
           else
             let cpu = (if mode \<noteq> 8 then rv_flush_tlb cpu else cpu)
             in Some (upd_csr (\<lambda>c. c\<lparr>satp := wdata\<rparr>) cpu))"
| "csr_write_case cpu index wdata RV_CSR_fcsr =
     (if \<not> RV_CHECK_XS (mstatus (csr cpu)) RV_STATUS_FS_BASE_BIT then None
      else Some (upd_csr (\<lambda>c. c\<lparr>fcsr := wdata AND RV_FCSR_MASK\<rparr>) cpu))"
| "csr_write_case cpu index wdata RV_CSR_fflags =
     (if \<not> RV_CHECK_XS (mstatus (csr cpu)) RV_STATUS_FS_BASE_BIT then None
      else Some (upd_csr (\<lambda>c. c\<lparr>fcsr :=
             (fcsr c AND NOT RV_FFLAGS_MASK) OR (wdata AND RV_FFLAGS_MASK)\<rparr>) cpu))"
| "csr_write_case cpu index wdata RV_CSR_frm =
     (if \<not> RV_CHECK_XS (mstatus (csr cpu)) RV_STATUS_FS_BASE_BIT then None
      else Some (upd_csr (\<lambda>c. c\<lparr>fcsr :=
             (fcsr c AND NOT (push_bit RV_FCSR_FRM_BASE_BIT RV_FRM_MASK))
               OR push_bit RV_FCSR_FRM_BASE_BIT (wdata AND RV_FRM_MASK)\<rparr>) cpu))"
| "csr_write_case cpu index wdata _ = csr_write_array cpu index wdata"

definition rv_csr_write :: "rv_cpu \<Rightarrow> u32 \<Rightarrow> u64 \<Rightarrow> rv_cpu option" where
  "rv_csr_write cpu index wdata =
     (if csr_priv index > ucast (privilege cpu) then None
      else case rv_csr_of_index index of
        Some r \<Rightarrow> csr_write_case cpu index wdata r
      | None \<Rightarrow> csr_write_array cpu index wdata)"

section \<open>The register list\<close>

lemma csr_of_index [simp]: "rv_csr_of_index (rv_csr_index c) = Some c"
  by (cases c) (simp_all add: rv_csr_of_index_def rv_csrs_def)

lemma csr_of_indexD: "rv_csr_of_index i = Some c \<Longrightarrow> rv_csr_index c = i"
  by (auto simp: rv_csr_of_index_def find_Some_iff)

lemma csr_from_name [simp]: "rv_csr_from_name (rv_csr_name c) = rv_csr_index c"
  by (cases c) (simp_all add: rv_csr_from_name_def rv_csrs_def)

text \<open>The array registers are not in the list, but for their ends, which have no case.\<close>

lemma csr_of_index_range:
  assumes "0x3A0 \<le> i" and "i \<le> 0x3EF" and "rv_csr_of_index i = Some c"
  shows "c \<in> {RV_CSR_pmpcfg0, RV_CSR_pmpcfg15, RV_CSR_pmpaddr0, RV_CSR_pmpaddr63}"
proof -
  have "0x3A0 \<le> rv_csr_index c" "rv_csr_index c \<le> 0x3EF"
    using assms csr_of_indexD by blast+
  then show ?thesis by (cases c) (simp_all add: word_le_nat_alt)
qed

lemma csr_index_nonzero [simp]: "rv_csr_index c \<noteq> 0"
  by (cases c) simp_all

text \<open>The two name functions are inverse to each other. A number has the name \<open>n\<close>
  exactly if looking \<open>n\<close> up gives that number (and the number is not the 0 that the lookup
  gives for an unknown name).\<close>
theorem csr_name_roundtrip:
  "rv_csr_to_name i = Some n \<longleftrightarrow> i \<noteq> 0 \<and> rv_csr_from_name n = i"
proof
  show "rv_csr_to_name i = Some n \<Longrightarrow> i \<noteq> 0 \<and> rv_csr_from_name n = i"
    using csr_of_indexD by (fastforce simp: rv_csr_to_name_def)
next
  assume r: "i \<noteq> 0 \<and> rv_csr_from_name n = i"
  then obtain c where "find (\<lambda>c. rv_csr_name c = n) rv_csrs = Some c" and "i = rv_csr_index c"
    by (auto simp: rv_csr_from_name_def split: option.splits)
  then show "rv_csr_to_name i = Some n"
    by (auto simp: rv_csr_to_name_def find_Some_iff)
qed

section \<open>PMP configuration bytes\<close>

lemma ucast_byte: "(ucast (x :: u64) :: u8) = ucast (take_bit 8 x)"
  by (rule bit_word_eqI) (simp add: bit_simps)

lemma ucast_ucast_u8: "ucast (ucast (b :: u8) :: u64) = b"
  by (rule bit_word_eqI) (simp add: bit_simps)

lemma upt_0_8: "[0..<8] = [0, 1, 2, 3, 4, 5, 6, 7 :: nat]"
  by (simp add: upt_rec)

lemma pmpcfg_write_nth:
  assumes "b < 8"
  shows "ucast (drop_bit (8 * b) (pmpcfg_write old wdata)) = pmpcfg_write_byte old wdata b"
proof -
  from assms consider "b = 0" | "b = 1" | "b = 2" | "b = 3" | "b = 4" | "b = 5" | "b = 6" | "b = 7"
    by linarith
  then have "take_bit 8 (drop_bit (8 * b) (pmpcfg_write old wdata))
      = ucast (pmpcfg_write_byte old wdata b)"
    by cases (simp_all add: pmpcfg_write_def upt_0_8 c_field)
  then show ?thesis
    by (subst ucast_byte) (simp add: ucast_ucast_u8)
qed

text \<open>A byte that a write can produce: reserved bits clear, address mode OFF or NAPOT.\<close>

definition pmp_byte_ok :: "u8 \<Rightarrow> bool" where
  "pmp_byte_ok b \<longleftrightarrow>
     b AND 0x60 = 0 \<and> (drop_bit RV_PMPCFG_A_BASE_BIT b AND 3 = 0
                        \<or> drop_bit RV_PMPCFG_A_BASE_BIT b AND 3 = RV_PMP_ADDR_MATCH_NAPOT)"

end
