(* ===== verification/RV_Wf.thy ===== *)
theory RV_Wf
  imports RV_Csr
begin

text \<open>
  The invariant of a core: the array sizes of \<open>struct rv_cpu\<close>, the hard-wired register
  x0, the fields of the control registers that only take masked values, the cached privilege
  of data accesses, and the normal form of the PMP bytes. Every operation on a core keeps it;
  the accesses the handlers make are in bounds because of it.
\<close>

section \<open>The invariant\<close>

definition wf_tlb :: "rv_tlb \<Rightarrow> bool" where
  "wf_tlb t \<longleftrightarrow>
     length (tlb_entries t) = RV_TLB_ROWS * RV_TLB_COLUMNS \<and> length (tlb_valid t) = RV_TLB_ROWS"

definition wf_csr :: "rv_csr_state \<Rightarrow> bool" where
  "wf_csr s \<longleftrightarrow>
     length (pmpcfg s) = 8 \<and> length (pmpaddr s) = 64
     \<and> mstatus s AND RV_MSTATUS_MASK = mstatus s
     \<and> fcsr s AND RV_FCSR_MASK = fcsr s
     \<and> list_all (\<lambda>k. pmp_byte_ok (pmpcfg_unpacked s k)) [0..<64]"

text \<open>The pending bits that exist: software, timer and external, for both modes.\<close>

abbreviation "IRQ_BITS \<equiv> (0xAAA :: u64)"

definition wf_cpu :: "rv_cpu \<Rightarrow> bool" where
  "wf_cpu c \<longleftrightarrow>
     length (xregs c) = 32 \<and> xregs c ! 0 = 0 \<and> length (fregs c) = 32
     \<and> wf_tlb (tlb c) \<and> wf_csr (csr c) \<and> privilege c \<le> 3
     \<and> mem_privilege c = mem_privilege (rv_sync_mem_privilege c)
     \<and> irq_pending c AND IRQ_BITS = irq_pending c"

lemma wf_cpuI [intro?]:
  "length (xregs c) = 32 \<Longrightarrow> xregs c ! 0 = 0 \<Longrightarrow> length (fregs c) = 32 \<Longrightarrow>
   wf_tlb (tlb c) \<Longrightarrow> wf_csr (csr c) \<Longrightarrow> privilege c \<le> 3 \<Longrightarrow>
   mem_privilege c = mem_privilege (rv_sync_mem_privilege c) \<Longrightarrow>
   irq_pending c AND IRQ_BITS = irq_pending c \<Longrightarrow> wf_cpu c"
  by (simp add: wf_cpu_def)

lemma wf_cpuD:
  assumes "wf_cpu c"
  shows "length (xregs c) = 32" and "xregs c ! 0 = 0" and "length (fregs c) = 32"
    and "wf_tlb (tlb c)" and "wf_csr (csr c)" and "privilege c \<le> 3"
    and "mem_privilege c = mem_privilege (rv_sync_mem_privilege c)"
    and "irq_pending c AND IRQ_BITS = irq_pending c"
  using assms by (simp_all add: wf_cpu_def)

lemma pmp_byte_ok_0 [simp]: "pmp_byte_ok 0"
  by (simp add: pmp_byte_ok_def)

text \<open>
  A zero-filled core, as \<open>calloc\<close> gives it, and one in machine mode, for the examples.
\<close>

definition cpu_zero :: rv_cpu where
  "cpu_zero =
     \<lparr>vregs = replicate 32 (replicate 8 0),
      tlb = \<lparr>tlb_entries = replicate 256 \<lparr>vma = 0, pte = 0\<rparr>, tlb_valid = replicate 16 0,
             next_column = 0\<rparr>,
      xregs = replicate 32 0, fregs = replicate 32 0,
      csr = \<lparr>mhartid = 0, marchid = 0, mimpid = 0, mvendorid = 0, mstatus = 0, mie = 0,
             mideleg = 0, medeleg = 0, mtvec = 0, mcause = 0, mtval = 0, mepc = 0, mtinst = 0,
             pmpcfg = replicate 8 0, pmpaddr = replicate 64 0, sie = 0, stvec = 0, scause = 0,
             stval = 0, sepc = 0, sscratch = 0, mscratch = 0, satp = 0, fcsr = 0, vtype = 0,
             vl = 0, vstart = 0, vcsr = 0\<rparr>,
      pc = 0, epc = 0, privilege = 0, mem_privilege = 0, halted = False,
      clint_timer_armed = False, irq_pending = 0\<rparr>"

definition cpu_m :: rv_cpu where
  "cpu_m = rv_sync_mem_privilege (cpu_zero\<lparr>privilege := 3\<rparr>)"

section \<open>Masks as numbers\<close>

lemma status_masks:
  "RV_MSTATUS_MASK = 0x7FFFEA" "RV_SSTATUS_MASK = 0xDE762" "RV_FCSR_MASK = 0xFF"
  "RV_SIP_WMASK = 0x222" "RV_MSTATUS_HARDWIRED = 0xA00000000" "RV_SSTATUS_HARDWIRED = 0x200000000"
  "RV_PMPGRAIN_NAPOT_MASK = 0x7FF" "RV_PMPGRAIN_OFF_MASK = 0xFFF"
  by (simp_all add: RV_MSTATUS_MASK_def RV_SSTATUS_MASK_def RV_FCSR_MASK_def RV_SIP_WMASK_def
      RV_MSTATUS_HARDWIRED_def RV_SSTATUS_HARDWIRED_def RV_PMPGRAIN_NAPOT_MASK_def
      RV_PMPGRAIN_OFF_MASK_def)

lemma masked_and_idem: "((x :: u64) AND m) AND m = x AND m"
  by (simp add: and.assoc)

lemma masked_or: "a AND m = a \<Longrightarrow> b AND m = b \<Longrightarrow> (a OR b) AND m = a OR b" for a b m :: u64
  by (simp add: bit.conj_disj_distrib2)

lemma masked_sub: "s AND m = s \<Longrightarrow> (x AND s) AND m = x AND s" for x s m :: u64
  by (simp add: and.assoc)

lemma masked_and: "x AND m = x \<Longrightarrow> (x AND y) AND m = x AND y" for x y m :: u64
  by (metis and.assoc and.commute)

section \<open>Register writes and TLB invalidation\<close>

lemma wf_xreg_write [wf_intros]:
  assumes "wf_cpu c"
  shows "wf_cpu (rv_xreg_write c i v)"
proof
  show "xregs (rv_xreg_write c i v) ! 0 = 0"
    using assms by (simp add: rv_xreg_write_def nth_list_update word_unat_eq_iff wf_cpuD)
qed (use assms in \<open>simp_all add: wf_cpuD rv_sync_mem_privilege_def\<close>)

lemma wf_freg_write [wf_intros]: "wf_cpu c \<Longrightarrow> wf_cpu (rv_freg_write c i v)"
  by (auto simp: wf_cpu_def rv_freg_write_def rv_sync_mem_privilege_def)

lemma wf_tlb_frame: "wf_cpu c \<Longrightarrow> tlb_frame c c' \<Longrightarrow> wf_cpu c'"
  by (auto simp: wf_cpu_def wf_tlb_def tlb_frame_def rv_sync_mem_privilege_def)

lemma wf_inval_tlb [wf_intros]: "wf_cpu c \<Longrightarrow> wf_cpu (rv_inval_tlb va asid with_va with_asid c)"
  using inval.inval_frame by (rule wf_tlb_frame [rotated])

lemma wf_flush_tlb [wf_intros]: "wf_cpu c \<Longrightarrow> wf_cpu (rv_flush_tlb c)"
  using flush.inval_frame by (rule wf_tlb_frame [rotated])

lemma mem_privilege_sync [simp]:
  "mem_privilege (rv_sync_mem_privilege (rv_sync_mem_privilege c)) = mem_privilege (rv_sync_mem_privilege c)"
  by (simp add: rv_sync_mem_privilege_def)

section \<open>CSR writes\<close>

text \<open>A write that succeeds ran one of the cases of the switch or the array part.\<close>

lemma csr_write_elim:
  assumes "rv_csr_write c i v = Some c'"
  obtains (reg) r where "i = rv_csr_index r" "csr_write_case c i v r = Some c'"
    "csr_priv (rv_csr_index r) \<le> ucast (privilege c)"
  | (array) "csr_write_array c i v = Some c'" "csr_priv i \<le> ucast (privilege c)"
proof (cases "csr_priv i > ucast (privilege c)")
  case False
  then show ?thesis
    using assms that
    by (cases "rv_csr_of_index i") (auto simp: rv_csr_write_def dest: csr_of_indexD)
qed (use assms in \<open>simp add: rv_csr_write_def\<close>)

text \<open>A case that is not one of an array register changes only control registers, the pending
  bits, and the privilege of data accesses or the valid bits of the TLB.\<close>

lemma pmp_byte_ok_bits: "pmp_byte_ok b \<longleftrightarrow> \<not> bit b 5 \<and> \<not> bit b 6 \<and> bit b 3 = bit b 4"
  by (auto simp: pmp_byte_ok_def word8_eq_iff bit_eval)

lemma pmp_byte_ok_write:
  assumes "pmp_byte_ok (ucast (drop_bit (b * 8) old))"
  shows "pmp_byte_ok (pmpcfg_write_byte old wdata b)"
proof -
  have low: "(ucast (x AND 0xFF) :: u8) = ucast x" for x :: u64
    by (simp add: word8_eq_iff bit_eval)
  show ?thesis
    using assms by (simp add: pmpcfg_write_byte_def Let_def low)
      (auto simp: pmp_byte_ok_bits bit_eval word8_eq_iff)
qed

lemma pmpcfg_unpacked_update:
  assumes "i < 8" and "k < 64" and "length (pmpcfg s) = 8"
  shows "pmpcfg_unpacked (s\<lparr>pmpcfg := (pmpcfg s)[i := w]\<rparr>) k =
    (if k div 8 = i then ucast (drop_bit (8 * (k mod 8)) w) else pmpcfg_unpacked s k)"
  using assms by (auto simp: pmpcfg_unpacked_def)

text \<open>Every write but those of the PMP arrays leaves the arrays as they are.\<close>

definition pmp_same :: "rv_cpu \<Rightarrow> rv_cpu \<Rightarrow> bool" where
  "pmp_same c c' \<longleftrightarrow> pmpcfg (csr c') = pmpcfg (csr c) \<and> pmpaddr (csr c') = pmpaddr (csr c)"

lemma pmp_same_unpacked: "pmp_same c c' \<Longrightarrow> pmpcfg_unpacked (csr c') k = pmpcfg_unpacked (csr c) k"
  by (simp add: pmp_same_def pmpcfg_unpacked_def)

lemma csr_write_pmp_cases:
  assumes "rv_csr_write c i v = Some c'"
  shows "pmp_same c c' \<or> csr_write_array c i v = Some c'"
  using assms
proof (cases rule: csr_write_elim)
  case (reg r)
  from reg(2) show ?thesis
    by (cases r) (auto simp: pmp_same_def Let_def split: if_splits)
qed simp

text \<open>The effect of an array write on byte \<open>k\<close> and address \<open>k\<close>.\<close>

lemma pmpcfg_write_byte_nth:
  assumes "k < 64"
  shows "ucast (drop_bit (8 * (k mod 8)) (pmpcfg_write old v)) = pmpcfg_write_byte old v (k mod 8)"
  by (rule pmpcfg_write_nth) simp

lemma pmpcfg_index_less: "0x3A0 \<le> i \<Longrightarrow> i \<le> 0x3AF \<Longrightarrow> unat (((i :: u32) - 0x3A0) div 2) < 8"
  by (simp add: unat_div unat_sub_if' word_le_nat_alt)

lemma csr_write_array_byte:
  assumes "csr_write_array c i v = Some c'" and "length (pmpcfg (csr c)) = 8" and "k < 64"
  shows "pmpcfg_unpacked (csr c') k = pmpcfg_unpacked (csr c) k
    \<or> pmpcfg_unpacked (csr c') k
        = pmpcfg_write_byte (pmpcfg (csr c) ! (k div 8)) v (k mod 8)"
  using assms pmpcfg_index_less [of i]
  by (auto simp: csr_write_array_def Let_def pmpcfg_unpacked_def nth_list_update
      pmpcfg_write_byte_nth split: if_splits)

lemma pmpcfg_write_byte_locked:
  assumes "bit (ucast (drop_bit (8 * b) old) :: u8) RV_PMPCFG_L_BIT"
  shows "pmpcfg_write_byte old v b = ucast (drop_bit (8 * b) old)"
proof -
  have "(ucast (x AND 0xFF) :: u8) = ucast x" for x :: u64
    by (simp add: word8_eq_iff bit_eval)
  then show ?thesis
    using assms by (simp add: pmpcfg_write_byte_def Let_def mult.commute)
qed

lemma csr_write_array_locked:
  assumes w: "csr_write_array c i v = Some c'" and len: "length (pmpcfg (csr c)) = 8" and "k < 64"
    and locked: "bit (pmpcfg_unpacked (csr c) k) RV_PMPCFG_L_BIT"
  shows "pmpcfg_unpacked (csr c') k = pmpcfg_unpacked (csr c) k"
    and "pmpaddr (csr c') ! k = pmpaddr (csr c) ! k"
proof -
  show "pmpcfg_unpacked (csr c') k = pmpcfg_unpacked (csr c) k"
    using csr_write_array_byte [OF w len \<open>k < 64\<close>] locked
    by (auto simp: pmpcfg_unpacked_def pmpcfg_write_byte_locked)
  show "pmpaddr (csr c') ! k = pmpaddr (csr c) ! k"
    using w locked
    by (cases "k = unat (i - 0x3B0)") (auto simp: csr_write_array_def Let_def split: if_splits)
qed

lemma csr_write_array_ok:
  assumes "csr_write_array c i v = Some c'" and "wf_csr (csr c)"
  shows "wf_csr (csr c')"
proof -
  have "pmp_byte_ok (pmpcfg_unpacked (csr c') k)" if "k < 64" for k
  proof -
    have "pmp_byte_ok (pmpcfg_unpacked (csr c) k)" and "length (pmpcfg (csr c)) = 8"
      using assms(2) that by (simp_all add: wf_csr_def list_all_iff)
    then show ?thesis
      using csr_write_array_byte [OF assms(1) _ that]
      by (auto simp: pmpcfg_unpacked_def mult.commute pmp_byte_ok_write)
  qed
  then show ?thesis
    using assms by (auto simp: wf_csr_def list_all_iff csr_write_array_def Let_def split: if_splits)
qed

lemma wf_csr_write_array:
  assumes "csr_write_array c i v = Some c'" and "wf_cpu c"
  shows "wf_cpu c'"
proof -
  have "wf_csr (csr c')"
    using csr_write_array_ok assms wf_cpuD(5) by blast
  then show ?thesis
    using assms
    by (auto simp: wf_cpu_def rv_sync_mem_privilege_def csr_write_array_def Let_def split: if_splits)
qed

text \<open>The masked registers.\<close>

lemma wf_set_fcsr:
  assumes "wf_cpu c" and "x AND 0xFF = x"
  shows "wf_cpu (upd_csr (\<lambda>s. s\<lparr>fcsr := x\<rparr>) c)"
  using assms by (auto simp: wf_cpu_def wf_csr_def rv_sync_mem_privilege_def pmpcfg_unpacked_def
      status_masks list_all_iff)

lemma sstatus_write_keeps:
  fixes x v :: u64
  shows "drop_bit 17 ((x AND NOT RV_SSTATUS_MASK) OR (v AND RV_SSTATUS_MASK)) AND 1 = drop_bit 17 x AND 1"
    and "drop_bit 11 ((x AND NOT RV_SSTATUS_MASK) OR (v AND RV_SSTATUS_MASK)) AND 3 = drop_bit 11 x AND 3"
  by (rule bit_word_eqI; auto simp: and_low_mask bit_simps status_masks less_2_cases_iff)+

lemma mem_privilege_cong:
  assumes "drop_bit 17 (mstatus s) AND 1 = drop_bit 17 (mstatus (csr c)) AND 1"
    and "drop_bit 11 (mstatus s) AND 3 = drop_bit 11 (mstatus (csr c)) AND 3"
  shows "mem_privilege (rv_sync_mem_privilege (c\<lparr>csr := s\<rparr>)) = mem_privilege (rv_sync_mem_privilege c)"
  using assms by (simp add: rv_sync_mem_privilege_def)

lemma wf_set_sstatus:
  assumes "wf_cpu c"
  shows "wf_cpu (upd_csr (\<lambda>s. s\<lparr>mstatus :=
    (mstatus s AND NOT RV_SSTATUS_MASK) OR (v AND RV_SSTATUS_MASK)\<rparr>) c)"
proof -
  define x where "x = (mstatus (csr c) AND NOT RV_SSTATUS_MASK) OR (v AND RV_SSTATUS_MASK)"
  have "(mstatus (csr c) AND RV_MSTATUS_MASK) = mstatus (csr c)"
    using assms by (simp add: wf_cpu_def wf_csr_def)
  then have "x AND RV_MSTATUS_MASK = x"
    unfolding x_def by (intro masked_or masked_and masked_sub) (simp_all add: status_masks)
  moreover have "mem_privilege (rv_sync_mem_privilege (upd_csr (\<lambda>s. s\<lparr>mstatus := x\<rparr>) c))
      = mem_privilege (rv_sync_mem_privilege c)"
    using sstatus_write_keeps [of "mstatus (csr c)" v] unfolding x_def [symmetric]
    by (intro mem_privilege_cong) simp_all
  ultimately show ?thesis
    using assms unfolding x_def [symmetric]
    by (auto simp: wf_cpu_def wf_csr_def pmpcfg_unpacked_def list_all_iff)
qed

lemma wf_fcsr: "wf_cpu c \<Longrightarrow> fcsr (csr c) AND 0xFF = fcsr (csr c)"
  by (simp add: wf_cpu_def wf_csr_def status_masks)

lemma fcsr_parts:
  fixes x v :: u64
  assumes "x AND 0xFF = x"
  shows "(x AND NOT 0x1F OR v AND 0x1F) AND 0xFF = x AND NOT 0x1F OR v AND 0x1F"
    and "(x AND NOT (push_bit 5 7) OR push_bit 5 (v AND 7)) AND 0xFF
      = x AND NOT (push_bit 5 7) OR push_bit 5 (v AND 7)"
proof -
  have "push_bit 5 (v AND 7) = push_bit 5 v AND 0xE0" by (simp add: push_bit_and)
  then show "(x AND NOT (push_bit 5 7) OR push_bit 5 (v AND 7)) AND 0xFF
      = x AND NOT (push_bit 5 7) OR push_bit 5 (v AND 7)"
    using assms by (simp only:) (intro masked_or masked_and masked_sub, simp_all)
  show "(x AND NOT 0x1F OR v AND 0x1F) AND 0xFF = x AND NOT 0x1F OR v AND 0x1F"
    using assms by (intro masked_or masked_and masked_sub) simp_all
qed

lemma wf_set_satp: "wf_cpu c \<Longrightarrow> wf_cpu (upd_csr (\<lambda>s. s\<lparr>satp := x\<rparr>) c)"
  by (auto simp: wf_cpu_def wf_csr_def rv_sync_mem_privilege_def pmpcfg_unpacked_def)

lemma wf_set_mstatus:
  assumes "wf_cpu c" and "x AND RV_MSTATUS_MASK = x"
  shows "wf_cpu (rv_sync_mem_privilege (upd_csr (\<lambda>s. s\<lparr>mstatus := x\<rparr>) c))"
  using assms by (auto simp: wf_cpu_def wf_csr_def pmpcfg_unpacked_def list_all_iff)

lemma wf_set_irq_pending:
  "wf_cpu c \<Longrightarrow> x AND IRQ_BITS = x \<Longrightarrow> wf_cpu (c\<lparr>irq_pending := x\<rparr>)"
  by (simp add: wf_cpu_def rv_sync_mem_privilege_def)

lemma wf_csr_write_irq:
  assumes "wf_cpu c"
  shows "csr_write_case c i v RV_CSR_mip = Some c' \<Longrightarrow> wf_cpu c'"
    and "csr_write_case c i v RV_CSR_sip = Some c' \<Longrightarrow> wf_cpu c'"
proof -
  have set: "wf_cpu (c\<lparr>irq_pending := (irq_pending c AND NOT w) OR (v AND w)\<rparr>)"
    if "w AND IRQ_BITS = w" for w
    using assms that wf_cpuD(8) [OF assms]
    by (intro wf_set_irq_pending masked_or masked_and masked_sub)
  show "csr_write_case c i v RV_CSR_mip = Some c' \<Longrightarrow> wf_cpu c'"
    using set [of RV_SIP_WMASK] by (auto simp: status_masks)
  have "(d AND RV_SIP_WMASK) AND IRQ_BITS = d AND RV_SIP_WMASK" for d :: u64
    by (simp add: status_masks and.assoc)
  then show "csr_write_case c i v RV_CSR_sip = Some c' \<Longrightarrow> wf_cpu c'"
    using set [of "mideleg (csr c) AND RV_SIP_WMASK"] by (auto simp: Let_def)
qed

text \<open>The other registers are plain.\<close>

definition wf_same :: "rv_cpu \<Rightarrow> rv_cpu \<Rightarrow> bool" where
  "wf_same c c' \<longleftrightarrow>
     xregs c' = xregs c \<and> fregs c' = fregs c \<and> tlb c' = tlb c \<and> pmpcfg (csr c') = pmpcfg (csr c)
     \<and> pmpaddr (csr c') = pmpaddr (csr c) \<and> mstatus (csr c') = mstatus (csr c)
     \<and> fcsr (csr c') = fcsr (csr c) \<and> privilege c' = privilege c
     \<and> mem_privilege c' = mem_privilege c \<and> irq_pending c' = irq_pending c"

lemma wf_same: "wf_same c c' \<Longrightarrow> wf_cpu c \<Longrightarrow> wf_cpu c'"
  by (simp add: wf_same_def wf_cpu_def wf_csr_def rv_sync_mem_privilege_def pmpcfg_unpacked_def)

lemma wf_csr_write_fcsr:
  assumes "wf_cpu c"
  shows "csr_write_case c i v RV_CSR_fflags = Some c' \<Longrightarrow> wf_cpu c'"
    and "csr_write_case c i v RV_CSR_frm = Some c' \<Longrightarrow> wf_cpu c'"
    and "csr_write_case c i v RV_CSR_fcsr = Some c' \<Longrightarrow> wf_cpu c'"
proof -
  note parts = fcsr_parts [OF wf_fcsr [OF assms], where v = v]
  assume "csr_write_case c i v RV_CSR_fflags = Some c'"
  then have "c' = upd_csr (\<lambda>s. s\<lparr>fcsr := fcsr (csr c) AND NOT 0x1F OR v AND 0x1F\<rparr>) c"
    by (simp split: if_splits)
  then show "wf_cpu c'" using wf_set_fcsr [OF assms parts(1)] by simp
next
  note parts = fcsr_parts [OF wf_fcsr [OF assms], where v = v]
  assume "csr_write_case c i v RV_CSR_frm = Some c'"
  then have "c' = upd_csr (\<lambda>s. s\<lparr>fcsr :=
      fcsr (csr c) AND NOT (push_bit 5 7) OR push_bit 5 (v AND 7)\<rparr>) c"
    by (simp split: if_splits)
  then show "wf_cpu c'" using wf_set_fcsr [OF assms parts(2)] by simp
next
  assume "csr_write_case c i v RV_CSR_fcsr = Some c'"
  then have "c' = upd_csr (\<lambda>s. s\<lparr>fcsr := v AND 0xFF\<rparr>) c"
    by (simp add: status_masks split: if_splits)
  then show "wf_cpu c'" using wf_set_fcsr [OF assms masked_and_idem [of v "0xFF"]] by simp
qed

lemma wf_csr_write_satp:
  assumes "wf_cpu c" and "csr_write_case c i v RV_CSR_satp = Some c'"
  shows "wf_cpu c'"
  using assms wf_set_satp [of c v] wf_set_satp [OF wf_flush_tlb [of c], of v]
  by (auto simp: Let_def split: if_splits)

lemma wf_csr_write_masked:
  assumes "csr_write_case c i v r = Some c'" and "wf_cpu c"
    and "r \<in> {RV_CSR_fflags, RV_CSR_frm, RV_CSR_fcsr, RV_CSR_sstatus, RV_CSR_mstatus, RV_CSR_satp,
      RV_CSR_mip, RV_CSR_sip}"
  shows "wf_cpu c'"
proof -
  have "wf_cpu c'" if "csr_write_case c i v RV_CSR_sstatus = Some c'"
    using that wf_set_sstatus [OF assms(2), of v] by simp
  moreover have "wf_cpu c'" if "csr_write_case c i v RV_CSR_mstatus = Some c'"
    using that wf_set_mstatus [OF assms(2) masked_and_idem] by (auto simp: Let_def)
  ultimately show ?thesis
    using assms wf_csr_write_fcsr [OF assms(2), of i v c'] wf_csr_write_satp [OF assms(2), of i v c']
      wf_csr_write_irq [OF assms(2), of i v c']
    by (auto simp del: csr_write_case.simps)
qed

lemma wf_csr_write [wf_intros]:
  assumes "rv_csr_write c i v = Some c'" and "wf_cpu c"
  shows "wf_cpu c'"
  using assms(1)
proof (cases rule: csr_write_elim)
  case array
  from array(1) assms(2) show ?thesis by (rule wf_csr_write_array)
next
  case (reg r)
  show ?thesis
  proof (cases "r \<in> {RV_CSR_fflags, RV_CSR_frm, RV_CSR_fcsr, RV_CSR_sstatus, RV_CSR_mstatus,
      RV_CSR_satp, RV_CSR_mip, RV_CSR_sip}")
    case True
    with reg(2) assms(2) show ?thesis by (rule wf_csr_write_masked)
  next
    case False
    with reg(2) have "wf_same c c' \<or> csr_write_array c i v = Some c'"
      by (cases r) (auto simp: wf_same_def Let_def)
    then show ?thesis
      using assms(2) wf_same wf_csr_write_array by blast
  qed
qed

section \<open>Properties of CSR accesses\<close>

text \<open>What software below machine mode must not be able to change.\<close>

definition machine_view where
  "machine_view c =
     ((mhartid (csr c), marchid (csr c), mimpid (csr c), mvendorid (csr c)),
      (mstatus (csr c) AND NOT RV_SSTATUS_MASK, mie (csr c), mideleg (csr c), medeleg (csr c)),
      (mtvec (csr c), mcause (csr c), mtval (csr c), mepc (csr c), mtinst (csr c), mscratch (csr c)),
      (pmpcfg (csr c), pmpaddr (csr c)), (privilege c, mem_privilege c),
      (irq_pending c AND NOT (mideleg (csr c) AND RV_SIP_WMASK)))"

lemma not_mask_or: "((x AND NOT m) OR (v AND m)) AND NOT m = x AND NOT m" for x m v :: u64
  by (rule bit_word_eqI) (auto simp: bit_simps)

lemma not_mask_or_sub:
  "((x AND (NOT d OR NOT m)) OR (v AND d AND m)) AND (NOT d OR NOT m) = x AND (NOT d OR NOT m)"
  for x m v d :: u64
  by (rule bit_word_eqI) (auto simp: bit_simps)

lemma csr_write_array_priv:
  assumes "csr_write_array c i v = Some c'"
  shows "csr_priv i = 3"
proof -
  from assms have "unat i div 256 = 3"
    by (auto simp: csr_write_array_def word_le_nat_alt split: if_splits)
  then have "drop_bit 8 i = 3"
    by (simp add: word_unat_eq_iff unat_div drop_bit_eq_div)
  then show ?thesis by (simp add: csr_priv_def)
qed

text \<open>C2: a CSR write executed below machine mode changes nothing machine mode owns: no
  machine-level register, PMP entry, status bit outside \<open>sstatus\<close>, current privilege, or
  pending bit that is not a delegated software-writable one.\<close>
theorem supervisor_csr_write_isolated:
  assumes "rv_csr_write c i v = Some c'" and "privilege c < 3"
  shows "machine_view c' = machine_view c"
  using assms(1)
proof (cases rule: csr_write_elim)
  case array
  then show ?thesis
    using assms(2) csr_write_array_priv [OF array(1)]
    by (simp add: word_less_nat_alt word_le_nat_alt unat_ucast_up)
next
  case (reg r)
  have "csr_priv (rv_csr_index r) < 3"
    using reg(3) assms(2) by (simp add: word_less_nat_alt word_le_nat_alt unat_ucast_up)
  moreover from this reg(1) have "csr_write_array c i v \<noteq> Some c'"
    using csr_write_array_priv [of c i v c'] by auto
  ultimately show ?thesis
    using reg(2)
    by (cases r)
      (auto simp: csr_priv_def Let_def machine_view_def not_mask_or not_mask_or_sub split: if_splits)
qed

lemma supervisor_csr_write_isolated_witness:
  "machine_view (upd_csr (\<lambda>s. s\<lparr>sscratch := 5\<rparr>) (cpu_zero\<lparr>privilege := 1\<rparr>))
    = machine_view (cpu_zero\<lparr>privilege := 1\<rparr>)"
  using supervisor_csr_write_isolated
    [where c = "cpu_zero\<lparr>privilege := 1\<rparr>" and i = "0x140" and v = 5
      and c' = "upd_csr (\<lambda>s. s\<lparr>sscratch := 5\<rparr>) (cpu_zero\<lparr>privilege := 1\<rparr>)"]
  by (simp add: rv_csr_write_def csr_priv_def rv_csr_of_index_def rv_csrs_def)

text \<open>C8: a locked PMP entry is immutable. Whatever register is written with whatever value,
  at any privilege, a PMP entry whose lock bit is set keeps its configuration byte and its
  address.\<close>
theorem locked_pmp_immutable:
  assumes "rv_csr_write c i v = Some c'" and "wf_cpu c" and "k < 64"
    and "bit (pmpcfg_unpacked (csr c) k) RV_PMPCFG_L_BIT"
  shows "pmpcfg_unpacked (csr c') k = pmpcfg_unpacked (csr c) k
    \<and> pmpaddr (csr c') ! k = pmpaddr (csr c) ! k"
proof -
  have len: "length (pmpcfg (csr c)) = 8"
    using assms(2) by (simp add: wf_cpu_def wf_csr_def)
  from csr_write_pmp_cases [OF assms(1)] show ?thesis
  proof
    assume "pmp_same c c'"
    then show ?thesis by (simp add: pmp_same_unpacked) (simp add: pmp_same_def)
  next
    assume "csr_write_array c i v = Some c'"
    with len assms(3,4) show ?thesis by (simp add: csr_write_array_locked)
  qed
qed

text \<open>Writing \<open>mstatus\<close> can put the reserved value 2 into MPP, although the write is
  meant to exclude it: the code masks with the number of the bit instead of the bit.\<close>
theorem mstatus_write_can_set_mpp_2:
  "\<exists>c'. rv_csr_write cpu_m (rv_csr_index RV_CSR_mstatus) 0x1000 = Some c'
     \<and> drop_bit RV_STATUS_MPP_BASE_BIT (mstatus (csr c')) AND 3 = 2"
  by (simp add: rv_csr_write_def cpu_m_def csr_priv_def status_masks rv_sync_mem_privilege_def
      del: rv_csr_index.simps)
    (simp add: csr_priv_def)

text \<open>A core whose entry 0 is locked.\<close>

definition cpu_locked :: rv_cpu where
  "cpu_locked = upd_csr (\<lambda>s. s\<lparr>pmpcfg := (pmpcfg s)[0 := 0x98]\<rparr>) cpu_m"

lemma cpu_zero_fields [simp]:
  "xregs cpu_zero = replicate 32 0" "fregs cpu_zero = replicate 32 0"
  "tlb_valid (tlb cpu_zero) = replicate 16 0" "next_column (tlb cpu_zero) = 0"
  "tlb_entries (tlb cpu_zero) = replicate 256 \<lparr>vma = 0, pte = 0\<rparr>"
  "mstatus (csr cpu_zero) = 0" "mie (csr cpu_zero) = 0" "mideleg (csr cpu_zero) = 0"
  "medeleg (csr cpu_zero) = 0" "satp (csr cpu_zero) = 0" "fcsr (csr cpu_zero) = 0"
  "mtvec (csr cpu_zero) = 0" "stvec (csr cpu_zero) = 0" "mepc (csr cpu_zero) = 0"
  "sepc (csr cpu_zero) = 0" "mhartid (csr cpu_zero) = 0"
  "pmpcfg (csr cpu_zero) = replicate 8 0" "pmpaddr (csr cpu_zero) = replicate 64 0"
  "pc cpu_zero = 0" "epc cpu_zero = 0" "privilege cpu_zero = 0" "mem_privilege cpu_zero = 0"
  "irq_pending cpu_zero = 0" "halted cpu_zero = False" "clint_timer_armed cpu_zero = False"
  by (simp_all add: cpu_zero_def)

lemma wf_csr_zero [simp]: "wf_csr (csr cpu_zero)"
  by (simp add: wf_csr_def list_all_iff pmpcfg_unpacked_def)

lemma wf_cpu_zero [simp]: "wf_cpu cpu_zero"
  by (simp add: wf_cpu_def wf_tlb_def rv_sync_mem_privilege_def)

lemma cpu_m_alt: "cpu_m = cpu_zero\<lparr>privilege := 3, mem_privilege := 3\<rparr>"
  by (simp add: cpu_m_def rv_sync_mem_privilege_def)

lemma wf_cpu_m [simp]: "wf_cpu cpu_m"
  using wf_csr_zero by (simp add: cpu_m_alt wf_cpu_def wf_tlb_def rv_sync_mem_privilege_def)

lemma wf_cpu_locked: "wf_cpu cpu_locked"
proof -
  have "csr_write_array cpu_m 0x3A0 0x98 = Some cpu_locked"
    by (simp add: csr_write_array_def cpu_locked_def cpu_m_alt pmpcfg_write_def upt_0_8
        pmpcfg_write_byte_def)
  then show ?thesis by (rule wf_csr_write_array) simp
qed

lemma locked_pmp_immutable_witness:
  "pmpcfg_unpacked (csr cpu_locked) 0 = 0x98
    \<and> (\<exists>c'. rv_csr_write cpu_locked 0x3A0 0x1F = Some c' \<and> pmpcfg_unpacked (csr c') 0 = 0x98)"
proof -
  have b: "pmpcfg_unpacked (csr cpu_locked) 0 = 0x98"
    by (simp add: cpu_locked_def cpu_m_alt pmpcfg_unpacked_def)
  obtain c' where c': "rv_csr_write cpu_locked 0x3A0 0x1F = Some c'"
    by (simp add: rv_csr_write_def csr_priv_def rv_csr_of_index_def rv_csrs_def cpu_locked_def
        cpu_m_alt csr_write_array_def Let_def)
  from locked_pmp_immutable [OF c' wf_cpu_locked, of 0] b c' show ?thesis
    by simp
qed

section \<open>Saving and restoring a register\<close>

lemma word_bytes_eqI:
  fixes x y :: u64
  assumes "\<And>b. b < 8 \<Longrightarrow> (ucast (drop_bit (8 * b) x) :: u8) = ucast (drop_bit (8 * b) y)"
  shows "x = y"
proof (rule bit_word_eqI)
  fix n :: nat
  assume "n < LENGTH(64)"
  then have "bit (ucast (drop_bit (8 * (n div 8)) x) :: u8) (n mod 8)
      = bit (ucast (drop_bit (8 * (n div 8)) y) :: u8) (n mod 8)"
    using assms [of "n div 8"] by simp
  then show "bit x n = bit y n" by (simp add: bit_simps)
qed

lemma pmpcfg_write_byte_same:
  assumes "pmp_byte_ok (ucast (drop_bit (b * 8) old))"
  shows "pmpcfg_write_byte old old b = ucast (drop_bit (b * 8) old)"
  using assms
  by (simp add: pmpcfg_write_byte_def Let_def pmp_byte_ok_bits word8_eq_iff bit_eval)

lemma pmpcfg_write_same:
  assumes "\<And>b. b < 8 \<Longrightarrow> pmp_byte_ok (ucast (drop_bit (8 * b) old))"
  shows "pmpcfg_write old old = old"
  using assms
  by (intro word_bytes_eqI, subst pmpcfg_write_nth)
    (simp_all add: pmpcfg_write_byte_same mult.commute)

lemma mstatus_restore:
  fixes m :: u64
  assumes "m AND RV_MSTATUS_MASK = m"
  shows "((m OR RV_MSTATUS_HARDWIRED) OR (drop_bit 1 (m OR RV_MSTATUS_HARDWIRED) AND 11))
      AND RV_MSTATUS_MASK = m"
proof -
  have "drop_bit 1 m AND (11 AND RV_MSTATUS_MASK) = drop_bit 1 (m AND RV_MSTATUS_MASK) AND (11 AND RV_MSTATUS_MASK)"
    using assms by simp
  also have "\<dots> = 0" by (simp add: status_masks and.assoc)
  finally have "drop_bit 1 m AND (11 AND RV_MSTATUS_MASK) = 0" .
  then show ?thesis
    using assms by (simp add: bit.conj_disj_distrib2 and.assoc status_masks)
qed

lemma csr_read_cong:
  assumes eq: "csr c' = (csr c)\<lparr>pmpaddr := pa\<rparr>"
    and addr: "\<And>k. k < 64 \<Longrightarrow> pmpaddr_read (csr c') k = pmpaddr_read (csr c) k"
    and "privilege c' = privilege c" and "irq_pending c' = irq_pending c"
  shows "rv_csr_read c' j = rv_csr_read c j"
proof -
  have arr: "csr_read_array c' j = csr_read_array c j"
  proof -
    have "unat (j - 0x3B0) < 64" if "0x3B0 \<le> j" "j \<le> 0x3EF"
      using that by (simp add: unat_sub_if' word_le_nat_alt)
    then show ?thesis
      using addr [of "unat (j - 0x3B0)"] by (auto simp: csr_read_array_def eq)
  qed
  moreover have "csr_read_case c' j r = csr_read_case c j r" for r
    using assms(3,4) arr by (cases r) (simp_all add: satp_trapped_def eq)
  ultimately show ?thesis
    using assms(3) by (simp add: rv_csr_read_def split: option.split)
qed

text \<open>A write that gives back the registers it found, but for the address registers.\<close>

lemma csr_restore_array:
  assumes "csr_read_array c i = Some v" and "wf_cpu c"
  obtains c' where "csr_write_array c i v = Some c'" "\<And>j. rv_csr_read c' j = rv_csr_read c j"
proof (cases "0x3A0 \<le> i \<and> i \<le> 0x3AF")
  case True
  let ?k = "unat ((i - 0x3A0) div 2)"
  have k: "?k < 8" using True pmpcfg_index_less by blast
  have v: "v = pmpcfg (csr c) ! ?k" and even: "i AND 1 = 0"
    using assms(1) True by (auto simp: csr_read_array_def split: if_splits)
  have "pmp_byte_ok (ucast (drop_bit (8 * b) (pmpcfg (csr c) ! ?k)))" if "b < 8" for b
  proof -
    have "pmp_byte_ok (pmpcfg_unpacked (csr c) (8 * ?k + b))"
      using wf_cpuD(5) [OF assms(2)] k that by (simp add: wf_csr_def list_all_iff)
    then show ?thesis using that by (simp add: pmpcfg_unpacked_def)
  qed
  then have "csr_write_array c i v = Some c"
    using True even by (simp add: csr_write_array_def v pmpcfg_write_same)
  then show ?thesis using that by blast
next
  case False
  let ?k = "unat (i - 0x3B0)"
  have i: "0x3B0 \<le> i" "i \<le> 0x3EF" and v: "v = pmpaddr_read (csr c) ?k"
    using assms(1) False by (auto simp: csr_read_array_def split: if_splits)
  have k: "?k < length (pmpaddr (csr c))"
    using i wf_cpuD(5) [OF assms(2)] by (simp add: unat_sub_if' word_le_nat_alt wf_csr_def)
  show ?thesis
  proof (cases "bit (pmpcfg_unpacked (csr c) ?k) RV_PMPCFG_L_BIT")
    case True
    then have "csr_write_array c i v = Some c"
      using False i by (auto simp: csr_write_array_def)
    then show ?thesis using that by blast
  next
    case unlocked: False
    define c' where "c' = upd_csr (\<lambda>s. s\<lparr>pmpaddr := (pmpaddr s)[?k := v]\<rparr>) c"
    have "csr_write_array c i v = Some c'"
      using False i unlocked by (auto simp: csr_write_array_def c'_def Let_def)
    moreover have "rv_csr_read c' j = rv_csr_read c j" for j
    proof (rule csr_read_cong)
      show "csr c' = (csr c)\<lparr>pmpaddr := (pmpaddr (csr c))[?k := v]\<rparr>" by (simp add: c'_def)
      show "pmpaddr_read (csr c') n = pmpaddr_read (csr c) n" for n
        using k by (cases "n = ?k") (auto simp: c'_def v pmpaddr_read_def pmpcfg_unpacked_def
            or.assoc and.assoc)
    qed (simp_all add: c'_def)
    ultimately show ?thesis using that by blast
  qed
qed

text \<open>Putting a field back into the word it was read from.\<close>

lemma field_restore:
  fixes x m h :: u64
  shows "(x AND NOT m) OR (x AND m) = x"
    and "(x AND (NOT d OR NOT m)) OR ((x AND d) AND (d AND m)) = x"
    and "h AND m = 0 \<Longrightarrow> (x AND NOT m) OR (((x AND m) OR h) AND m) = x"
  by (rule bit_word_eqI; auto simp: bit_simps bit_eq_iff)+

lemma bit_frm_mask: "bit (0xE0 :: int) n \<longleftrightarrow> 5 \<le> n \<and> n < 8"
  by (subst bit_mask_range [of _ 5 3]) (auto simp: mask_eq_exp_minus_1)

lemma frm_restore:
  fixes x :: u64
  shows "(x AND NOT (push_bit 5 7)) OR push_bit 5 ((drop_bit 5 x AND 7) AND 7) = x"
  by (rule bit_word_eqI) (auto simp: bit_simps and_low_mask bit_frm_mask)

lemma csr_restore_satp:
  assumes "csr_read_case c i RV_CSR_satp = Some v"
  shows "\<exists>c'. csr_write_case c i v RV_CSR_satp = Some c' \<and> csr c' = csr c
    \<and> privilege c' = privilege c \<and> irq_pending c' = irq_pending c"
proof -
  have "\<not> satp_trapped c" and v: "v = satp (csr c)"
    using assms by (auto split: if_splits)
  then have "csr_write_case c i v RV_CSR_satp =
      (let mode = drop_bit 60 (v AND RV_SATP_MODE_MASK)
       in if mode \<noteq> 8 \<and> mode \<noteq> 0 then Some c else if mode \<noteq> 8 then Some (rv_flush_tlb c) else Some c)"
    by (simp add: Let_def)
  then show ?thesis by (simp add: Let_def)
qed
lemma csr_restore_masked:
  assumes "csr_read_case c i r = Some v" and "wf_cpu c"
    and "r \<in> {RV_CSR_fflags, RV_CSR_frm, RV_CSR_fcsr, RV_CSR_sstatus, RV_CSR_mip, RV_CSR_sip}"
  shows "csr_write_case c i v r = Some c"
proof -
  have h: "RV_SSTATUS_HARDWIRED AND RV_SSTATUS_MASK = 0" by (simp add: status_masks)
  have "csr_write_case c i v RV_CSR_fflags = Some c" if "csr_read_case c i RV_CSR_fflags = Some v"
  proof -
    from that have v: "v = fcsr (csr c) AND 0x1F"
      and fs: "RV_CHECK_XS (mstatus (csr c)) RV_STATUS_FS_BASE_BIT"
      by (auto split: if_splits)
    show ?thesis
      using field_restore(1) [of "fcsr (csr c)" "0x1F"] by (simp add: v fs)
  qed
  moreover have "csr_write_case c i v RV_CSR_frm = Some c" if "csr_read_case c i RV_CSR_frm = Some v"
  proof -
    from that have v: "v = drop_bit 5 (fcsr (csr c)) AND 7"
      and fs: "RV_CHECK_XS (mstatus (csr c)) RV_STATUS_FS_BASE_BIT"
      by (auto split: if_splits)
    show ?thesis
      using frm_restore [of "fcsr (csr c)"] by (simp add: v fs)
  qed
  moreover have "csr_write_case c i v RV_CSR_fcsr = Some c" if "csr_read_case c i RV_CSR_fcsr = Some v"
  proof -
    from that have v: "v = fcsr (csr c)"
      and fs: "RV_CHECK_XS (mstatus (csr c)) RV_STATUS_FS_BASE_BIT"
      by (auto split: if_splits)
    show ?thesis
      using wf_fcsr [OF assms(2)] by (simp add: v fs status_masks)
  qed
  moreover have "csr_write_case c i v RV_CSR_sstatus = Some c"
    if "csr_read_case c i RV_CSR_sstatus = Some v"
    using that field_restore(3) [OF h, of "mstatus (csr c)"] by auto
  moreover have "csr_write_case c i v RV_CSR_mip = Some c" if "csr_read_case c i RV_CSR_mip = Some v"
    using that field_restore(1) [of "irq_pending c" RV_SIP_WMASK] by auto
  moreover have "csr_write_case c i v RV_CSR_sip = Some c" if "csr_read_case c i RV_CSR_sip = Some v"
    using that field_restore(2) [of "irq_pending c" "mideleg (csr c)" RV_SIP_WMASK]
    by (auto simp: Let_def)
  ultimately show ?thesis
    using assms(1,3) by (auto simp del: csr_write_case.simps csr_read_case.simps)
qed

lemma csr_restore_mstatus:
  assumes "csr_read_case c i RV_CSR_mstatus = Some v" and "wf_cpu c"
  obtains c' where "csr_write_case c i v RV_CSR_mstatus = Some c'" "csr c' = csr c"
    "privilege c' = privilege c" "irq_pending c' = irq_pending c"
proof -
  have m: "mstatus (csr c) AND RV_MSTATUS_MASK = mstatus (csr c)"
    using wf_cpuD(5) [OF assms(2)] by (simp add: wf_csr_def)
  show ?thesis
    using assms(1) mstatus_restore [OF m] that by (auto simp: Let_def)
qed

lemma csr_read_same:
  "csr c' = csr c \<Longrightarrow> privilege c' = privilege c \<Longrightarrow> irq_pending c' = irq_pending c \<Longrightarrow>
   rv_csr_read c' j = rv_csr_read c j"
  by (intro csr_read_cong [where pa = "pmpaddr (csr c)"]) simp_all

lemma csr_restore_case:
  assumes rd: "csr_read_case c i r = Some v" and "wf_cpu c"
  shows "\<exists>c'. csr_write_case c i v r = Some c' \<and> (\<forall>j. rv_csr_read c' j = rv_csr_read c j)"
proof (cases "r \<in> {RV_CSR_fflags, RV_CSR_frm, RV_CSR_fcsr, RV_CSR_sstatus, RV_CSR_mip,
    RV_CSR_sip, RV_CSR_mstatus, RV_CSR_satp}")
  case True
  then consider "csr_write_case c i v r = Some c" | "r = RV_CSR_mstatus" | "r = RV_CSR_satp"
    using csr_restore_masked [OF rd assms(2)] by blast
  then show ?thesis
  proof cases
    case 2
    with rd csr_restore_mstatus [OF _ assms(2), of i v] csr_read_same show ?thesis by metis
  next
    case 3
    with rd csr_restore_satp csr_read_same show ?thesis by metis
  qed blast
next
  case False
  have "\<exists>c'. csr_write_array c i v = Some c' \<and> (\<forall>j. rv_csr_read c' j = rv_csr_read c j)"
    if "csr_read_array c i = Some v"
    by (rule csr_restore_array [OF that assms(2)]) blast
  moreover have "(\<exists>c'. csr_write_case c i v r = Some c' \<and> csr c' = csr c \<and> privilege c' = privilege c
      \<and> irq_pending c' = irq_pending c)
    \<or> (csr_read_array c i = Some v \<and> csr_write_case c i v r = csr_write_array c i v)"
    using rd False by (cases r) (auto simp: Let_def split: if_splits)
  ultimately show ?thesis using csr_read_same by metis
qed



section \<open>The machine\<close>

text \<open>
  The invariant of a machine: its cores are well-formed and numbered, the arrays have the sizes
  \<open>emu_machine_init\<close> allocates, the RAM bounds do not wrap, and a core's timer is armed only
  where there is a CLINT to serve it.
\<close>

definition wf_clint :: "nat \<Rightarrow> rv_clint \<Rightarrow> bool" where
  "wf_clint n c \<longleftrightarrow>
     clint_cpu_count c = n \<and> length (mtimecmp c) = n \<and> length (deadline_ns c) = n"

definition wf_machine :: "'d emu_machine \<Rightarrow> bool" where
  "wf_machine m \<longleftrightarrow>
     list_all wf_cpu (cpus m) \<and> length (cpus m) < 2 ^ 64
     \<and> list_all (\<lambda>h. mhartid (csr (cpus m ! h)) = of_nat h) [0..<length (cpus m)]
     \<and> length (reservations m) = length (cpus m) \<and> length (trap_hook m) = 32
     \<and> unat (ram_end m) = unat (ram_start m) + ram_alloc m
     \<and> (case clint m of None \<Rightarrow> list_all (\<lambda>c. \<not> clint_timer_armed c) (cpus m)
         | Some c \<Rightarrow> wf_clint (length (cpus m)) c)"

lemma wf_machine_cpu: "wf_machine m \<Longrightarrow> h < length (cpus m) \<Longrightarrow> wf_cpu (get_cpu m h)"
  by (simp add: wf_machine_def list_all_length)

lemma wf_machine_hartid:
  "wf_machine m \<Longrightarrow> h < length (cpus m) \<Longrightarrow> unat (mhartid (csr (get_cpu m h))) = h"
  by (auto simp: wf_machine_def list_all_iff unat_of_nat)

text \<open>What an operation on a core leaves to the machine's invariant.\<close>

definition keeps :: "rv_cpu \<Rightarrow> rv_cpu \<Rightarrow> bool" where
  "keeps c c' \<longleftrightarrow> (wf_cpu c \<longrightarrow> wf_cpu c') \<and> mhartid (csr c') = mhartid (csr c)
     \<and> clint_timer_armed c' = clint_timer_armed c"

lemma keeps_refl [simp]: "keeps c c"
  by (simp add: keeps_def)

lemma keeps_trans: "keeps a b \<Longrightarrow> keeps b c \<Longrightarrow> keeps a c"
  by (simp add: keeps_def)

lemma keeps_xreg_write [simp]: "keeps c (rv_xreg_write c i v)"
  by (simp add: keeps_def wf_xreg_write)

lemma keeps_freg_write [simp]: "keeps c (rv_freg_write c i v)"
  by (simp add: keeps_def wf_freg_write)

lemma keeps_tlb_frame: "tlb_frame c c' \<Longrightarrow> keeps c c'"
  by (simp add: keeps_def wf_tlb_frame tlb_frameD)

lemma keeps_pc [simp]: "keeps c (c\<lparr>pc := x\<rparr>)" "keeps c (c\<lparr>epc := x\<rparr>)"
  by (simp_all add: keeps_def wf_cpu_def rv_sync_mem_privilege_def)

lemma csr_write_array_id:
  "csr_write_array c i v = Some c' \<Longrightarrow> mhartid (csr c') = mhartid (csr c)
    \<and> clint_timer_armed c' = clint_timer_armed c"
  by (auto simp: csr_write_array_def Let_def split: if_splits)

lemma keeps_csr_write:
  assumes "rv_csr_write c i v = Some c'"
  shows "keeps c c'"
proof -
  from assms have "mhartid (csr c') = mhartid (csr c) \<and> clint_timer_armed c' = clint_timer_armed c"
  proof (cases rule: csr_write_elim)
    case (reg r)
    then show ?thesis
      by (cases r) (auto simp: Let_def dest: csr_write_array_id split: if_splits)
  qed (rule csr_write_array_id)
  with assms show ?thesis by (auto simp: keeps_def dest: wf_csr_write)
qed

lemma wf_put_cpu:
  assumes "wf_machine m" and "keeps (get_cpu m h) c"
  shows "wf_machine (put_cpu h c m)"
proof (cases "h < length (cpus m)")
  case True
  then have "wf_cpu c"
    using assms wf_machine_cpu by (auto simp: keeps_def)
  moreover have "clint_timer_armed c = clint_timer_armed (get_cpu m h)"
    and "mhartid (csr c) = mhartid (csr (get_cpu m h))"
    using assms(2) by (simp_all add: keeps_def)
  ultimately show ?thesis
    using assms(1) True
    by (auto simp: wf_machine_def put_cpu_cpus list_all_length nth_list_update split: option.splits)
next
  case False
  then show ?thesis using assms(1) by (simp add: put_cpu_def list_update_beyond)
qed

text \<open>An update of RAM or of the reservations.\<close>

lemma wf_machine_ram [simp]: "wf_machine (m\<lparr>ram := r\<rparr>) \<longleftrightarrow> wf_machine m"
  by (simp add: wf_machine_def split: option.splits)

lemma wf_machine_reservations:
  "wf_machine m \<Longrightarrow> length rs = length (reservations m) \<Longrightarrow> wf_machine (m\<lparr>reservations := rs\<rparr>)"
  by (simp add: wf_machine_def split: option.splits)

text \<open>\<open>wf_next m m'\<close>: a well-formed machine with the same cores as \<open>m\<close>.\<close>

definition wf_next :: "'d emu_machine \<Rightarrow> 'd emu_machine \<Rightarrow> bool" where
  "wf_next m m' \<longleftrightarrow> wf_machine m' \<and> length (cpus m') = length (cpus m)"

lemma wf_next_refl: "wf_machine m \<Longrightarrow> wf_next m m"
  by (simp add: wf_next_def)

lemma wf_next_trans: "wf_next a b \<Longrightarrow> wf_next b c \<Longrightarrow> wf_next a c"
  by (simp add: wf_next_def)

lemma wf_nextD: "wf_next m m' \<Longrightarrow> wf_machine m'"
  by (simp add: wf_next_def)

lemma wf_next_put_cpu: "wf_machine m \<Longrightarrow> keeps (get_cpu m h) c \<Longrightarrow> wf_next m (put_cpu h c m)"
  by (simp add: wf_next_def wf_put_cpu)

section \<open>The code behind the callbacks\<close>

text \<open>
  The contract of the machine's callbacks: a device or a hook keeps the machine's invariant
  and neither adds nor removes a core. What the interpreter does is proved once from it; the
  board of the emulator's own devices satisfies it.
\<close>

locale emu_callbacks =
  fixes env :: "'d emu_env"
  assumes read_wf: "wf_machine m \<Longrightarrow> mmio_read_fn env d off sz m = (ok, v, m') \<Longrightarrow>
      wf_next m m'"
    and write_wf: "wf_machine m \<Longrightarrow> mmio_write_fn env d off sz v m = (ok, m') \<Longrightarrow>
      wf_next m m'"
    and hook_wf: "wf_machine m \<Longrightarrow> trap_hook_fn env f h t m = (ok, m') \<Longrightarrow>
      wf_next m m'"

section \<open>Rules for operations in the option monad\<close>

text \<open>
  \<open>stays m r\<close>: if the operation with result \<open>r\<close> returns, it has left a well-formed
  machine with \<open>m\<close>'s cores; \<open>stays3\<close> is the same for an operation that also returns a result
  code and data. The rules follow the shape of a definition, so a proof that an operation keeps
  the invariant is one \<open>intro\<close>.
\<close>

definition stays :: "'d emu_machine \<Rightarrow> 'd emu_machine option \<Rightarrow> bool" where
  "stays m r \<longleftrightarrow> (\<forall>x. r = Some x \<longrightarrow> wf_next m x)"

definition stays3 :: "'d emu_machine \<Rightarrow> ('a \<times> 'b \<times> 'd emu_machine) option \<Rightarrow> bool" where
  "stays3 m r \<longleftrightarrow> (\<forall>a b x. r = Some (a, b, x) \<longrightarrow> wf_next m x)"

named_theorems stays_rules \<open>the invariant, by the shape of the operation\<close>

lemma stays_basic [stays_rules]:
  "stays m None" "wf_next m x \<Longrightarrow> stays m (Some x)"
  "stays3 m None" "wf_next m x \<Longrightarrow> stays3 m (Some (a, b, x))"
  by (simp_all add: stays_def stays3_def)

lemma stays_if [stays_rules]:
  "(P \<Longrightarrow> stays m r) \<Longrightarrow> (\<not> P \<Longrightarrow> stays m r') \<Longrightarrow> stays m (if P then r else r')"
  "(P \<Longrightarrow> stays3 m q) \<Longrightarrow> (\<not> P \<Longrightarrow> stays3 m q') \<Longrightarrow> stays3 m (if P then q else q')"
  by simp_all

lemma stays_bind3 [stays_rules]:
  "stays3 m r \<Longrightarrow> (\<And>a b x. wf_next m x \<Longrightarrow> stays m (f a b x)) \<Longrightarrow>
   stays m (Option.bind r (\<lambda>(a, b, x). f a b x))"
  "stays3 m r \<Longrightarrow> (\<And>a b x. wf_next m x \<Longrightarrow> stays3 m (g a b x)) \<Longrightarrow>
   stays3 m (Option.bind r (\<lambda>(a, b, x). g a b x))"
  by (cases r; fastforce simp: stays_def stays3_def)+

lemma stays_bind1 [stays_rules]:
  "stays m r \<Longrightarrow> (\<And>x. wf_next m x \<Longrightarrow> stays m (f x)) \<Longrightarrow> stays m (Option.bind r f)"
  "stays m r \<Longrightarrow> (\<And>x. wf_next m x \<Longrightarrow> stays3 m (g x)) \<Longrightarrow> stays3 m (Option.bind r g)"
  by (cases r; fastforce simp: stays_def stays3_def)+

lemma stays_guard [stays_rules]:
  "(P \<Longrightarrow> stays m (f ())) \<Longrightarrow> stays m (Option.bind (guard_ub P) f)"
  "(P \<Longrightarrow> stays3 m (g ())) \<Longrightarrow> stays3 m (Option.bind (guard_ub P) g)"
  by (auto simp: stays_def stays3_def)

text \<open>A step without the machine: its result is kept as an equation.\<close>

lemma stays_pure:
  "(\<And>x. r = Some x \<Longrightarrow> stays m (f x)) \<Longrightarrow> stays m (Option.bind r f)"
  "(\<And>x. r = Some x \<Longrightarrow> stays3 m (g x)) \<Longrightarrow> stays3 m (Option.bind r g)"
  by (cases r; simp add: stays_def stays3_def)+

lemma stays_option [stays_rules]:
  "(r = None \<Longrightarrow> stays m a) \<Longrightarrow> (\<And>x. r = Some x \<Longrightarrow> stays m (f x)) \<Longrightarrow>
   stays m (case r of None \<Rightarrow> a | Some x \<Rightarrow> f x)"
  "(r = None \<Longrightarrow> stays3 m b) \<Longrightarrow> (\<And>x. r = Some x \<Longrightarrow> stays3 m (g x)) \<Longrightarrow>
   stays3 m (case r of None \<Rightarrow> b | Some x \<Rightarrow> g x)"
  by (simp_all split: option.split)

lemma stays_put_cpu [stays_rules]:
  assumes "wf_next m x" and "keeps (get_cpu x h) c"
  shows "wf_next m (put_cpu h c x)"
  using assms(1) wf_next_put_cpu [OF wf_nextD [OF assms(1)] assms(2)] by (rule wf_next_trans)

lemma stays_via:
  assumes "wf_next m x" and "wf_machine x \<Longrightarrow> stays x r"
  shows "stays m r"
  using assms wf_nextD [OF assms(1)] by (auto simp: stays_def intro: wf_next_trans)

lemma stays3_via:
  assumes "wf_next m x" and "wf_machine x \<Longrightarrow> stays3 x r"
  shows "stays3 m r"
  using assms wf_nextD [OF assms(1)] by (auto simp: stays3_def intro: wf_next_trans)

end
