(* ===== verification/RV_Privileged.thy ===== *)
theory RV_Privileged
  imports RV_Wf
begin

text \<open>
  Traps and interrupts, \<open>cpu/rv_privileged.c\<close>: entry into a handler, its delegation to
  supervisor mode, the hooks that may intercept it, and the choice of the interrupt to take.
\<close>

section \<open>Trap entry\<close>

text \<open>
  The two branches of \<open>rv_do_trap\<close> after the hook: the new \<open>mstatus\<close>, from the old one and
  the privilege the trap came from, and the rest of the state.
\<close>

definition trap_status_s :: "u64 \<Rightarrow> u8 \<Rightarrow> u64" where
  "trap_status_s st prv =
     (let spie = bit st RV_STATUS_SIE_BIT;
          st = st AND NOT (push_bit RV_STATUS_SPIE_BIT 1);
          st = st AND NOT (push_bit RV_STATUS_SIE_BIT 1);
          st = st AND NOT (push_bit RV_STATUS_SPP_BIT 1);
          st = st OR push_bit RV_STATUS_SPIE_BIT (of_bool spie)
      in st OR push_bit RV_STATUS_SPP_BIT (ucast prv))"

definition trap_status_m :: "u64 \<Rightarrow> u8 \<Rightarrow> u64" where
  "trap_status_m st prv =
     (let mpie = bit st RV_STATUS_MIE_BIT;
          st = st AND NOT (push_bit RV_STATUS_MPIE_BIT 1);
          st = st AND NOT (push_bit RV_STATUS_MIE_BIT 1);
          st = st AND NOT (push_bit RV_STATUS_MPP_BASE_BIT 3);
          st = st OR push_bit RV_STATUS_MPIE_BIT (of_bool mpie)
      in st OR push_bit RV_STATUS_MPP_BASE_BIT (ucast prv))"

definition trap_enter_s :: "rv_cpu \<Rightarrow> rv_trap \<Rightarrow> rv_cpu" where
  "trap_enter_s cpu trap =
     (let is_interrupt = drop_bit 63 (trap_cause trap) \<noteq> 0;
          cause_low = trap_cause trap AND 0x3f;
          st = trap_status_s (mstatus (csr cpu)) (privilege cpu);
          cpu = upd_csr (\<lambda>c. c\<lparr>sepc := trap_epc trap, scause := trap_cause trap,
                               stval := trap_tval trap, mstatus := st\<rparr>) cpu;
          cpu = rv_sync_mem_privilege (cpu\<lparr>privilege := 1\<rparr>);
          base = stvec (csr cpu) AND NOT 3
      in cpu\<lparr>pc := (if is_interrupt \<and> bit (stvec (csr cpu)) 0 then base + 4 * cause_low
                    else base)\<rparr>)"

definition trap_enter_m :: "rv_cpu \<Rightarrow> rv_trap \<Rightarrow> rv_cpu" where
  "trap_enter_m cpu trap =
     (let is_interrupt = drop_bit 63 (trap_cause trap) \<noteq> 0;
          cause_low = trap_cause trap AND 0x3f;
          st = trap_status_m (mstatus (csr cpu)) (privilege cpu);
          cpu = upd_csr (\<lambda>c. c\<lparr>mepc := trap_epc trap, mcause := trap_cause trap,
                               mtval := trap_tval trap, mstatus := st\<rparr>) cpu;
          cpu = rv_sync_mem_privilege (cpu\<lparr>privilege := 3\<rparr>);
          base = mtvec (csr cpu) AND NOT 3
      in cpu\<lparr>pc := (if is_interrupt \<and> bit (mtvec (csr cpu)) 0 then base + 4 * cause_low
                    else base)\<rparr>)"

definition trap_delegated :: "rv_cpu \<Rightarrow> u64 \<Rightarrow> bool" where
  "trap_delegated cpu cause \<longleftrightarrow>
     (let is_interrupt = drop_bit 63 cause \<noteq> 0;
          cause_low = cause AND 0x3f;
          deleg_mask = (if is_interrupt then mideleg (csr cpu) else medeleg (csr cpu))
      in privilege cpu \<le> 1 \<and> deleg_mask AND push_bit (unat cause_low) 1 \<noteq> 0)"

definition take_trap :: "rv_cpu \<Rightarrow> rv_trap \<Rightarrow> rv_cpu" where
  "take_trap cpu trap =
     (if trap_delegated cpu (trap_cause trap) then trap_enter_s cpu trap
      else trap_enter_m cpu trap)"

text \<open>The \<open>assert\<close> on the cause of an exception is the host's failure \<open>None\<close>.\<close>

definition rv_do_trap :: "'d emu_env \<Rightarrow> nat \<Rightarrow> rv_trap \<Rightarrow> 'd emu_machine \<Rightarrow> 'd emu_machine option" where
  "rv_do_trap env h trap m =
     (if drop_bit 63 (trap_cause trap) \<noteq> 0
      then Some (put_cpu h (take_trap (get_cpu m h) trap) m)
      else if \<not> trap_cause trap < 32 then None
      else
        (case trap_hook m ! unat (trap_cause trap) of
           None \<Rightarrow> Some (put_cpu h (take_trap (get_cpu m h) trap) m)
         | Some hook \<Rightarrow>
             (case trap_hook_fn env hook h trap m of
                (True, m) \<Rightarrow> Some (put_cpu h (take_trap (get_cpu m h) trap) m)
              | (False, m) \<Rightarrow> Some m)))"

definition rv_do_iillegal :: "'d emu_env \<Rightarrow> nat \<Rightarrow> u32 \<Rightarrow> 'd emu_machine \<Rightarrow> 'd emu_machine option" where
  "rv_do_iillegal env h insn m =
     rv_do_trap env h
       \<lparr>trap_epc = epc (get_cpu m h), trap_tval = ucast insn,
        trap_cause = rv_cause_code RV_CAUSE_IILLEGAL\<rparr> m"

section \<open>Interrupts\<close>

text \<open>The interrupts, in the order of \<open>irq_priority\<close>.\<close>

datatype rv_intr =
  RV_INTR_MEIP | RV_INTR_MSIP | RV_INTR_MTIP | RV_INTR_SEIP | RV_INTR_SSIP | RV_INTR_STIP

fun rv_intr_bit :: "rv_intr \<Rightarrow> nat" where
  "rv_intr_bit RV_INTR_SSIP = 1"
| "rv_intr_bit RV_INTR_MSIP = 3"
| "rv_intr_bit RV_INTR_STIP = 5"
| "rv_intr_bit RV_INTR_MTIP = 7"
| "rv_intr_bit RV_INTR_SEIP = 9"
| "rv_intr_bit RV_INTR_MEIP = 11"

definition irq_priority :: "rv_intr list" where
  "irq_priority =
     [RV_INTR_MEIP, RV_INTR_MSIP, RV_INTR_MTIP, RV_INTR_SEIP, RV_INTR_SSIP, RV_INTR_STIP]"

text \<open>\<open>rv_check_interrupts\<close> up to the trap: the interrupt to take, if any.\<close>

definition pick_interrupt :: "rv_cpu \<Rightarrow> rv_intr option" where
  "pick_interrupt cpu =
     (let pending = irq_pending cpu AND mie (csr cpu) in
      if pending = 0 then None
      else
        let mstatus = mstatus (csr cpu);
            mideleg = mideleg (csr cpu);
            m_pending = pending AND NOT mideleg;
            m_enabled = privilege cpu < 3 \<or> drop_bit RV_STATUS_MIE_BIT mstatus AND 1 \<noteq> 0;
            s_pending = pending AND mideleg;
            s_enabled = privilege cpu < 1
              \<or> (privilege cpu = 1 \<and> drop_bit RV_STATUS_SIE_BIT mstatus AND 1 \<noteq> 0)
        in if m_enabled \<and> m_pending \<noteq> 0
           then find (\<lambda>i. m_pending AND push_bit (rv_intr_bit i) 1 \<noteq> 0) irq_priority
           else if s_enabled \<and> s_pending \<noteq> 0
           then find (\<lambda>i. s_pending AND push_bit (rv_intr_bit i) 1 \<noteq> 0) irq_priority
           else None)"

definition rv_check_interrupts :: "'d emu_env \<Rightarrow> nat \<Rightarrow> 'd emu_machine \<Rightarrow> 'd emu_machine option" where
  "rv_check_interrupts env h m =
     (case pick_interrupt (get_cpu m h) of
        None \<Rightarrow> Some m
      | Some i \<Rightarrow>
          rv_do_trap env h
            \<lparr>trap_epc = pc (get_cpu m h), trap_tval = 0,
             trap_cause = RV_CAUSE_INTR_FLAG OR of_nat (rv_intr_bit i)\<rparr> m)"

section \<open>Effect of a trap\<close>

text \<open>Clearing and setting single fields, bit by bit.\<close>

lemma bit_clear1: "bit (x AND NOT (push_bit k 1)) n \<longleftrightarrow> bit x n \<and> n \<noteq> k" for x :: u64
  by (auto simp: bit_simps dest: bit_imp_le_length)

lemma bit_int_3: "bit (3 :: int) n \<longleftrightarrow> n = 0 \<or> n = 1"
  by (subst bit_mask_range [of _ 0 2]) (auto simp: mask_eq_exp_minus_1)

lemma bit_clear2: "bit (x AND NOT (push_bit k 3)) n \<longleftrightarrow> bit x n \<and> n \<noteq> k \<and> n \<noteq> k + 1" for x :: u64
  by (auto simp: bit_simps bit_int_3 dest: bit_imp_le_length)

lemma bit_set1: "bit (x OR push_bit k (of_bool b)) n \<longleftrightarrow> bit x n \<or> (n = k \<and> b \<and> n < 64)" for x :: u64
  by (auto simp: bit_simps)

lemma u8_le_1: "p \<le> 1 \<Longrightarrow> p = 0 \<or> p = 1" for p :: u8
proof -
  assume "p \<le> 1"
  then have "unat p = 0 \<or> unat p = 1" by (auto simp: word_le_nat_alt)
  then show ?thesis by (simp add: word_unat_eq_iff)
qed

lemma u8_le_3: "p \<le> 3 \<Longrightarrow> p = 0 \<or> p = 1 \<or> p = 2 \<or> p = 3" for p :: u8
proof -
  assume "p \<le> 3"
  then have "unat p \<in> {0, 1, 2, 3}" by (auto simp: word_le_nat_alt)
  then show ?thesis by (auto simp: word_unat_eq_iff)
qed

lemma privilege_bits:
  assumes "p \<le> (3 :: u8)" and "bit p n"
  shows "n < 2"
proof -
  have "p = take_bit 2 p"
  proof -
    have "unat p < 2 ^ 2" using assms(1) by (simp add: word_le_nat_alt)
    then show ?thesis by (simp add: word_unat_eq_iff unsigned_take_bit_eq take_bit_nat_eq_self)
  qed
  with assms(2) have "bit (take_bit 2 p) n" by simp
  then show "n < 2" by simp
qed

lemma bit_set_privilege:
  fixes x :: u64
  assumes "p \<le> (3 :: u8)" and "k + 1 < 64"
  shows "bit (x OR push_bit k (ucast p)) n \<longleftrightarrow>
    bit x n \<or> (n = k \<and> bit p 0) \<or> (n = k + 1 \<and> bit p 1)"
  using privilege_bits [OF assms(1), of "n - k"] assms(2)
  by (auto simp: bit_simps less_2_cases_iff)

lemma bit_trap_status_m:
  assumes "p \<le> 3"
  shows "bit (trap_status_m st p) n \<longleftrightarrow>
    (if n = RV_STATUS_MIE_BIT then False
     else if n = RV_STATUS_MPIE_BIT then bit st RV_STATUS_MIE_BIT
     else if n = RV_STATUS_MPP_BASE_BIT then bit p 0
     else if n = RV_STATUS_MPP_BASE_BIT + 1 then bit p 1
     else bit st n)"
  unfolding trap_status_m_def Let_def
  by (subst bit_set_privilege) (use assms in \<open>simp_all only: bit_clear1 bit_clear2 bit_set1, auto\<close>)

lemma bit_trap_status_s:
  assumes "p \<le> 1"
  shows "bit (trap_status_s st p) n \<longleftrightarrow>
    (if n = RV_STATUS_SIE_BIT then False
     else if n = RV_STATUS_SPIE_BIT then bit st RV_STATUS_SIE_BIT
     else if n = RV_STATUS_SPP_BIT then bit p 0
     else bit st n)"
proof -
  have "p \<le> 3" using assms by (simp add: word_le_nat_alt)
  moreover have "\<not> bit p 1"
    using u8_le_1 [OF assms] by auto
  ultimately show ?thesis
    unfolding trap_status_s_def Let_def
    by (subst bit_set_privilege) (simp_all only: bit_clear1 bit_clear2 bit_set1, auto)
qed

text \<open>Fields of the two handlers' states.\<close>

lemma trap_enter_m_fields [simp]:
  "mstatus (csr (trap_enter_m c t)) = trap_status_m (mstatus (csr c)) (privilege c)"
  "mepc (csr (trap_enter_m c t)) = trap_epc t" "mcause (csr (trap_enter_m c t)) = trap_cause t"
  "mtval (csr (trap_enter_m c t)) = trap_tval t" "privilege (trap_enter_m c t) = 3"
  "xregs (trap_enter_m c t) = xregs c" "fregs (trap_enter_m c t) = fregs c"
  "tlb (trap_enter_m c t) = tlb c" "epc (trap_enter_m c t) = epc c"
  "irq_pending (trap_enter_m c t) = irq_pending c" "mhartid (csr (trap_enter_m c t)) = mhartid (csr c)"
  "clint_timer_armed (trap_enter_m c t) = clint_timer_armed c" "halted (trap_enter_m c t) = halted c"
  "pmpcfg (csr (trap_enter_m c t)) = pmpcfg (csr c)"
  "pmpaddr (csr (trap_enter_m c t)) = pmpaddr (csr c)" "fcsr (csr (trap_enter_m c t)) = fcsr (csr c)"
  "mideleg (csr (trap_enter_m c t)) = mideleg (csr c)"
  "medeleg (csr (trap_enter_m c t)) = medeleg (csr c)" "satp (csr (trap_enter_m c t)) = satp (csr c)"
  "mtvec (csr (trap_enter_m c t)) = mtvec (csr c)"
  by (simp_all add: trap_enter_m_def Let_def)

lemma trap_enter_s_fields [simp]:
  "mstatus (csr (trap_enter_s c t)) = trap_status_s (mstatus (csr c)) (privilege c)"
  "sepc (csr (trap_enter_s c t)) = trap_epc t" "scause (csr (trap_enter_s c t)) = trap_cause t"
  "stval (csr (trap_enter_s c t)) = trap_tval t" "privilege (trap_enter_s c t) = 1"
  "xregs (trap_enter_s c t) = xregs c" "fregs (trap_enter_s c t) = fregs c"
  "tlb (trap_enter_s c t) = tlb c" "epc (trap_enter_s c t) = epc c"
  "irq_pending (trap_enter_s c t) = irq_pending c" "mhartid (csr (trap_enter_s c t)) = mhartid (csr c)"
  "clint_timer_armed (trap_enter_s c t) = clint_timer_armed c" "halted (trap_enter_s c t) = halted c"
  "pmpcfg (csr (trap_enter_s c t)) = pmpcfg (csr c)"
  "pmpaddr (csr (trap_enter_s c t)) = pmpaddr (csr c)" "fcsr (csr (trap_enter_s c t)) = fcsr (csr c)"
  "mideleg (csr (trap_enter_s c t)) = mideleg (csr c)"
  "medeleg (csr (trap_enter_s c t)) = medeleg (csr c)" "satp (csr (trap_enter_s c t)) = satp (csr c)"
  "stvec (csr (trap_enter_s c t)) = stvec (csr c)"
  by (simp_all add: trap_enter_s_def Let_def)

lemma trap_enter_mem_privilege:
  "mem_privilege (trap_enter_m c t) = mem_privilege (rv_sync_mem_privilege (trap_enter_m c t))"
  "mem_privilege (trap_enter_s c t) = mem_privilege (rv_sync_mem_privilege (trap_enter_s c t))"
  by (simp_all add: trap_enter_m_def trap_enter_s_def Let_def rv_sync_mem_privilege_def)

lemma trap_status_masked:
  assumes "st AND RV_MSTATUS_MASK = st"
  shows "p \<le> 3 \<Longrightarrow> trap_status_m st p AND RV_MSTATUS_MASK = trap_status_m st p"
    and "p \<le> 1 \<Longrightarrow> trap_status_s st p AND RV_MSTATUS_MASK = trap_status_s st p"
proof -
  have flag: "push_bit k (of_bool b) AND RV_MSTATUS_MASK = push_bit k (of_bool b)"
    if "k = 5 \<or> k = 7" for k b
    using that by (auto simp: status_masks)
  assume "p \<le> 3"
  then have prv: "push_bit 11 (ucast p) AND RV_MSTATUS_MASK = push_bit 11 (ucast p)"
    using u8_le_3 [of p] by (auto simp: status_masks)
  show "trap_status_m st p AND RV_MSTATUS_MASK = trap_status_m st p"
    unfolding trap_status_m_def Let_def
    by (intro masked_or masked_and flag prv assms) simp
next
  have flag: "push_bit k (of_bool b) AND RV_MSTATUS_MASK = push_bit k (of_bool b)"
    if "k = 5 \<or> k = 7" for k b
    using that by (auto simp: status_masks)
  assume "p \<le> 1"
  then have "p = 0 \<or> p = 1" by (rule u8_le_1)
  then have prv: "push_bit 8 (ucast p) AND RV_MSTATUS_MASK = push_bit 8 (ucast p)"
    by (auto simp: status_masks)
  show "trap_status_s st p AND RV_MSTATUS_MASK = trap_status_s st p"
    unfolding trap_status_s_def Let_def
    by (intro masked_or masked_and flag prv assms) simp
qed

lemma wf_take_trap [wf_intros]:
  assumes "wf_cpu c"
  shows "wf_cpu (take_trap c t)"
proof -
  have st: "mstatus (csr c) AND RV_MSTATUS_MASK = mstatus (csr c)"
    using wf_cpuD(5) [OF assms] by (simp add: wf_csr_def)
  have "wf_csr (csr (trap_enter_m c t))"
    using wf_cpuD(5,6) [OF assms] trap_status_masked(1) [OF st]
    by (simp add: wf_csr_def pmpcfg_unpacked_def)
  moreover have "wf_csr (csr (trap_enter_s c t))" if "privilege c \<le> 1"
    using wf_cpuD(5) [OF assms] trap_status_masked(2) [OF st that]
    by (simp add: wf_csr_def pmpcfg_unpacked_def)
  moreover have "privilege c \<le> 1" if "trap_delegated c (trap_cause t)"
    using that by (simp add: trap_delegated_def Let_def)
  ultimately show ?thesis
    using assms by (simp add: take_trap_def wf_cpu_def trap_enter_mem_privilege)
qed

lemma keeps_take_trap [simp]: "keeps c (take_trap c t)"
  using wf_take_trap by (simp add: keeps_def) (simp add: take_trap_def)

section \<open>Priorities\<close>

text \<open>The order of the interrupts, the most urgent first.\<close>

fun rv_intr_rank :: "rv_intr \<Rightarrow> nat" where
  "rv_intr_rank RV_INTR_MEIP = 0"
| "rv_intr_rank RV_INTR_MSIP = 1"
| "rv_intr_rank RV_INTR_MTIP = 2"
| "rv_intr_rank RV_INTR_SEIP = 3"
| "rv_intr_rank RV_INTR_SSIP = 4"
| "rv_intr_rank RV_INTR_STIP = 5"

lemma rv_intr_rank_inj: "rv_intr_rank i = rv_intr_rank j \<Longrightarrow> i = j"
  by (cases i; cases j) simp_all

instantiation rv_intr :: linorder
begin

definition less_eq_rv_intr :: "rv_intr \<Rightarrow> rv_intr \<Rightarrow> bool" where
  "less_eq_rv_intr i j \<longleftrightarrow> rv_intr_rank i \<le> rv_intr_rank j"

definition less_rv_intr :: "rv_intr \<Rightarrow> rv_intr \<Rightarrow> bool" where
  "less_rv_intr i j \<longleftrightarrow> rv_intr_rank i < rv_intr_rank j"

instance
  by standard (auto simp: less_eq_rv_intr_def less_rv_intr_def intro: rv_intr_rank_inj)

end

lemma sorted_irq_priority: "sorted irq_priority"
  by (simp add: irq_priority_def less_eq_rv_intr_def)

lemma set_irq_priority: "i \<in> set irq_priority"
  by (cases i) (simp_all add: irq_priority_def)

lemma finite_rv_intr [simp]: "finite (A :: rv_intr set)"
  by (rule finite_subset [of _ "set irq_priority"]) (auto simp: set_irq_priority)

lemma find_sorted_Min:
  assumes "sorted xs" and "\<And>x. P x \<Longrightarrow> x \<in> set xs" and "finite {x. P x}"
  shows "find P xs = (if \<exists>x. P x then Some (Min {x. P x}) else None)"
proof (cases "find P xs")
  case None
  then show ?thesis using assms(2) by (auto simp: find_None_iff)
next
  case (Some x)
  then obtain i where i: "i < length xs" "P (xs ! i)" "x = xs ! i" "\<And>j. j < i \<Longrightarrow> \<not> P (xs ! j)"
    by (auto simp: find_Some_iff)
  have "Min {x. P x} = x"
  proof (rule Min_eqI [OF assms(3)])
    fix y
    assume "y \<in> {x. P x}"
    then obtain k where k: "k < length xs" "y = xs ! k" "P (xs ! k)"
      using assms(2) by (metis in_set_conv_nth mem_Collect_eq)
    then have "i \<le> k" using i(4) by (meson not_le)
    then show "x \<le> y" using assms(1) i(3) k by (simp add: sorted_nth_mono)
  qed (use i in simp)
  then show ?thesis using Some i(2) by auto
qed

text \<open>What the privileged architecture asks for: the interrupts that may be taken now.\<close>

definition irq_to_s :: "rv_cpu \<Rightarrow> rv_intr \<Rightarrow> bool" where
  "irq_to_s c i \<longleftrightarrow> bit (mideleg (csr c)) (rv_intr_bit i)"

definition irq_takeable :: "rv_cpu \<Rightarrow> rv_intr \<Rightarrow> bool" where
  "irq_takeable c i \<longleftrightarrow>
     bit (irq_pending c) (rv_intr_bit i) \<and> bit (mie (csr c)) (rv_intr_bit i)
     \<and> (if irq_to_s c i
        then privilege c = 0 \<or> (privilege c = 1 \<and> bit (mstatus (csr c)) RV_STATUS_SIE_BIT)
        else privilege c < 3 \<or> bit (mstatus (csr c)) RV_STATUS_MIE_BIT)"

lemma bit_irq_bits: "bit (0xAAA :: int) n \<longleftrightarrow> (\<exists>i. n = rv_intr_bit i)"
proof -
  have "(0xAAA :: int) = push_bit 1 1 OR push_bit 3 1 OR push_bit 5 1 OR push_bit 7 1
      OR push_bit 9 1 OR push_bit 11 1" by simp
  then have "bit (0xAAA :: int) n \<longleftrightarrow> n \<in> {1, 3, 5, 7, 9, 11}"
    by (simp only: bit_or_iff bit_push_bit_iff) (auto simp: bit_simps)
  also have "\<dots> \<longleftrightarrow> (\<exists>i. n = rv_intr_bit i)"
  proof
    show "n \<in> {1, 3, 5, 7, 9, 11} \<Longrightarrow> \<exists>i. n = rv_intr_bit i"
      by (auto intro: exI [of _ RV_INTR_SSIP] exI [of _ RV_INTR_MSIP] exI [of _ RV_INTR_STIP]
          exI [of _ RV_INTR_MTIP] exI [of _ RV_INTR_SEIP] exI [of _ RV_INTR_MEIP])
    assume "\<exists>i. n = rv_intr_bit i"
    then obtain i where "n = rv_intr_bit i" ..
    then show "n \<in> {1, 3, 5, 7, 9, 11}" by (cases i) simp_all
  qed
  finally show ?thesis .
qed

lemma irq_word_nonzero:
  assumes "w AND IRQ_BITS = w"
  shows "w \<noteq> 0 \<longleftrightarrow> (\<exists>i. bit w (rv_intr_bit i))"
proof
  assume "w \<noteq> 0"
  then obtain n where "bit w n" by (auto simp: bit_eq_iff)
  moreover from this have "bit (w AND IRQ_BITS) n" using assms by simp
  then have "\<exists>i. n = rv_intr_bit i" by (simp add: bit_simps bit_irq_bits)
  ultimately show "\<exists>i. bit w (rv_intr_bit i)" by blast
qed auto

lemma and_single_bit: "(w AND push_bit n 1 \<noteq> 0) = bit w n" for w :: u64
  by (simp only: bit_iff_and_push_bit_not_eq_0)

lemma find_intr:
  "find (\<lambda>i. w AND push_bit (rv_intr_bit i) 1 \<noteq> 0) irq_priority =
     (if \<exists>i. bit w (rv_intr_bit i) then Some (Min {i. bit w (rv_intr_bit i)}) else None)" for w :: u64
  unfolding and_single_bit
  by (rule find_sorted_Min) (simp_all add: sorted_irq_priority set_irq_priority)

lemma and_one_bit: "(drop_bit n w AND 1 \<noteq> 0) = bit w n" for w :: u64
  by (simp add: bit_iff_odd_drop_bit and_one_eq odd_iff_mod_2_eq_one)

text \<open>C3: the interrupt taken is the right one. Among the pending, enabled interrupts that the
  current privilege and global enables let through, those for machine mode come first, and
  among the candidates the most urgent one (MEI, MSI, MTI, SEI, SSI, STI) is chosen; none is
  taken exactly if there is no candidate.\<close>
theorem interrupt_choice:
  assumes "wf_cpu c"
  shows "pick_interrupt c =
    (let M = {i. irq_takeable c i \<and> \<not> irq_to_s c i};
         S = {i. irq_takeable c i \<and> irq_to_s c i}
     in if M \<noteq> {} then Some (Min M) else if S \<noteq> {} then Some (Min S) else None)"
proof -
  define pd where "pd = irq_pending c AND mie (csr c)"
  have pd: "pd AND IRQ_BITS = pd"
    using wf_cpuD(8) [OF assms] unfolding pd_def by (rule masked_and)
  define me where "me \<longleftrightarrow> privilege c < 3 \<or> bit (mstatus (csr c)) RV_STATUS_MIE_BIT"
  define se where "se \<longleftrightarrow> privilege c < 1
    \<or> (privilege c = 1 \<and> bit (mstatus (csr c)) RV_STATUS_SIE_BIT)"
  let ?mp = "pd AND NOT (mideleg (csr c))" and ?sp = "pd AND mideleg (csr c)"
  have zero: "privilege c < 1 \<longleftrightarrow> privilege c = 0"
    by (simp add: word_less_nat_alt word_unat_eq_iff)
  have M: "{i. irq_takeable c i \<and> \<not> irq_to_s c i} = (if me then {i. bit ?mp (rv_intr_bit i)} else {})"
    by (auto simp: irq_takeable_def irq_to_s_def pd_def me_def bit_and_iff bit_not_iff
        possible_bit_word dest: bit_imp_le_length)
  have S: "{i. irq_takeable c i \<and> irq_to_s c i} = (if se then {i. bit ?sp (rv_intr_bit i)} else {})"
    by (auto simp: irq_takeable_def irq_to_s_def pd_def se_def zero bit_and_iff)
  have pick: "pick_interrupt c =
    (if pd = 0 then None
     else if me \<and> ?mp \<noteq> 0 then find (\<lambda>i. ?mp AND push_bit (rv_intr_bit i) 1 \<noteq> 0) irq_priority
     else if se \<and> ?sp \<noteq> 0 then find (\<lambda>i. ?sp AND push_bit (rv_intr_bit i) 1 \<noteq> 0) irq_priority
     else None)"
    by (simp only: pick_interrupt_def Let_def pd_def me_def se_def and_one_bit)
  have nz: "?mp \<noteq> 0 \<longleftrightarrow> {i. bit ?mp (rv_intr_bit i)} \<noteq> {}" "?sp \<noteq> 0 \<longleftrightarrow> {i. bit ?sp (rv_intr_bit i)} \<noteq> {}"
    using irq_word_nonzero [OF masked_and [OF pd], of "NOT (mideleg (csr c))"]
      irq_word_nonzero [OF masked_and [OF pd], of "mideleg (csr c)"] by auto
  show ?thesis
    unfolding pick find_intr M S nz Let_def
    by (cases me; cases se) auto
qed

text \<open>A core with three pending and enabled interrupts, two of them delegated.\<close>

definition cpu_irq :: rv_cpu where
  "cpu_irq = upd_csr (\<lambda>s. s\<lparr>mie := 0x2A0, mideleg := 0x220\<rparr>) (cpu_zero\<lparr>irq_pending := 0x2A0\<rparr>)"

lemma wf_cpu_irq: "wf_cpu cpu_irq"
  using wf_csr_zero
  by (simp add: cpu_irq_def wf_cpu_def wf_tlb_def rv_sync_mem_privilege_def wf_csr_def
      pmpcfg_unpacked_def list_all_iff)

lemma interrupt_choice_witness:
  "pick_interrupt cpu_irq = Some RV_INTR_MTIP
    \<and> RV_INTR_MTIP = Min {i. irq_takeable cpu_irq i \<and> \<not> irq_to_s cpu_irq i}"
proof -
  have M: "{i. irq_takeable cpu_irq i \<and> \<not> irq_to_s cpu_irq i} = {RV_INTR_MTIP}"
  proof (intro set_eqI)
    show "i \<in> {i. irq_takeable cpu_irq i \<and> \<not> irq_to_s cpu_irq i} \<longleftrightarrow> i \<in> {RV_INTR_MTIP}" for i
      by (cases i) (simp_all add: irq_takeable_def irq_to_s_def cpu_irq_def)
  qed
  show ?thesis
    using interrupt_choice [OF wf_cpu_irq] unfolding M by simp
qed

section \<open>The trap as a whole\<close>

text \<open>The address a handler is entered at.\<close>

definition trap_vector :: "u64 \<Rightarrow> u64 \<Rightarrow> u64" where
  "trap_vector tvec cause =
     (if bit cause 63 \<and> bit tvec 0 then (tvec AND NOT 3) + 4 * (cause AND 0x3f)
      else tvec AND NOT 3)"

lemma intr_flag: "drop_bit 63 cause \<noteq> 0 \<longleftrightarrow> bit cause 63" for cause :: u64
proof
  assume "drop_bit 63 cause \<noteq> 0"
  then obtain n where "bit (drop_bit 63 cause) n" by (auto simp: bit_eq_iff)
  then have "63 + n < 64" and "bit cause (63 + n)"
    by (auto simp: bit_simps dest: bit_imp_le_length)
  then show "bit cause 63" by simp
next
  assume "bit cause 63"
  then have "bit (drop_bit 63 cause) 0" by (simp add: bit_simps)
  then show "drop_bit 63 cause \<noteq> 0" by auto
qed

lemma trap_enter_pc [simp]:
  "pc (trap_enter_m c t) = trap_vector (mtvec (csr c)) (trap_cause t)"
  "pc (trap_enter_s c t) = trap_vector (stvec (csr c)) (trap_cause t)"
  by (simp_all add: trap_enter_m_def trap_enter_s_def Let_def intr_flag trap_vector_def)

text \<open>C4: entering a handler. A delegated trap goes to supervisor mode, every other trap to
  machine mode; the handler's registers take the trap's data, the interrupt enable is moved to
  its saved copy and cleared, the previous privilege is saved in SPP or MPP, every other status
  bit stays, and execution continues at the direct or vectored address.\<close>
theorem trap_entry:
  assumes "wf_cpu c"
  shows "if trap_delegated c (trap_cause t)
    then privilege (take_trap c t) = 1
      \<and> sepc (csr (take_trap c t)) = trap_epc t \<and> scause (csr (take_trap c t)) = trap_cause t
      \<and> stval (csr (take_trap c t)) = trap_tval t
      \<and> pc (take_trap c t) = trap_vector (stvec (csr c)) (trap_cause t)
      \<and> (\<forall>n. bit (mstatus (csr (take_trap c t))) n \<longleftrightarrow>
           (if n = RV_STATUS_SIE_BIT then False
            else if n = RV_STATUS_SPIE_BIT then bit (mstatus (csr c)) RV_STATUS_SIE_BIT
            else if n = RV_STATUS_SPP_BIT then privilege c = 1
            else bit (mstatus (csr c)) n))
    else privilege (take_trap c t) = 3
      \<and> mepc (csr (take_trap c t)) = trap_epc t \<and> mcause (csr (take_trap c t)) = trap_cause t
      \<and> mtval (csr (take_trap c t)) = trap_tval t
      \<and> pc (take_trap c t) = trap_vector (mtvec (csr c)) (trap_cause t)
      \<and> drop_bit RV_STATUS_MPP_BASE_BIT (mstatus (csr (take_trap c t))) AND 3 = ucast (privilege c)
      \<and> (\<forall>n. n \<noteq> RV_STATUS_MPP_BASE_BIT \<and> n \<noteq> RV_STATUS_MPP_BASE_BIT + 1 \<longrightarrow>
           bit (mstatus (csr (take_trap c t))) n =
             (if n = RV_STATUS_MIE_BIT then False
              else if n = RV_STATUS_MPIE_BIT then bit (mstatus (csr c)) RV_STATUS_MIE_BIT
              else bit (mstatus (csr c)) n))"
proof (cases "trap_delegated c (trap_cause t)")
  case True
  then have p: "privilege c \<le> 1" by (simp add: trap_delegated_def Let_def)
  then have "bit (privilege c) 0 \<longleftrightarrow> privilege c = 1" using u8_le_1 by fastforce
  with True show ?thesis
    by (simp add: take_trap_def bit_trap_status_s [OF p])
next
  case False
  note p = wf_cpuD(6) [OF assms]
  have "drop_bit 11 (trap_status_m (mstatus (csr c)) (privilege c)) AND 3 = ucast (privilege c)"
    using privilege_bits [OF p]
    by (intro bit_word_eqI)
      (auto simp: bit_simps bit_trap_status_m [OF p] and_low_mask less_2_cases_iff)
  with False show ?thesis
    by (simp add: take_trap_def bit_trap_status_m [OF p])
qed

lemma trap_entry_witness:
  "privilege (take_trap cpu_m \<lparr>trap_epc = 4, trap_tval = 0, trap_cause = 11\<rparr>) = 3
    \<and> mepc (csr (take_trap cpu_m \<lparr>trap_epc = 4, trap_tval = 0, trap_cause = 11\<rparr>)) = 4"
proof -
  have "\<not> trap_delegated cpu_m 11" by (simp add: trap_delegated_def cpu_m_alt)
  with trap_entry [OF wf_cpu_m, of "\<lparr>trap_epc = 4, trap_tval = 0, trap_cause = 11\<rparr>"]
  show ?thesis by simp
qed

section \<open>Traps under the contract of the callbacks\<close>

lemma rv_do_trap_total:
  "rv_do_trap env h t m = None \<longleftrightarrow> \<not> bit (trap_cause t) 63 \<and> \<not> trap_cause t < 32"
  by (auto simp: rv_do_trap_def intr_flag split: option.splits prod.splits bool.splits)

lemma rv_do_trap_some:
  "bit (trap_cause t) 63 \<or> trap_cause t < 32 \<Longrightarrow> \<exists>m'. rv_do_trap env h t m = Some m'"
  using rv_do_trap_total [of env h t m] by auto

lemma rv_cause_code_less [simp]: "rv_cause_code x < 32" "\<not> bit (rv_cause_code x) 63"
  by (cases x; simp)+

context emu_callbacks
begin

lemma do_trap_wf:
  assumes "rv_do_trap env h t m = Some m'" and "wf_machine m"
  shows "wf_next m m'"
proof -
  have tr: "wf_next x (put_cpu h (take_trap (get_cpu x h) t) x)" if "wf_machine x" for x
    using that by (rule wf_next_put_cpu) simp
  consider "m' = put_cpu h (take_trap (get_cpu m h) t) m"
    | f ok x where "trap_hook_fn env f h t m = (ok, x)"
        "m' = x \<or> m' = put_cpu h (take_trap (get_cpu x h) t) x"
    using assms(1)
    by (auto simp: rv_do_trap_def split: if_splits option.splits prod.splits bool.splits)
  then show ?thesis
  proof cases
    case 1
    then show ?thesis using tr [OF assms(2)] by simp
  next
    case 2
    from hook_wf [OF assms(2) 2(1)] have x: "wf_next m x" .
    from tr [OF wf_nextD [OF x]] wf_next_trans [OF x] x 2(2) show ?thesis by blast
  qed
qed

lemma do_iillegal_wf:
  assumes "rv_do_iillegal env h insn m = Some m'" and "wf_machine m"
  shows "wf_next m m'"
  using assms(1) unfolding rv_do_iillegal_def by (rule do_trap_wf) (rule assms(2))

lemma check_interrupts_wf:
  assumes "rv_check_interrupts env h m = Some m'" and "wf_machine m"
  shows "wf_next m m'"
  using assms
  by (cases "pick_interrupt (get_cpu m h)")
    (auto simp: rv_check_interrupts_def wf_next_refl dest: do_trap_wf)

lemma stays_do_trap [stays_rules]: "wf_next m x \<Longrightarrow> stays m (rv_do_trap env h t x)"
  by (rule stays_via) (auto simp: stays_def dest: do_trap_wf)

lemma stays_do_iillegal [stays_rules]: "wf_next m x \<Longrightarrow> stays m (rv_do_iillegal env h insn x)"
  unfolding rv_do_iillegal_def by (rule stays_do_trap)

lemma stays_check_interrupts [stays_rules]: "wf_next m x \<Longrightarrow> stays m (rv_check_interrupts env h x)"
  by (rule stays_via) (auto simp: stays_def dest: check_interrupts_wf)

text \<open>Neither an interrupt nor one of the causes of the code trips the assertion.\<close>

lemma do_iillegal_some: "\<exists>m'. rv_do_iillegal env h insn m = Some m'"
  unfolding rv_do_iillegal_def
  by (rule rv_do_trap_some) (simp del: rv_cause_code.simps)

lemma check_interrupts_some: "\<exists>m'. rv_check_interrupts env h m = Some m'"
proof (cases "pick_interrupt (get_cpu m h)")
  case None
  then show ?thesis by (simp add: rv_check_interrupts_def)
next
  case (Some i)
  have "bit (RV_CAUSE_INTR_FLAG OR x) 63" for x by (simp add: RV_CAUSE_INTR_FLAG_def bit_simps)
  with Some show ?thesis
    by (auto simp: rv_check_interrupts_def intro!: rv_do_trap_some)
qed

end

end
