(* ===== verification/RV_Pmp.thy ===== *)
theory RV_Pmp
  imports RV_Wf
begin

text \<open>
  Physical memory protection, \<open>cpu/rv_pmp.c\<close>. The bit trick of \<open>pmpaddr_match\<close> is shown to
  be membership in an aligned power-of-two interval, and the scan of the 64 entries to be the
  rule of the first entry that holds one end of the access.
\<close>

section \<open>The code\<close>

definition pmpaddr_match :: "u64 \<Rightarrow> u64 \<Rightarrow> bool" where
  "pmpaddr_match paddr pmpaddr_val =
     (let qmask = pmpaddr_val XOR (pmpaddr_val + 1);
          bmask = push_bit 2 qmask OR 3;
          base = push_bit 2 (pmpaddr_val AND NOT qmask)
      in paddr AND NOT bmask = base)"

text \<open>The loop over the entries, from the entries that are left.\<close>

fun pmp_scan :: "rv_csr_state \<Rightarrow> u64 \<Rightarrow> u64 \<Rightarrow> bool \<Rightarrow> nat list \<Rightarrow> u8" where
  "pmp_scan s paddr paddr1 m_mode [] = (if m_mode then 7 else 0)"
| "pmp_scan s paddr paddr1 m_mode (i # is) =
     (let cfg = pmpcfg_unpacked s i;
          locked = bit cfg RV_PMPCFG_L_BIT;
          enabled = cfg AND push_bit RV_PMPCFG_A_BASE_BIT 2 \<noteq> 0
      in if \<not> enabled \<or> (m_mode \<and> \<not> locked) then pmp_scan s paddr paddr1 m_mode is
         else
           let match0 = pmpaddr_match paddr (pmpaddr s ! i);
               match1 = pmpaddr_match paddr1 (pmpaddr s ! i)
           in if match0 \<noteq> match1 then 0
              else if \<not> match0 then pmp_scan s paddr paddr1 m_mode is
              else cfg AND 7)"

definition rv_pmp_check :: "rv_cpu \<Rightarrow> u64 \<Rightarrow> u64 \<Rightarrow> bool \<Rightarrow> u8" where
  "rv_pmp_check cpu paddr sz m_mode =
     pmp_scan (csr cpu) paddr (paddr + sz - 1) m_mode [0..<64]"

section \<open>Regions\<close>

text \<open>
  The specification: \<open>pmpaddr\<close> with \<open>k\<close> trailing ones names the aligned region of
  \<open>2 ^ (k + 3)\<close> bytes that holds the address \<open>4 * pmpaddr\<close>.
\<close>

function trailing_ones :: "nat \<Rightarrow> nat" where
  "trailing_ones n = (if odd n then Suc (trailing_ones (n div 2)) else 0)"
  by pat_completeness auto

termination trailing_ones
  by (relation "measure id") (auto dest: odd_pos)

declare trailing_ones.simps [simp del]

definition napot_size :: "u64 \<Rightarrow> nat" where
  "napot_size a = 2 ^ (trailing_ones (unat a) + 3)"

definition napot_base :: "u64 \<Rightarrow> nat" where
  "napot_base a = 4 * unat a mod 2 ^ 64 div napot_size a * napot_size a"

lemma trailing_ones_bits:
  "i < trailing_ones n \<Longrightarrow> bit n i" "\<not> bit n (trailing_ones n)"
proof (induction n arbitrary: i rule: trailing_ones.induct)
  case (1 n)
  {
    case 1
    then show ?case
      using "1.IH"(1) by (cases i; subst (asm) trailing_ones.simps)
        (auto simp: bit_0 bit_Suc split: if_splits)
  next
    case 2
    show ?case
      using "1.IH"(2) by (subst trailing_ones.simps) (auto simp: bit_0 bit_Suc)
  }
qed

lemma qmask_eq:
  fixes v :: u64
  assumes ones: "\<And>i. i < k \<Longrightarrow> bit v i" and zero: "\<not> bit v k" and "k \<le> 64"
  shows "v XOR (v + 1) = mask (k + 1)"
proof (cases "k = 64")
  case True
  have "v = mask 64"
    by (rule bit_word_eqI) (auto simp: bit_simps ones True)
  then show ?thesis by (simp add: True mask_eq_exp_minus_1)
next
  case False
  define h where "h = v AND NOT (mask (k + 1))"
  have "v = h OR mask k"
    unfolding h_def
    by (rule bit_word_eqI) (use ones zero in \<open>auto simp: bit_simps less_Suc_eq\<close>)
  moreover have "h OR mask k = h + mask k"
    unfolding h_def by (rule disjunctive_add [symmetric]) (auto simp: bit_simps)
  ultimately have "v + 1 = h + push_bit k 1"
    by (simp add: mask_eq_exp_minus_1 push_bit_eq_mult)
  also have "\<dots> = h OR push_bit k 1"
    unfolding h_def by (rule disjunctive_add) (auto simp: bit_simps)
  finally have v1: "v + 1 = (v AND NOT (mask (k + 1))) OR push_bit k 1"
    by (simp add: h_def)
  show ?thesis
    unfolding v1
    by (rule bit_word_eqI) (use ones zero in \<open>auto simp: bit_simps less_Suc_eq\<close>)
qed

lemma trailing_ones_le: "trailing_ones (unat (a :: u64)) \<le> 64"
proof (rule ccontr)
  assume "\<not> ?thesis"
  then have "bit (unat a) 64" by (intro trailing_ones_bits) simp
  then show False by (simp add: bit_unsigned_iff bit_beyond)
qed

lemma and_not_mask_eq_iff:
  fixes x y :: "'a::len word"
  shows "x AND NOT (mask n) = y AND NOT (mask n) \<longleftrightarrow> drop_bit n x = drop_bit n y"
proof
  assume "x AND NOT (mask n) = y AND NOT (mask n)"
  then have "drop_bit n (x AND NOT (mask n)) = drop_bit n (y AND NOT (mask n))" by simp
  moreover have "drop_bit n (z AND NOT (mask n)) = drop_bit n z" for z :: "'a word"
    by (rule bit_word_eqI) (auto simp: bit_simps dest: bit_imp_le_length)
  ultimately show "drop_bit n x = drop_bit n y" by simp
next
  assume "drop_bit n x = drop_bit n y"
  then have "push_bit n (drop_bit n x) = push_bit n (drop_bit n y)" by simp
  moreover have "push_bit n (drop_bit n z) = z AND NOT (mask n)" for z :: "'a word"
    by (rule bit_word_eqI) (auto simp: bit_simps)
  ultimately show "x AND NOT (mask n) = y AND NOT (mask n)" by simp
qed

lemma div_eq_interval:
  fixes x y s :: nat
  assumes "0 < s"
  shows "x div s = y div s \<longleftrightarrow> y div s * s \<le> x \<and> x < y div s * s + s"
  using assms
  by (metis add.commute div_mult_self1_is_m div_nat_eqI div_times_less_eq_dividend
      dividend_less_div_times mult.commute mult_Suc_right times_div_less_eq_dividend)

lemma pmpaddr_match_eq:
  "pmpaddr_match p a \<longleftrightarrow> napot_base a \<le> unat p \<and> unat p < napot_base a + napot_size a"
proof -
  define k where "k = trailing_ones (unat a)"
  have q: "a XOR (a + 1) = mask (k + 1)"
  proof (rule qmask_eq)
    show "bit a i" if "i < k" for i
      using that trailing_ones_bits(1) [of i "unat a"] by (simp add: k_def bit_unsigned_iff)
    show "\<not> bit a k"
      using trailing_ones_bits(2) [of "unat a"] by (auto simp: k_def bit_unsigned_iff bit_beyond)
    show "k \<le> 64" by (simp add: k_def trailing_ones_le)
  qed
  have "push_bit 2 (mask (k + 1)) OR mask 2 = (mask (k + 3) :: u64)"
    by (rule bit_word_eqI) (auto simp: bit_simps simp del: mask_Suc_exp)
  moreover have "mask 2 = (3 :: u64)" by (simp add: mask_eq_exp_minus_1)
  ultimately have m: "push_bit 2 (mask (k + 1)) OR 3 = (mask (k + 3) :: u64)" by simp
  have b: "push_bit 2 (a AND NOT (mask (k + 1))) = push_bit 2 a AND NOT (mask (k + 3))"
    by (rule bit_word_eqI) (auto simp: bit_simps simp del: mask_Suc_exp)
  have "pmpaddr_match p a \<longleftrightarrow> p AND NOT (mask (k + 3)) = push_bit 2 a AND NOT (mask (k + 3))"
    unfolding pmpaddr_match_def Let_def q m b ..
  also have "\<dots> \<longleftrightarrow> drop_bit (k + 3) p = drop_bit (k + 3) (push_bit 2 a)"
    by (rule and_not_mask_eq_iff)
  also have "\<dots> \<longleftrightarrow> unat p div 2 ^ (k + 3) = (4 * unat a mod 2 ^ 64) div 2 ^ (k + 3)"
  proof -
    have d: "unat (drop_bit n x) = unat x div 2 ^ n" for n and x :: u64
      by (simp only: unat_drop_bit_eq) (rule drop_bit_eq_div)
    have "unat (push_bit 2 a) = 4 * unat a mod 2 ^ 64"
      by (simp add: push_bit_eq_mult unat_word_ariths mult.commute)
    then show ?thesis unfolding word_unat_eq_iff d by simp
  qed
  also have "\<dots> \<longleftrightarrow> napot_base a \<le> unat p \<and> unat p < napot_base a + napot_size a"
    unfolding napot_base_def napot_size_def k_def by (rule div_eq_interval) simp
  finally show ?thesis .
qed

text \<open>The bit trick of \<open>pmpaddr_match\<close> is interval membership. For every register value,
  all ones included, the physical address matches exactly if it lies in the aligned
  power-of-two region the value's trailing ones encode.\<close>
theorem pmpaddr_match_region:
  "pmpaddr_match p a \<longleftrightarrow> napot_base a \<le> unat p \<and> unat p < napot_base a + napot_size a"
  by (rule pmpaddr_match_eq)

section \<open>The scan\<close>

definition in_region :: "u64 \<Rightarrow> u64 \<Rightarrow> bool" where
  "in_region a p \<longleftrightarrow> napot_base a \<le> unat p \<and> unat p < napot_base a + napot_size a"

definition pmp_active :: "rv_csr_state \<Rightarrow> bool \<Rightarrow> nat \<Rightarrow> bool" where
  "pmp_active s m_mode i \<longleftrightarrow>
     bit (pmpcfg_unpacked s i) 4 \<and> (m_mode \<longrightarrow> bit (pmpcfg_unpacked s i) RV_PMPCFG_L_BIT)"

lemma enabled_bit: "(cfg :: u8) AND 16 = 0 \<longleftrightarrow> \<not> bit cfg 4"
  by (simp add: word8_eq_iff bit_eval)

lemma pmpaddr_match_in_region: "pmpaddr_match p a = in_region a p"
  by (simp add: pmpaddr_match_eq in_region_def)

text \<open>The entry the scan stops at, and its verdict.\<close>

definition pmp_deciding :: "rv_csr_state \<Rightarrow> u64 \<Rightarrow> u64 \<Rightarrow> bool \<Rightarrow> nat list \<Rightarrow> nat option" where
  "pmp_deciding s p p1 m_mode is =
     find (\<lambda>i. pmp_active s m_mode i \<and> (in_region (pmpaddr s ! i) p \<or> in_region (pmpaddr s ! i) p1)) is"

lemma pmp_scan_find:
  "pmp_scan s p p1 m_mode is =
     (case pmp_deciding s p p1 m_mode is of
        None \<Rightarrow> if m_mode then 7 else 0
      | Some i \<Rightarrow> if in_region (pmpaddr s ! i) p \<and> in_region (pmpaddr s ! i) p1
                 then pmpcfg_unpacked s i AND 7 else 0)"
  by (induction "is")
    (simp_all add: pmp_deciding_def Let_def pmp_active_def enabled_bit pmpaddr_match_in_region)

text \<open>C5: the verdict of a PMP check is that of the lowest-numbered entry that is switched on for
  the access (and locked, for machine mode) and whose region holds the first or the last byte:
  its permission bits if it holds both, no permission if it holds one. Without such an entry
  machine mode has every permission and the other modes have none.\<close>
theorem pmp_check_first_match:
  "rv_pmp_check c p n m_mode =
     (case find (\<lambda>i. pmp_active (csr c) m_mode i
                \<and> (in_region (pmpaddr (csr c) ! i) p \<or> in_region (pmpaddr (csr c) ! i) (p + n - 1)))
             [0..<64] of
        None \<Rightarrow> if m_mode then 7 else 0
      | Some i \<Rightarrow> if in_region (pmpaddr (csr c) ! i) p \<and> in_region (pmpaddr (csr c) ! i) (p + n - 1)
                 then pmpcfg_unpacked (csr c) i AND 7 else 0)"
  by (simp only: rv_pmp_check_def pmp_scan_find pmp_deciding_def)

lemma unat_last_byte:
  fixes p n :: u64
  assumes "0 < unat n" and "unat p + unat n \<le> 2 ^ 64"
  shows "unat (p + n - 1) = unat p + unat n - 1"
proof -
  have n1: "unat (n - 1) = unat n - 1"
    using assms(1) by (simp add: unat_sub_if' word_le_nat_alt)
  have "unat (p + n - 1) = unat (p + (n - 1))" by (simp only: add_diff_eq)
  also have "\<dots> = unat p + unat (n - 1)"
    using assms n1 by (subst unat_word_ariths(1)) simp
  finally show ?thesis using n1 assms(1) by simp
qed

text \<open>C6: what a PMP check grants is safe for the whole access. A granted permission bit comes
  from one entry whose region contains every byte of the access, or the access is machine
  mode's and no locked entry holds either of its ends.\<close>
theorem pmp_grant_covers_access:
  assumes "bit (rv_pmp_check c p n m_mode) b"
    and "0 < unat n" and "unat p + unat n \<le> 2 ^ 64"
  shows "(m_mode \<and> (\<forall>i<64. pmp_active (csr c) True i \<longrightarrow>
            \<not> in_region (pmpaddr (csr c) ! i) p \<and> \<not> in_region (pmpaddr (csr c) ! i) (p + n - 1)))
    \<or> (\<exists>i<64. pmp_active (csr c) m_mode i \<and> bit (pmpcfg_unpacked (csr c) i) b
        \<and> (\<forall>q. unat p \<le> unat q \<and> unat q < unat p + unat n \<longrightarrow> in_region (pmpaddr (csr c) ! i) q))"
proof (cases "pmp_deciding (csr c) p (p + n - 1) m_mode [0..<64]")
  case None
  with assms(1) have "m_mode"
    by (auto simp: rv_pmp_check_def pmp_scan_find split: if_splits)
  with None show ?thesis
    by (auto simp: pmp_deciding_def find_None_iff)
next
  case (Some i)
  then have i: "i < 64" "pmp_active (csr c) m_mode i"
    by (auto simp: pmp_deciding_def find_Some_iff)
  from assms(1) Some have ends: "in_region (pmpaddr (csr c) ! i) p"
      "in_region (pmpaddr (csr c) ! i) (p + n - 1)"
    and b: "bit (pmpcfg_unpacked (csr c) i) b"
    by (auto simp: rv_pmp_check_def pmp_scan_find bit_simps split: if_splits)
  have "in_region (pmpaddr (csr c) ! i) q"
    if "unat p \<le> unat q" "unat q < unat p + unat n" for q
    using ends that unat_last_byte [OF assms(2,3)] by (auto simp: in_region_def)
  with i b show ?thesis by blast
qed

text \<open>A region is at least eight bytes, so the bytes of a naturally aligned access of at most
  eight bytes lie in the same regions.\<close>

lemma in_region_octet:
  assumes "unat q div 8 = unat p div 8"
  shows "in_region a q = in_region a p"
proof -
  define S where "S = (2 :: nat) ^ trailing_ones (unat a)"
  have "napot_size a = 8 * S" by (simp add: napot_size_def S_def power_add)
  moreover from this have "napot_base a = 8 * (4 * unat a mod 2 ^ 64 div napot_size a * S)"
    by (simp add: napot_base_def)
  moreover have "8 * B \<le> x \<and> x < 8 * B + 8 * T \<longleftrightarrow> B \<le> x div 8 \<and> x div 8 < B + T" for x B T :: nat
    by arith
  ultimately show ?thesis
    using assms by (simp only: in_region_def)
qed

lemma aligned_room:
  fixes x :: nat
  assumes "x < 2 ^ n" and "x mod 2 ^ e = 0" and "e \<le> n"
  shows "x + 2 ^ e \<le> 2 ^ n"
proof -
  obtain k where k: "x = 2 ^ e * k" using assms(2) by (auto elim: dvdE dest: mod_0_imp_dvd)
  have n: "(2 :: nat) ^ n = 2 ^ e * 2 ^ (n - e)" using assms(3) by (simp flip: power_add)
  then have "k < 2 ^ (n - e)" using assms(1) by (simp add: k)
  then have "2 ^ e * (k + 1) \<le> 2 ^ e * 2 ^ (n - e)" by (intro mult_le_mono2) simp
  then show ?thesis by (simp add: k n)
qed

lemma octet_same:
  fixes x y :: nat
  assumes "e \<le> 3" and "x mod 2 ^ e = 0" and "x \<le> y" and "y < x + 2 ^ e"
  shows "y div 8 = x div 8"
proof -
  obtain j where e: "3 = e + j" using assms(1) by (auto simp: le_iff_add)
  have "(8 :: nat) = 2 ^ 3" by simp
  also have "\<dots> = 2 ^ e * 2 ^ j" unfolding e power_add ..
  finally have 8: "(8 :: nat) = 2 ^ e * 2 ^ j" .
  obtain k where k: "x = 2 ^ e * k" using assms(2) by (auto elim: dvdE dest: mod_0_imp_dvd)
  have "y div 2 ^ e = k"
    using assms(3,4) by (intro div_nat_eqI) (simp_all add: k algebra_simps)
  then show ?thesis
    by (simp only: 8 div_mult2_eq k) simp
qed

lemma unat_pow2_le3: "e \<le> 3 \<Longrightarrow> unat ((2 :: u64) ^ e) = 2 ^ e"
proof -
  assume "e \<le> 3"
  then have "e \<in> {0, 1, 2, 3}" by auto
  then show ?thesis by auto
qed

lemma pmp_scan_octet:
  assumes "unat p div 8 = unat q div 8" "unat p1 div 8 = unat q1 div 8"
  shows "pmp_scan s p p1 m_mode is = pmp_scan s q q1 m_mode is"
  using in_region_octet [OF assms(1)] in_region_octet [OF assms(2)]
  by (simp add: pmp_scan_find pmp_deciding_def split: option.split)

text \<open>C7: a naturally aligned access of 1, 2, 4 or 8 bytes never straddles a PMP region: its
  verdict is the verdict of each of its bytes.\<close>
theorem pmp_check_aligned:
  assumes "e \<le> 3" and "unat p mod 2 ^ e = 0"
    and "unat p \<le> unat q" and "unat q < unat p + 2 ^ e"
  shows "rv_pmp_check c p (2 ^ e) m_mode = rv_pmp_check c q 1 m_mode"
proof -
  have lt: "unat p < 2 ^ LENGTH(64)" by (rule unsigned_less)
  have "unat p + 2 ^ e \<le> 2 ^ 64"
    using aligned_room [OF lt assms(2)] assms(1) by simp
  then have last: "unat (p + 2 ^ e - 1) = unat p + 2 ^ e - 1"
    using unat_last_byte [of "2 ^ e" p] unat_pow2_le3 [OF assms(1)] by simp
  have "unat q div 8 = unat p div 8" by (rule octet_same [OF assms])
  moreover have "(unat p + 2 ^ e - 1) div 8 = unat p div 8"
  proof (rule octet_same [OF assms(1,2)])
    have "1 \<le> (2 :: nat) ^ e" by simp
    then show "unat p \<le> unat p + 2 ^ e - 1" and "unat p + 2 ^ e - 1 < unat p + 2 ^ e"
      by linarith+
  qed
  ultimately show ?thesis
    using last by (simp add: rv_pmp_check_def) (rule pmp_scan_octet, simp_all)
qed

lemma pmp_check_aligned_witness:
  "rv_pmp_check cpu_m 0x1000 (2 ^ 3) True = rv_pmp_check cpu_m 0x1005 1 True"
  by (rule pmp_check_aligned [of 3 "0x1000" "0x1005"]) simp_all

text \<open>A core whose entry 0 opens the page at 0x1000.\<close>

definition cpu_page_region :: rv_cpu where
  "cpu_page_region =
     upd_csr (\<lambda>s. s\<lparr>pmpcfg := (pmpcfg s)[0 := 0x1F], pmpaddr := (pmpaddr s)[0 := 0x5FF]\<rparr>) cpu_zero"

lemma pmp_grant_covers_access_witness:
  "\<exists>i<64. pmp_active (csr cpu_page_region) False i \<and> in_region (pmpaddr (csr cpu_page_region) ! i) 0x1ABE"
proof -
  have zero: "[0..<64] = 0 # [1..<64]" by (simp add: upt_conv_Cons)
  have "bit (rv_pmp_check cpu_page_region 0x1ABC 4 False) 0"
    unfolding rv_pmp_check_def zero
    by (simp add: cpu_page_region_def pmpcfg_unpacked_def pmpaddr_match_def Let_def)
  from pmp_grant_covers_access [OF this] show ?thesis by auto
qed

text \<open>
  The check of a page uses the raw address registers, so a region smaller than the page is
  skipped unless it holds one of the page's ends, although a read of the register shows the
  region rounded up to the page.
\<close>

definition cpu_inner_region :: rv_cpu where
  "cpu_inner_region =
     upd_csr (\<lambda>s. s\<lparr>pmpcfg := (pmpcfg s)[0 := 0x1F18],
                    pmpaddr := (pmpaddr s)[0 := 0x402, 1 := 0x1FFFFFFFFFFFFF]\<rparr>)
       (cpu_zero\<lparr>privilege := 1\<rparr>)"

text \<open>An eight-byte region that forbids every access (entry 0, at 0x1008) forbids it for an
  access to those bytes, but the check of the page around it, whose result the TLB keeps for all
  accesses to the page, grants everything; and the register reads as if its region were the
  whole page.\<close>
lemma pmp_page_check_skips_inner_region:
  "rv_pmp_check cpu_inner_region 0x1008 8 False = 0
    \<and> rv_pmp_check cpu_inner_region 0x1000 0x1000 False = 7
    \<and> pmpaddr_read (csr cpu_inner_region) 0 = 0x7FF"
proof -
  have up: "[0..<64] = 0 # 1 # [2..<64]" by (simp add: upt_rec)
  have m: "pmpaddr_match 0x1008 0x402" "pmpaddr_match 0x100F 0x402" "\<not> pmpaddr_match 0x1000 0x402"
    "\<not> pmpaddr_match 0x1FFF 0x402" "pmpaddr_match 0x1000 0x1FFFFFFFFFFFFF"
    "pmpaddr_match 0x1FFF 0x1FFFFFFFFFFFFF"
    by (simp_all add: pmpaddr_match_def)
  have s: "pmpcfg_unpacked (csr cpu_inner_region) 0 = 0x18"
    "pmpcfg_unpacked (csr cpu_inner_region) 1 = 0x1F"
    "pmpaddr (csr cpu_inner_region) ! 0 = 0x402"
    "pmpaddr (csr cpu_inner_region) ! 1 = 0x1FFFFFFFFFFFFF"
    by (simp_all add: cpu_inner_region_def pmpcfg_unpacked_def)
  show ?thesis
    using m s by (simp add: rv_pmp_check_def up pmpaddr_read_def status_masks)
qed

end
