(* ===== verification/RV_Memory.thy ===== *)
theory RV_Memory
  imports RV_Privileged RV_Pmp
begin

text \<open>
  Physical memory: the access functions of \<open>emu_machine.c\<close>. A data pointer is the list of
  the bytes it points to (\<open>None\<close> is the null pointer of the checking pass); an access gives
  its result, the bytes afterwards and the machine, or \<open>None\<close> where the C code would leave
  the host's RAM allocation or the buffer.
\<close>

section \<open>Bytes of RAM\<close>

definition ram_read :: "'d emu_machine \<Rightarrow> nat \<Rightarrow> nat \<Rightarrow> u8 list option" where
  "ram_read m off n = (if off + n \<le> ram_alloc m then Some (map (ram m) [off..<off + n]) else None)"

definition ram_write :: "'d emu_machine \<Rightarrow> nat \<Rightarrow> u8 list \<Rightarrow> 'd emu_machine option" where
  "ram_write m off bs =
     (if off + length bs \<le> ram_alloc m
      then Some (m\<lparr>ram := (\<lambda>i. if off \<le> i \<and> i < off + length bs then bs ! (i - off) else ram m i)\<rparr>)
      else None)"

section \<open>Device access\<close>

definition mmio_dispatch ::
  "'d emu_env \<Rightarrow> emu_mmio_region \<Rightarrow> u64 \<Rightarrow> u8 list option \<Rightarrow> u8 \<Rightarrow> rv_access \<Rightarrow> 'd emu_machine \<Rightarrow>
   (rv_mem_result \<times> u8 list option \<times> 'd emu_machine) option" where
  "mmio_dispatch env r addr data sz mode m =
     (case data of
        None \<Rightarrow> Some (RV_MEM_OK, None, m)
      | Some buf \<Rightarrow>
          do {
            guard_ub (unat sz \<le> 8 \<and> unat sz \<le> length buf);
            (if mode = RV_ACCESS_STORE then
               let val = le_word (take (unat sz) buf);
                   (ok, m) = mmio_write_fn env (mr_device r) (addr - mr_base r) sz val m
               in Some (if ok then RV_MEM_OK else RV_MEM_ACCESS_FAULT, Some buf, m)
             else
               let (ok, val, m) = mmio_read_fn env (mr_device r) (addr - mr_base r) sz m
               in Some (if ok then RV_MEM_OK else RV_MEM_ACCESS_FAULT,
                        Some (if ok then overwrite (le_bytes (unat sz) val) buf else buf), m))
          })"

section \<open>Misaligned access\<close>

text \<open>The two branches of the loop: part of the access in RAM, part of it in a device.\<close>

definition misaligned_ram_part :: "'d emu_machine \<Rightarrow> u64 \<Rightarrow> u64 \<Rightarrow> u64" where
  "misaligned_ram_part m addr sz = (if addr + sz > ram_end m then ram_end m - addr else sz)"

definition misaligned_ram ::
  "u64 \<Rightarrow> u8 list option \<Rightarrow> u64 \<Rightarrow> rv_access \<Rightarrow> 'd emu_machine \<Rightarrow>
   (u8 list option \<times> 'd emu_machine) option" where
  "misaligned_ram addr data part mode m =
     (let off = unat (addr - ram_start m) in
      case data of
        None \<Rightarrow> Some (None, m)
      | Some buf \<Rightarrow>
          (if mode = RV_ACCESS_STORE then
             do {
               guard_ub (unat part \<le> length buf);
               m \<leftarrow> ram_write m off (take (unat part) buf);
               Some (Some buf, m)
             }
           else
             do {
               guard_ub (unat part \<le> length buf);
               bs \<leftarrow> ram_read m off (unat part);
               Some (Some (overwrite bs buf), m)
             }))"

definition mmio_region_part :: "emu_mmio_region \<Rightarrow> u64 \<Rightarrow> u64 \<Rightarrow> u64" where
  "mmio_region_part r addr sz =
     (if addr + sz > mr_base r + mr_size r then mr_base r + mr_size r - addr else sz)"

definition find_mmio :: "'d emu_machine \<Rightarrow> u64 \<Rightarrow> emu_mmio_region option" where
  "find_mmio m addr = find (\<lambda>r. addr \<ge> mr_base r \<and> addr < mr_base r + mr_size r) (mmio m)"

definition addr_in_ram :: "'d emu_machine \<Rightarrow> u64 \<Rightarrow> bool" where
  "addr_in_ram m addr \<longleftrightarrow> addr \<ge> ram_start m \<and> addr + 1 \<le> ram_end m"

text \<open>Each part is at least one byte and at most what is left, so the loop ends.\<close>

lemma part_progress_nat:
  fixes a e s N :: nat
  assumes "0 < s" and "a < N" and "e < N" and "s < N"
    and "a < e \<or> (a + 1) mod N \<le> e" and "(a + s) mod N > e"
  shows "0 < (if a \<le> e then e - a else e + N - a)" and "(if a \<le> e then e - a else e + N - a) \<le> s"
proof -
  have "0 < (if a \<le> e then e - a else e + N - a) \<and> (if a \<le> e then e - a else e + N - a) \<le> s"
  proof (cases "a + 1 = N")
    case True
    then have "a + s = N + (s - 1)" using assms(1) by simp
    then have "(a + s) mod N = s - 1" using assms(1,4) by (simp only: mod_add_self1) simp
    then show ?thesis using True assms by auto
  next
    case False
    then have "(a + 1) mod N = a + 1" using assms(2) by simp
    moreover have "e < a + s"
      using assms(6) mod_less_eq_dividend [of "a + s" N] by linarith
    ultimately show ?thesis using assms by auto
  qed
  then show "0 < (if a \<le> e then e - a else e + N - a)" "(if a \<le> e then e - a else e + N - a) \<le> s"
    by blast+
qed

lemma part_progress:
  fixes addr sz e :: u64
  assumes "sz \<noteq> 0" and "addr < e \<or> addr + 1 \<le> e" and "addr + sz > e"
  shows "0 < unat (e - addr)" and "unat (e - addr) \<le> unat sz"
proof -
  have lt: "unat x < 2 ^ 64" for x :: u64 using unsigned_less [of x] by simp
  have "0 < unat sz" using assms(1) by (simp add: unat_gt_0)
  moreover have "unat addr < unat e \<or> (unat addr + 1) mod 2 ^ 64 \<le> unat e"
    and "(unat addr + unat sz) mod 2 ^ 64 > unat e"
    using assms(2,3) by (simp_all add: word_less_nat_alt word_le_nat_alt unat_word_ariths)
  note n = part_progress_nat [OF \<open>0 < unat sz\<close> lt lt lt this]
  have "unat (e - addr) = (if unat addr \<le> unat e then unat e - unat addr
      else unat e + 2 ^ 64 - unat addr)"
    by (simp add: unat_sub_if')
  with n show "0 < unat (e - addr)" and "unat (e - addr) \<le> unat sz" by simp_all
qed

lemma misaligned_ram_part_bounds:
  assumes "sz \<noteq> 0" and "addr_in_ram m addr"
  shows "0 < unat (misaligned_ram_part m addr sz)" and "unat (misaligned_ram_part m addr sz) \<le> unat sz"
  using assms part_progress [of sz addr "ram_end m"]
  by (auto simp: misaligned_ram_part_def addr_in_ram_def unat_gt_0)

lemma mmio_region_part_bounds:
  assumes "sz \<noteq> 0" and "find_mmio m addr = Some r"
  shows "0 < unat (mmio_region_part r addr sz)" and "unat (mmio_region_part r addr sz) \<le> unat sz"
  using assms part_progress [of sz addr "mr_base r + mr_size r"]
  by (auto simp: mmio_region_part_def find_mmio_def find_Some_iff unat_gt_0)

function misaligned_access ::
  "'d emu_env \<Rightarrow> u64 \<Rightarrow> u8 list option \<Rightarrow> u64 \<Rightarrow> rv_access \<Rightarrow> 'd emu_machine \<Rightarrow>
   (rv_mem_result \<times> u8 list option \<times> 'd emu_machine) option" where
  "misaligned_access env addr data sz mode m =
     (if sz = 0 then Some (RV_MEM_OK, data, m)
      else if addr_in_ram m addr then
        let part = misaligned_ram_part m addr sz in
        case misaligned_ram addr data part mode m of
          None \<Rightarrow> None
        | Some (data, m) \<Rightarrow> misaligned_access env (addr + part) data (sz - part) mode m
      else
        case find_mmio m addr of
          None \<Rightarrow> Some (RV_MEM_ACCESS_FAULT, data, m)
        | Some r \<Rightarrow>
            let part = mmio_region_part r addr sz in
            case mmio_dispatch env r addr data (ucast part) mode m of
              None \<Rightarrow> None
            | Some (RV_MEM_OK, data, m) \<Rightarrow>
                misaligned_access env (addr + part) data (sz - part) mode m
            | Some (mr, data, m) \<Rightarrow> Some (mr, data, m))"
  by pat_completeness auto

termination misaligned_access
proof (relation "measure (\<lambda>(env, addr, data, sz, mode, m). unat sz)", goal_cases)
  case (2 env addr data sz mode m part z data' m')
  then show ?case
    using misaligned_ram_part_bounds [of sz m addr] by (simp add: unat_sub_if')
next
  case (3 env addr data sz mode m r part z a b x)
  then show ?case
    using mmio_region_part_bounds [of sz m addr r] by (simp add: unat_sub_if')
qed simp

declare misaligned_access.simps [simp del]

section \<open>Access functions\<close>

definition do_pmp_check :: "rv_cpu \<Rightarrow> u64 \<Rightarrow> u64 \<Rightarrow> rv_access \<Rightarrow> rv_mem_result" where
  "do_pmp_check cpu addr sz mode =
     (let perm = rv_pmp_check cpu addr sz (privilege cpu = 3);
          ok = (case mode of
                  RV_ACCESS_INSN \<Rightarrow> bit perm RV_PMPCFG_X_BIT
                | RV_ACCESS_LOAD \<Rightarrow> bit perm RV_PMPCFG_R_BIT
                | RV_ACCESS_AMO \<Rightarrow> bit perm RV_PMPCFG_W_BIT
                | RV_ACCESS_STORE \<Rightarrow> bit perm RV_PMPCFG_W_BIT)
      in if ok then RV_MEM_OK else RV_MEM_ACCESS_FAULT)"

text \<open>The two passes: one without data that only checks, one that commits.\<close>

definition misaligned_two_pass ::
  "'d emu_env \<Rightarrow> u64 \<Rightarrow> u8 list \<Rightarrow> u64 \<Rightarrow> rv_access \<Rightarrow> 'd emu_machine \<Rightarrow>
   (rv_mem_result \<times> u8 list \<times> 'd emu_machine) option" where
  "misaligned_two_pass env addr data sz mode m =
     (case misaligned_access env addr None sz mode m of
        None \<Rightarrow> None
      | Some (RV_MEM_OK, _, m) \<Rightarrow>
          (case misaligned_access env addr (Some data) sz mode m of
             None \<Rightarrow> None
           | Some (r, data', m) \<Rightarrow> Some (r, the data', m))
      | Some (r, _, m) \<Rightarrow> Some (r, data, m))"

definition rv_access_phys_partial ::
  "'d emu_env \<Rightarrow> nat \<Rightarrow> u64 \<Rightarrow> u8 list \<Rightarrow> u64 \<Rightarrow> rv_access \<Rightarrow> bool \<Rightarrow> 'd emu_machine \<Rightarrow>
   (rv_mem_result \<times> u8 list \<times> 'd emu_machine) option" where
  "rv_access_phys_partial env h addr data sz mode ignore_pmp m =
     (if \<not> ignore_pmp \<and> do_pmp_check (get_cpu m h) addr sz mode \<noteq> RV_MEM_OK
      then Some (do_pmp_check (get_cpu m h) addr sz mode, data, m)
      else misaligned_two_pass env addr data sz mode m)"

text \<open>The fast path: one host access of 1, 2, 4 or 8 bytes (no access for other sizes).\<close>

definition ram_access ::
  "u64 \<Rightarrow> u8 list \<Rightarrow> u8 \<Rightarrow> rv_access \<Rightarrow> 'd emu_machine \<Rightarrow>
   (rv_mem_result \<times> u8 list \<times> 'd emu_machine) option" where
  "ram_access addr data size_exp mode m =
     (let off = unat (addr - ram_start m); n = 2 ^ unat size_exp in
      if size_exp > 3 then Some (RV_MEM_OK, data, m)
      else if mode = RV_ACCESS_STORE then
        do {
          guard_ub (n \<le> length data);
          m \<leftarrow> ram_write m off (take n data);
          Some (RV_MEM_OK, data, m)
        }
      else
        do {
          guard_ub (n \<le> length data);
          bs \<leftarrow> ram_read m off n;
          Some (RV_MEM_OK, overwrite bs data, m)
        })"

definition find_mmio_sized :: "'d emu_machine \<Rightarrow> u64 \<Rightarrow> u64 \<Rightarrow> emu_mmio_region option" where
  "find_mmio_sized m addr sz =
     find (\<lambda>r. addr \<ge> mr_base r \<and> addr + sz \<le> mr_base r + mr_size r) (mmio m)"

definition rv_access_phys ::
  "'d emu_env \<Rightarrow> nat \<Rightarrow> u64 \<Rightarrow> u8 list \<Rightarrow> u8 \<Rightarrow> rv_access \<Rightarrow> bool \<Rightarrow> 'd emu_machine \<Rightarrow>
   (rv_mem_result \<times> u8 list \<times> 'd emu_machine) option" where
  "rv_access_phys env h addr data size_exp mode ignore_pmp m =
     (let sz = push_bit (unat size_exp) 1 in
      if \<not> ignore_pmp \<and> do_pmp_check (get_cpu m h) addr sz mode \<noteq> RV_MEM_OK
      then Some (do_pmp_check (get_cpu m h) addr sz mode, data, m)
      else if addr \<ge> ram_start m \<and> addr + sz \<le> ram_end m
      then ram_access addr data size_exp mode m
      else if addr mod sz \<noteq> 0
      then misaligned_two_pass env addr data sz mode m
      else
        case find_mmio_sized m addr sz of
          Some r \<Rightarrow>
            map_option (\<lambda>(res, data', m). (res, the data', m))
              (mmio_dispatch env r addr (Some data) (ucast sz) mode m)
        | None \<Rightarrow> Some (RV_MEM_ACCESS_FAULT, data, m))"

section \<open>RAM laws\<close>

lemma ram_write_fields:
  "ram_write m off bs = Some m' \<Longrightarrow> m' = m\<lparr>ram := ram m'\<rparr>"
  by (auto simp: ram_write_def split: if_splits)

lemma ram_read_write:
  assumes "ram_write m off bs = Some m'"
  shows "ram_read m' off (length bs) = Some bs"
  using assms by (auto simp: ram_write_def ram_read_def intro!: nth_equalityI split: if_splits)

lemma ram_read_write_other:
  assumes "ram_write m off bs = Some m'" and "off' + n \<le> off \<or> off + length bs \<le> off'"
  shows "ram_read m' off' n = ram_read m off' n"
  using assms by (auto simp: ram_write_def ram_read_def split: if_splits)

section \<open>Accesses inside RAM\<close>

text \<open>The bytes \<open>addr ..< addr + n\<close> lie in the machine's RAM.\<close>

definition in_ram :: "'d emu_machine \<Rightarrow> u64 \<Rightarrow> nat \<Rightarrow> bool" where
  "in_ram m addr n \<longleftrightarrow> unat (ram_start m) \<le> unat addr \<and> unat addr + n \<le> unat (ram_end m)"

definition ram_off :: "'d emu_machine \<Rightarrow> u64 \<Rightarrow> nat" where
  "ram_off m addr = unat addr - unat (ram_start m)"

text \<open>The part of the invariant that RAM accesses need; the main program's machine has it too.\<close>

definition ram_bounds :: "'d emu_machine \<Rightarrow> bool" where
  "ram_bounds m \<longleftrightarrow> unat (ram_end m) = unat (ram_start m) + ram_alloc m"

lemma wf_ram_bounds [simp]: "wf_machine m \<Longrightarrow> ram_bounds m"
  by (simp add: wf_machine_def ram_bounds_def)

lemma wf_ram_size: "wf_machine m \<Longrightarrow> unat (ram_end m) = unat (ram_start m) + ram_alloc m"
  by (simp add: wf_machine_def)

lemma in_ram_off:
  assumes "in_ram m addr n"
  shows "unat (addr - ram_start m) = ram_off m addr"
  using assms by (auto simp: in_ram_def ram_off_def unat_sub_if')

lemma in_ram_alloc:
  assumes "ram_bounds m" and "in_ram m addr n"
  shows "ram_off m addr + n \<le> ram_alloc m"
  using assms by (auto simp: in_ram_def ram_off_def ram_bounds_def)

lemma unat_size_exp:
  assumes "e \<le> (3 :: u8)"
  shows "unat (push_bit (unat e) 1 :: u64) = 2 ^ unat e" and "(2 :: nat) ^ unat e \<le> 8"
  using u8_le_3 [OF assms] by (auto simp: push_bit_eq_mult)

lemma in_ram_guard:
  assumes "in_ram m addr (unat sz)"
  shows "addr \<ge> ram_start m \<and> addr + sz \<le> ram_end m"
proof -
  have "unat addr + unat sz < 2 ^ LENGTH(64)"
    using assms unsigned_less [of "ram_end m"] by (auto simp: in_ram_def intro: le_less_trans)
  then show ?thesis
    using assms by (simp add: in_ram_def word_le_nat_alt unat_word_ariths)
qed

text \<open>The machine after a store of \<open>bs\<close> at \<open>addr\<close>.\<close>

definition ram_store :: "u64 \<Rightarrow> u8 list \<Rightarrow> 'd emu_machine \<Rightarrow> 'd emu_machine" where
  "ram_store addr bs m =
     m\<lparr>ram := (\<lambda>i. if ram_off m addr \<le> i \<and> i < ram_off m addr + length bs
                    then bs ! (i - ram_off m addr) else ram m i)\<rparr>"

definition ram_bytes :: "'d emu_machine \<Rightarrow> u64 \<Rightarrow> nat \<Rightarrow> u8 list" where
  "ram_bytes m addr n = map (ram m) [ram_off m addr..<ram_off m addr + n]"

lemma length_ram_bytes [simp]: "length (ram_bytes m addr n) = n"
  by (simp add: ram_bytes_def)

lemma ram_store_fields [simp, frame_simps]:
  "ram_start (ram_store a bs m) = ram_start m" "ram_end (ram_store a bs m) = ram_end m"
  "ram_alloc (ram_store a bs m) = ram_alloc m" "cpus (ram_store a bs m) = cpus m"
  "reservations (ram_store a bs m) = reservations m" "mmio (ram_store a bs m) = mmio m"
  "clint (ram_store a bs m) = clint m" "devs (ram_store a bs m) = devs m"
  "host_ns (ram_store a bs m) = host_ns m" "host_frm (ram_store a bs m) = host_frm m" "trap_hook (ram_store a bs m) = trap_hook m"
  "ram_off (ram_store a bs m) b = ram_off m b"
  "wf_machine (ram_store a bs m) = wf_machine m" "in_ram (ram_store a bs m) b n = in_ram m b n"
  by (simp_all add: ram_store_def ram_off_def in_ram_def)

lemma ram_ram_store:
  "ram (ram_store a bs m) i =
     (if ram_off m a \<le> i \<and> i < ram_off m a + length bs then bs ! (i - ram_off m a) else ram m i)"
  by (simp add: ram_store_def)

lemma ram_bytes_store: "length bs = n \<Longrightarrow> ram_bytes (ram_store addr bs m) addr n = bs"
  by (auto simp: ram_bytes_def ram_ram_store intro!: nth_equalityI)

lemma ram_bytes_store_other:
  assumes "unat b + n \<le> unat a \<or> unat a + length bs \<le> unat b"
    and "unat (ram_start m) \<le> unat a" and "unat (ram_start m) \<le> unat b"
  shows "ram_bytes (ram_store a bs m) b n = ram_bytes m b n"
  using assms by (auto simp: ram_bytes_def ram_ram_store) (auto simp: ram_off_def)

lemma ram_read_bytes:
  "ram_bounds m \<Longrightarrow> in_ram m addr n \<Longrightarrow>
   ram_read m (unat (addr - ram_start m)) n = Some (ram_bytes m addr n)"
  by (simp add: ram_read_def in_ram_off in_ram_alloc ram_bytes_def)

lemma ram_write_store:
  "ram_bounds m \<Longrightarrow> in_ram m addr (length bs) \<Longrightarrow>
   ram_write m (unat (addr - ram_start m)) bs = Some (ram_store addr bs m)"
  by (simp add: ram_write_def in_ram_off in_ram_alloc ram_store_def)

text \<open>The result of an access that only the PMP can refuse.\<close>

definition pmp_refuses :: "'d emu_machine \<Rightarrow> nat \<Rightarrow> u64 \<Rightarrow> u64 \<Rightarrow> rv_access \<Rightarrow> bool \<Rightarrow> bool" where
  "pmp_refuses m h addr sz mode ignore_pmp \<longleftrightarrow>
     \<not> ignore_pmp \<and> do_pmp_check (get_cpu m h) addr sz mode \<noteq> RV_MEM_OK"

lemma do_pmp_check_result: "do_pmp_check c a sz mode \<noteq> RV_MEM_OK \<Longrightarrow> do_pmp_check c a sz mode = RV_MEM_ACCESS_FAULT"
  by (auto simp: do_pmp_check_def Let_def split: if_splits)

lemma phys_ram_access:
  assumes "ram_bounds m" and "e \<le> 3" and "in_ram m addr (2 ^ unat e)" and "length data = 2 ^ unat e"
  shows "rv_access_phys env h addr data e mode ignore_pmp m =
    (if pmp_refuses m h addr (push_bit (unat e) 1) mode ignore_pmp then Some (RV_MEM_ACCESS_FAULT, data, m)
     else if mode = RV_ACCESS_STORE then Some (RV_MEM_OK, data, ram_store addr data m)
     else Some (RV_MEM_OK, ram_bytes m addr (2 ^ unat e), m))"
proof -
  have "in_ram m addr (unat (push_bit (unat e) 1 :: u64))"
    using assms(3) by (simp only: unat_size_exp [OF assms(2)])
  note g = in_ram_guard [OF this]
  have "\<not> e > 3" using assms(2) by simp
  with assms g show ?thesis
    by (simp add: rv_access_phys_def Let_def pmp_refuses_def do_pmp_check_result ram_access_def
        ram_read_bytes ram_write_store overwrite_full)
qed

lemma misaligned_done [simp]: "misaligned_access env addr data 0 mode m = Some (RV_MEM_OK, data, m)"
  by (subst misaligned_access.simps) simp

lemma ram_store_Nil [simp]: "ram_store addr [] m = m"
proof -
  have "(\<lambda>i. if x \<le> i \<and> i < x then y i else ram m i) = ram m" for x :: nat and y
    by (rule ext) auto
  then show ?thesis by (simp add: ram_store_def)
qed

text \<open>Inside RAM the loop body runs once.\<close>

lemma misaligned_in_ram:
  assumes "wf_machine m" and "in_ram m addr (unat sz)" and "sz \<noteq> 0"
  shows "misaligned_access env addr data sz mode m =
    (case data of
       None \<Rightarrow> Some (RV_MEM_OK, None, m)
     | Some buf \<Rightarrow>
         if unat sz \<le> length buf then
           if mode = RV_ACCESS_STORE
           then Some (RV_MEM_OK, Some buf, ram_store addr (take (unat sz) buf) m)
           else Some (RV_MEM_OK, Some (overwrite (ram_bytes m addr (unat sz)) buf), m)
         else None)"
proof -
  have g: "addr \<ge> ram_start m \<and> addr + sz \<le> ram_end m" by (rule in_ram_guard [OF assms(2)])
  have "0 < unat sz" using assms(3) by (simp add: unat_gt_0)
  then have "in_ram m addr (unat (1 :: u64))"
    using assms(2) by (auto simp: in_ram_def)
  then have "addr_in_ram m addr"
    using in_ram_guard [of m addr 1] by (simp add: addr_in_ram_def)
  moreover have "misaligned_ram_part m addr sz = sz"
    using g by (auto simp: misaligned_ram_part_def dest: leD)
  ultimately show ?thesis
    using assms
    by (subst misaligned_access.simps)
      (simp add: misaligned_ram_def Let_def ram_read_bytes ram_write_store split: option.split)
qed

lemma two_pass_in_ram:
  assumes "wf_machine m" and "in_ram m addr (unat sz)" and "length data = unat sz"
  shows "misaligned_two_pass env addr data sz mode m =
    (if mode = RV_ACCESS_STORE then Some (RV_MEM_OK, data, ram_store addr data m)
     else Some (RV_MEM_OK, ram_bytes m addr (unat sz), m))"
proof (cases "sz = 0")
  case True
  then show ?thesis using assms by (simp add: misaligned_two_pass_def ram_bytes_def)
next
  case False
  then show ?thesis
    using assms by (simp add: misaligned_two_pass_def misaligned_in_ram overwrite_full)
qed

text \<open>C1: what is stored in RAM is what is loaded. After a store of 1, 2, 4 or 8 bytes at any
  address of RAM, aligned or not, that the PMP lets through, a load of the same size at the
  address gives the bytes back, in data and instruction accesses alike, and every other range of
  RAM reads as before.\<close>
theorem phys_store_load:
  assumes "wf_machine m" and "e \<le> 3" and "in_ram m addr (2 ^ unat e)"
    and "length data = 2 ^ unat e" and "length buf = 2 ^ unat e"
    and "rv_access_phys env h addr data e RV_ACCESS_STORE ignore_pmp m = Some (RV_MEM_OK, data', m')"
    and "mode \<noteq> RV_ACCESS_STORE"
  shows "rv_access_phys env h addr buf e mode True m' = Some (RV_MEM_OK, data, m')
    \<and> (\<forall>b n. unat (ram_start m) \<le> unat b \<and> (unat b + n \<le> unat addr \<or> unat addr + 2 ^ unat e \<le> unat b)
         \<longrightarrow> ram_bytes m' b n = ram_bytes m b n)"
proof -
  from assms(6) have m': "m' = ram_store addr data m"
    unfolding phys_ram_access [OF wf_ram_bounds [OF assms(1)] assms(2-4)] by (auto split: if_splits)
  have "wf_machine m'" and "in_ram m' addr (2 ^ unat e)"
    using assms(1,3) by (simp_all add: m')
  from phys_ram_access [OF wf_ram_bounds [OF this(1)] assms(2) this(2) assms(5)]
  have "rv_access_phys env h addr buf e mode True m' = Some (RV_MEM_OK, data, m')"
    using assms(4,7) by (simp add: pmp_refuses_def m' ram_bytes_store)
  moreover have "ram_bytes m' b n = ram_bytes m b n"
    if "unat (ram_start m) \<le> unat b" "unat b + n \<le> unat addr \<or> unat addr + 2 ^ unat e \<le> unat b" for b n
    using that assms(3,4) unfolding m'
    by (intro ram_bytes_store_other) (auto simp: in_ram_def)
  ultimately show ?thesis by blast
qed

text \<open>The loop for misaligned accesses is the direct access. For bytes that all lie in RAM the
  two passes of a partial access of any length and alignment do what one host access does.\<close>
lemma phys_partial_is_direct:
  assumes "wf_machine m" and "in_ram m addr (unat sz)" and "length data = unat sz"
  shows "rv_access_phys_partial env h addr data sz mode True m =
    (if mode = RV_ACCESS_STORE then Some (RV_MEM_OK, data, ram_store addr data m)
     else Some (RV_MEM_OK, ram_bytes m addr (unat sz), m))"
  using assms by (simp add: rv_access_phys_partial_def two_pass_in_ram)

text \<open>An access whose end wraps passes the test against the end of RAM, and leaves the allocation.\<close>

lemma phys_access_wraps:
  assumes "wf_machine m" and "e \<le> 3" and "length data = 2 ^ unat e"
    and "ram_start m \<le> addr" and "8 \<le> ram_end m" and wrap: "2 ^ 64 \<le> unat addr + 2 ^ unat e"
  shows "rv_access_phys env h addr data e mode True m = None"
proof -
  define sz :: u64 where "sz = push_bit (unat e) 1"
  note sz = unat_size_exp [OF assms(2), folded sz_def]
  have "unat addr < 2 ^ LENGTH(64)" by (rule unsigned_less)
  then have "unat (addr + sz) = unat addr + 2 ^ unat e - 2 ^ 64" and "unat addr + 2 ^ unat e - 2 ^ 64 < 8"
    using wrap sz by (simp_all add: unat_word_ariths mod_if)
  moreover have "8 \<le> unat (ram_end m)" using assms(5) by (simp add: word_le_nat_alt)
  ultimately have "addr + sz \<le> ram_end m" by (simp add: word_le_nat_alt)
  moreover have "unat (ram_end m) < 2 ^ LENGTH(64)" by (rule unsigned_less)
  then have "\<not> unat (addr - ram_start m) + 2 ^ unat e \<le> ram_alloc m"
    using wf_ram_size [OF assms(1)] wrap assms(4) by (simp add: unat_sub word_le_nat_alt)
  ultimately show ?thesis
    using assms(2-4) unfolding sz_def
    by (simp add: rv_access_phys_def ram_access_def ram_write_def ram_read_def Let_def)
qed

section \<open>Accesses under the contract of the callbacks\<close>

text \<open>The invariant rule of the loop.\<close>

lemma misaligned_invariant:
  assumes "misaligned_access env addr data sz mode m = Some (res, data', m')" and "I data m"
    and ram: "\<And>addr part data m data' m'.
      misaligned_ram addr data part mode m = Some (data', m') \<Longrightarrow> I data m \<Longrightarrow> I data' m'"
    and dev: "\<And>r addr part data m res data' m'.
      mmio_dispatch env r addr data part mode m = Some (res, data', m') \<Longrightarrow> I data m \<Longrightarrow> I data' m'"
  shows "I data' m'"
  using assms(1,2)
proof (induction "unat sz" arbitrary: sz addr data m rule: less_induct)
  case less
  show ?case
  proof (cases "sz = 0")
    case True
    with less.prems show ?thesis by simp
  next
    case nz: False
    show ?thesis
    proof (cases "addr_in_ram m addr")
      case True
      let ?p = "misaligned_ram_part m addr sz"
      from less.prems(1) nz True obtain d x where
        part: "misaligned_ram addr data ?p mode m = Some (d, x)" and
        rest: "misaligned_access env (addr + ?p) d (sz - ?p) mode x = Some (res, data', m')"
        by (subst (asm) misaligned_access.simps) (auto simp: Let_def split: option.splits)
      have "unat (sz - ?p) < unat sz"
        using misaligned_ram_part_bounds [OF nz True] by (simp add: unat_sub_if')
      from less.hyps [OF this rest ram [OF part less.prems(2)]] show ?thesis .
    next
      case False
      show ?thesis
      proof (cases "find_mmio m addr")
        case None
        with less.prems nz False show ?thesis
          by (subst (asm) misaligned_access.simps) auto
      next
        case (Some r)
        let ?p = "mmio_region_part r addr sz"
        from less.prems(1) nz False Some obtain q d x where
          part: "mmio_dispatch env r addr data (ucast ?p) mode m = Some (q, d, x)" and
          rest: "q = RV_MEM_OK \<Longrightarrow>
            misaligned_access env (addr + ?p) d (sz - ?p) mode x = Some (res, data', m')" and
          stop: "q \<noteq> RV_MEM_OK \<Longrightarrow> data' = d \<and> m' = x"
          by (subst (asm) misaligned_access.simps)
            (auto simp: Let_def split: option.splits rv_mem_result.splits)
        note I = dev [OF part less.prems(2)]
        have "unat (sz - ?p) < unat sz"
          using mmio_region_part_bounds [OF nz Some] by (simp add: unat_sub_if')
        from less.hyps [OF this rest I] stop I show ?thesis by blast
      qed
    qed
  qed
qed

lemma ram_write_wf: "ram_write m off bs = Some m' \<Longrightarrow> wf_machine m \<Longrightarrow> wf_next m m'"
  by (auto simp: ram_write_def wf_next_def split: if_splits)

lemma misaligned_ram_wf:
  "misaligned_ram addr data part mode m = Some (data', m') \<Longrightarrow> wf_machine m \<Longrightarrow>
   wf_next m m' \<and> map_option length data' = map_option length data"
  by (auto simp: misaligned_ram_def Let_def ram_read_def wf_next_refl ram_write_wf
      split: option.splits if_splits bind_splits)

context emu_callbacks
begin

lemma dispatch_wf:
  assumes "mmio_dispatch env r addr data sz mode m = Some (res, data', m')" and "wf_machine m"
  shows "wf_next m m' \<and> map_option length data' = map_option length data"
  using assms
  by (auto simp: mmio_dispatch_def Let_def wf_next_refl intro: read_wf write_wf
      split: option.splits if_splits prod.splits)

lemma misaligned_wf:
  assumes "misaligned_access env addr data sz mode m = Some (res, data', m')" and "wf_machine m"
  shows "wf_next m m' \<and> map_option length data' = map_option length data"
proof (rule misaligned_invariant [OF assms(1), of "\<lambda>d x. wf_next m x \<and> map_option length d = map_option length data"])
  show "wf_next m m \<and> map_option length data = map_option length data"
    using assms(2) by (simp add: wf_next_refl)
qed (auto dest: misaligned_ram_wf dispatch_wf wf_nextD intro: wf_next_trans)

lemma two_pass_wf:
  assumes "misaligned_two_pass env addr data sz mode m = Some (res, data', m')" and "wf_machine m"
  shows "wf_next m m' \<and> length data' = length data"
proof -
  from assms(1) obtain q d x where one: "misaligned_access env addr None sz mode m = Some (q, d, x)"
    by (auto simp: misaligned_two_pass_def split: option.splits)
  note x = misaligned_wf [OF one assms(2)]
  show ?thesis
  proof (cases "q = RV_MEM_OK")
    case True
    with assms(1) one obtain d' where "misaligned_access env addr (Some data) sz mode x = Some (res, d', m')"
      and "data' = the d'"
      by (auto simp: misaligned_two_pass_def split: option.splits)
    moreover have "wf_machine x" using x by (auto dest: wf_nextD)
    ultimately show ?thesis
      using misaligned_wf [of addr "Some data" sz mode x res d' m'] x by (auto intro: wf_next_trans)
  next
    case False
    with assms(1) one x show ?thesis
      by (auto simp: misaligned_two_pass_def split: rv_mem_result.splits)
  qed
qed

lemma ram_access_wf:
  assumes "ram_access addr data e mode m = Some (res, data', m')" and "wf_machine m"
  shows "wf_next m m' \<and> length data' = length data"
  using assms
  by (auto simp: ram_access_def Let_def ram_read_def wf_next_refl ram_write_wf
      split: if_splits bind_splits)

lemma access_phys_wf:
  assumes "rv_access_phys env h addr data e mode ignore_pmp m = Some (res, data', m')"
    and "wf_machine m"
  shows "wf_next m m' \<and> length data' = length data"
proof -
  let ?sz = "push_bit (unat e) 1 :: u64"
  consider "data' = data" "m' = m" | "ram_access addr data e mode m = Some (res, data', m')"
    | "misaligned_two_pass env addr data ?sz mode m = Some (res, data', m')"
    | r d where "mmio_dispatch env r addr (Some data) (ucast ?sz) mode m = Some (res, d, m')"
        "data' = the d"
    using assms(1)
    by (auto simp: rv_access_phys_def Let_def split: if_splits option.splits)
  then show ?thesis
  proof cases
    case 4
    from dispatch_wf [OF this(1) assms(2)] 4(2) show ?thesis by auto
  qed (use assms(2) in \<open>auto simp: wf_next_refl dest: ram_access_wf two_pass_wf\<close>)
qed

lemma access_phys_partial_wf:
  assumes "rv_access_phys_partial env h addr data sz mode ignore_pmp m = Some (res, data', m')"
    and "wf_machine m"
  shows "wf_next m m' \<and> length data' = length data"
  using assms two_pass_wf
  by (auto simp: rv_access_phys_partial_def wf_next_refl split: if_splits)

text \<open>No access leaves the host's RAM if its end does not wrap.\<close>

lemma misaligned_ram_some:
  assumes "wf_machine m" and "addr_in_ram m addr" and "sz \<noteq> 0" and "unat addr + unat sz < 2 ^ 64"
    and "\<And>buf. data = Some buf \<Longrightarrow> unat sz \<le> length buf"
  shows "\<exists>d x. misaligned_ram addr data (misaligned_ram_part m addr sz) mode m = Some (d, x)"
proof -
  let ?p = "misaligned_ram_part m addr sz"
  have "unat (1 :: u64) \<le> unat sz" using assms(3) by (simp add: Suc_le_eq unat_gt_0)
  then have a: "unat (ram_start m) \<le> unat addr" "unat addr < unat (ram_end m)"
    using assms(2,4) by (auto simp: addr_in_ram_def word_le_nat_alt unat_word_ariths)
  have "in_ram m addr (unat ?p)"
    using a assms(4)
    by (auto simp: in_ram_def misaligned_ram_part_def word_less_nat_alt unat_word_ariths unat_sub_if')
  moreover have "unat ?p \<le> unat sz"
    using misaligned_ram_part_bounds [OF assms(3,2)] by simp
  ultimately show ?thesis
    using assms(1,5)
    by (cases data) (auto simp: misaligned_ram_def Let_def ram_read_bytes ram_write_store)
qed

lemma dispatch_some:
  assumes "unat sz \<le> 8" and "\<And>buf. data = Some buf \<Longrightarrow> unat sz \<le> length buf"
  shows "\<exists>res d x. mmio_dispatch env r addr data sz mode m = Some (res, d, x)"
  using assms by (cases data) (auto simp: mmio_dispatch_def Let_def split: prod.splits)

lemma misaligned_some:
  assumes "wf_machine m" and "unat addr + unat sz < 2 ^ 64" and "unat sz \<le> 8"
    and "\<And>buf. data = Some buf \<Longrightarrow> unat sz \<le> length buf"
  shows "\<exists>res d x. misaligned_access env addr data sz mode m = Some (res, d, x)"
  using assms
proof (induction "unat sz" arbitrary: sz addr data m rule: less_induct)
  case less
  have step: "unat (addr + p) + unat (sz - p) < 2 ^ 64" "unat (sz - p) < unat sz" "unat (sz - p) \<le> 8"
    if "0 < unat p" "unat p \<le> unat sz" for p :: u64
    using that less.prems(2,3) by (auto simp: unat_word_ariths unat_sub_if')
  show ?case
  proof (cases "sz = 0")
    case True
    then show ?thesis by simp
  next
    case nz: False
    show ?thesis
    proof (cases "addr_in_ram m addr")
      case True
      let ?p = "misaligned_ram_part m addr sz"
      note p = misaligned_ram_part_bounds [OF nz True]
      obtain d x where dx: "misaligned_ram addr data ?p mode m = Some (d, x)"
        using misaligned_ram_some [OF less.prems(1) True nz less.prems(2,4)] by blast
      note w = misaligned_ram_wf [OF dx less.prems(1)]
      have "unat (sz - ?p) \<le> length buf" if "d = Some buf" for buf
        using that w less.prems(4) step(2) [OF p] by (cases data) (auto intro: le_trans less_imp_le)
      with less.hyps [OF step(2) [OF p] _ step(1) [OF p] step(3) [OF p], of x d] w nz True dx
      show ?thesis
        by (subst misaligned_access.simps) (auto simp: Let_def dest: wf_nextD)
    next
      case False
      show ?thesis
      proof (cases "find_mmio m addr")
        case None
        then show ?thesis using nz False by (subst misaligned_access.simps) simp
      next
        case (Some r)
        let ?p = "mmio_region_part r addr sz"
        note p = mmio_region_part_bounds [OF nz Some]
        have u: "unat (ucast ?p :: u8) = unat ?p"
          using p less.prems(3) by (simp add: unsigned_ucast_eq take_bit_nat_eq_self)
        have "\<exists>res d x. mmio_dispatch env r addr data (ucast ?p) mode m = Some (res, d, x)"
          using p less.prems(3,4) by (intro dispatch_some) (auto simp: u intro: le_trans)
        then obtain q d x where dx: "mmio_dispatch env r addr data (ucast ?p) mode m = Some (q, d, x)"
          by blast
        note w = dispatch_wf [OF dx less.prems(1)]
        have "unat (sz - ?p) \<le> length buf" if "d = Some buf" for buf
          using that w less.prems(4) step(2) [OF p] by (cases data) (auto intro: le_trans less_imp_le)
        with less.hyps [OF step(2) [OF p] _ step(1) [OF p] step(3) [OF p], of x d] w nz False Some dx
        show ?thesis
          by (subst misaligned_access.simps)
            (auto simp: Let_def dest: wf_nextD split: rv_mem_result.split)
      qed
    qed
  qed
qed

lemma two_pass_some:
  assumes "wf_machine m" and "unat addr + unat sz < 2 ^ 64" and "unat sz \<le> 8" and "unat sz \<le> length data"
  shows "\<exists>res d x. misaligned_two_pass env addr data sz mode m = Some (res, d, x)"
proof -
  obtain q d x where one: "misaligned_access env addr None sz mode m = Some (q, d, x)"
    using misaligned_some [OF assms(1-3), of None mode] by auto
  have "wf_machine x" using misaligned_wf [OF one assms(1)] by (auto dest: wf_nextD)
  from misaligned_some [OF this assms(2,3), of "Some data" mode] assms(4) one
  show ?thesis by (auto simp: misaligned_two_pass_def split: rv_mem_result.split)
qed

lemma access_phys_some:
  assumes "wf_machine m" and "e \<le> 3" and "unat addr + 2 ^ unat e < 2 ^ 64" and "2 ^ unat e \<le> length data"
  shows "\<exists>res d x. rv_access_phys env h addr data e mode ignore_pmp m = Some (res, d, x)"
proof -
  let ?sz = "push_bit (unat e) 1 :: u64"
  note sz = unat_size_exp [OF assms(2)]
  have le: "unat addr + unat ?sz < 2 ^ 64" "unat ?sz \<le> 8" "unat ?sz \<le> length data"
    using assms(3,4) sz by simp_all
  have u: "unat (ucast ?sz :: u8) = unat ?sz"
    using le(2) by (simp add: unsigned_ucast_eq take_bit_nat_eq_self)
  show ?thesis
  proof (cases "addr \<ge> ram_start m \<and> addr + ?sz \<le> ram_end m")
    case True
    then have "in_ram m addr (2 ^ unat e)"
      using le(1) sz(1) by (simp add: in_ram_def word_le_nat_alt unat_word_ariths)
    moreover have "\<not> e > 3" using assms(2) by simp
    ultimately show ?thesis
      using assms(1,4) True unfolding rv_access_phys_def ram_access_def Let_def
      by (auto simp: ram_read_bytes ram_write_store)
  next
    case False
    have disp: "\<exists>y. map_option (\<lambda>(res, data', m). (res, the data', m))
        (mmio_dispatch env r addr (Some data) (ucast ?sz) mode m) = Some y" for r
      using dispatch_some [of "ucast ?sz" "Some data" r addr mode m]
      using le(2,3) unfolding u [symmetric] by auto
    from two_pass_some [OF assms(1) le, of mode] disp
    have "\<exists>y. rv_access_phys env h addr data e mode ignore_pmp m = Some y"
      using False unfolding rv_access_phys_def Let_def
      by (auto simp del: push_bit_of_1 split: option.split)
    then show ?thesis by simp
  qed
qed

lemma access_phys_partial_some:
  assumes "wf_machine m" and "unat addr + unat sz < 2 ^ 64" and "unat sz \<le> 8" and "unat sz \<le> length data"
  shows "\<exists>res d x. rv_access_phys_partial env h addr data sz mode ignore_pmp m = Some (res, d, x)"
  using two_pass_some [OF assms, of mode] by (auto simp: rv_access_phys_partial_def)

end

text \<open>The checking pass changes nothing.\<close>

lemma misaligned_probe:
  assumes "misaligned_access env addr None sz mode m = Some (res, data', m')"
  shows "data' = None \<and> m' = m"
  by (rule misaligned_invariant [OF assms, of "\<lambda>d x. d = None \<and> x = m"])
    (auto simp: misaligned_ram_def mmio_dispatch_def Let_def)

section \<open>A small machine\<close>

text \<open>One core, 256 bytes of RAM at 0x1000 and no devices, for the examples.\<close>

definition demo_machine :: "unit emu_machine" where
  "demo_machine =
     \<lparr>ram_start = 0x1000, ram_end = 0x1100, ram = (\<lambda>_. 0), ram_alloc = 0x100,
      trap_hook = replicate 32 None, cpus = [cpu_m],
      reservations = [\<lparr>res_addr = 0, res_valid = False\<rparr>], mmio = [], clint = None, devs = (),
      host_ns = 0, host_frm = (\<lambda>_. FE_TONEAREST)\<rparr>"

definition demo_env :: "unit emu_env" where
  "demo_env =
     \<lparr>mmio_read_fn = (\<lambda>_ _ _ m. (False, 0, m)), mmio_write_fn = (\<lambda>_ _ _ _ m. (False, m)),
      trap_hook_fn = (\<lambda>_ _ _ m. (True, m))\<rparr>"

lemma demo_machine_fields [simp]:
  "ram_start demo_machine = 0x1000" "ram_end demo_machine = 0x1100" "ram demo_machine = (\<lambda>_. 0)"
  "ram_alloc demo_machine = 0x100" "trap_hook demo_machine = replicate 32 None"
  "cpus demo_machine = [cpu_m]" "mmio demo_machine = []" "clint demo_machine = None"
  "reservations demo_machine = [\<lparr>res_addr = 0, res_valid = False\<rparr>]"
  by (simp_all add: demo_machine_def)

lemma wf_demo_machine [simp]: "wf_machine demo_machine"
  by (simp add: wf_machine_def list_all_iff cpu_m_alt)
    (simp flip: cpu_m_alt)

lemma phys_store_load_witness:
  "\<exists>m'. rv_access_phys demo_env 0 0x1003 [1, 2, 3, 4] 2 RV_ACCESS_STORE True demo_machine
      = Some (RV_MEM_OK, [1, 2, 3, 4], m')
    \<and> rv_access_phys demo_env 0 0x1003 [0, 0, 0, 0] 2 RV_ACCESS_LOAD True m'
      = Some (RV_MEM_OK, [1, 2, 3, 4], m')"
proof -
  have ram: "in_ram demo_machine 0x1003 (2 ^ unat (2 :: u8))"
    unfolding in_ram_def by simp
  then have ram4: "in_ram demo_machine 0x1003 4" by simp
  have st: "rv_access_phys demo_env 0 0x1003 [1, 2, 3, 4] 2 RV_ACCESS_STORE True demo_machine
      = Some (RV_MEM_OK, [1, 2, 3, 4], ram_store 0x1003 [1, 2, 3, 4] demo_machine)"
    by (subst phys_ram_access) (simp_all add: ram4 pmp_refuses_def)
  from phys_store_load [OF wf_demo_machine _ ram _ _ st, of "[0, 0, 0, 0]" RV_ACCESS_LOAD] st
  show ?thesis by auto
qed

lemma phys_partial_is_direct_witness:
  "rv_access_phys_partial demo_env 0 0x1001 [7, 8, 9] 3 RV_ACCESS_STORE True demo_machine
    = Some (RV_MEM_OK, [7, 8, 9], ram_store 0x1001 [7, 8, 9] demo_machine)"
  using phys_partial_is_direct [of demo_machine "0x1001" 3 "[7, 8, 9]" demo_env 0 RV_ACCESS_STORE]
  by (simp add: in_ram_def)

interpretation demo: emu_callbacks demo_env
  by unfold_locales (auto simp: demo_env_def wf_next_refl)

text \<open>C10: an access leaves the RAM allocation of the host exactly if its end wraps. Whatever the
  devices do within their contract, at an address not below RAM an access of 1, 2, 4 or 8 bytes with
  a buffer of its size is \<open>None\<close>, the out-of-bounds host access, if and only if the sum of address and
  size exceeds 64 bits; this sum passes the test against the end of RAM. Every other access has a result.\<close>
theorem phys_access_escapes_iff_wraps:
  assumes "emu_callbacks env" and "wf_machine m" and "e \<le> 3" and "length data = 2 ^ unat e"
    and "ram_start m \<le> addr" and "8 \<le> ram_end m"
  shows "rv_access_phys env h addr data e mode True m = None \<longleftrightarrow> 2 ^ 64 \<le> unat addr + 2 ^ unat e"
  using emu_callbacks.access_phys_some [OF assms(1-3), of addr data h mode True] assms(4)
    phys_access_wraps [OF assms(2-6), of env h mode]
  by (cases "2 ^ 64 \<le> unat addr + (2 :: nat) ^ unat e") auto

lemma phys_access_escapes_iff_wraps_witness:
  "rv_access_phys demo_env 0 0xFFFFFFFFFFFFFFFF [0] 0 RV_ACCESS_LOAD True demo_machine = None
    \<and> rv_access_phys demo_env 0 0xFFFFFFFFFFFFFFFE [0] 0 RV_ACCESS_LOAD True demo_machine \<noteq> None"
  using phys_access_escapes_iff_wraps [OF demo.emu_callbacks_axioms wf_demo_machine, of 0 "[0]" "0xFFFFFFFFFFFFFFFF" 0 RV_ACCESS_LOAD]
    phys_access_escapes_iff_wraps [OF demo.emu_callbacks_axioms wf_demo_machine, of 0 "[0]" "0xFFFFFFFFFFFFFFFE" 0 RV_ACCESS_LOAD]
  by simp

end
