(* ===== verification/RV_Paging.thy ===== *)
theory RV_Paging
  imports RV_Memory
begin

text \<open>
  Sv39 virtual memory, \<open>cpu/rv_paging.c\<close>: the page-table walk, the lookup through the TLB
  and the accesses at a virtual address. \<open>out\<close> is the C out-parameter: the entry before and
  after the call. The walk is compared with a reference walk on natural numbers.
\<close>

section \<open>Constants\<close>

abbreviation "RV_PTE_V_BIT \<equiv> (0 :: nat)"
abbreviation "RV_PTE_R_BIT \<equiv> (1 :: nat)"
abbreviation "RV_PTE_W_BIT \<equiv> (2 :: nat)"
abbreviation "RV_PTE_X_BIT \<equiv> (3 :: nat)"
abbreviation "RV_PTE_U_BIT \<equiv> (4 :: nat)"
abbreviation "RV_PTE_G_BIT \<equiv> (5 :: nat)"
abbreviation "RV_PTE_A_BIT \<equiv> (6 :: nat)"
abbreviation "RV_PTE_D_BIT \<equiv> (7 :: nat)"
abbreviation "RV_PTE_PPN_BASE_BIT \<equiv> (10 :: nat)"
abbreviation "RV_PTE_RWX_MASK \<equiv> (0x1E :: u64)"
abbreviation "RV_PTE_PPN_MASK \<equiv> (0x003ffffffffffc00 :: u64)"

section \<open>The walk\<close>

definition check_access :: "rv_cpu \<Rightarrow> rv_tlb_entry \<Rightarrow> rv_access \<Rightarrow> rv_mem_result" where
  "check_access cpu entry mode =
     (let user_pte = bit (pte entry) RV_PTE_U_BIT;
          sum = bit (mstatus (csr cpu)) RV_STATUS_SUM_BIT;
          perm = (\<lambda>pte_bit pmp_bit.
            if \<not> bit (pte entry) pte_bit then RV_MEM_PAGE_FAULT
            else if \<not> bit (vma entry) pmp_bit then RV_MEM_ACCESS_FAULT
            else RV_MEM_OK)
      in if mem_privilege cpu = 0 \<and> \<not> user_pte then RV_MEM_PAGE_FAULT
         else if mem_privilege cpu \<noteq> 0 \<and> user_pte \<and> \<not> sum then RV_MEM_PAGE_FAULT
         else
           (case mode of
              RV_ACCESS_INSN \<Rightarrow> perm RV_PTE_X_BIT RV_PMPCFG_X_BIT
            | RV_ACCESS_LOAD \<Rightarrow> perm RV_PTE_R_BIT RV_PMPCFG_R_BIT
            | RV_ACCESS_AMO \<Rightarrow> perm RV_PTE_W_BIT RV_PMPCFG_W_BIT
            | RV_ACCESS_STORE \<Rightarrow> perm RV_PTE_W_BIT RV_PMPCFG_W_BIT))"

text \<open>\<open>setfl\<close>: the accessed flag, and the dirty flag for an access that may write.\<close>

definition pte_setfl :: "rv_access \<Rightarrow> u64" where
  "pte_setfl mode =
     (if mode = RV_ACCESS_AMO \<or> mode = RV_ACCESS_STORE
      then push_bit RV_PTE_A_BIT 1 OR push_bit RV_PTE_D_BIT 1 else push_bit RV_PTE_A_BIT 1)"

definition satp_asid :: "rv_cpu \<Rightarrow> u64" where
  "satp_asid cpu = drop_bit RV_SATP_ASID_BASE_BIT (satp (csr cpu) AND RV_SATP_ASID_MASK)"

definition pte_ppn :: "u64 \<Rightarrow> u64" where
  "pte_ppn p = drop_bit RV_PTE_PPN_BASE_BIT (p AND RV_PTE_PPN_MASK)"

text \<open>The branch of the loop for a leaf entry \<open>p\<close> that was read from \<open>pte_paddr\<close>.\<close>

definition paging_leaf ::
  "'d emu_env \<Rightarrow> nat \<Rightarrow> u64 \<Rightarrow> rv_tlb_entry \<Rightarrow> rv_access \<Rightarrow> u64 \<Rightarrow> nat \<Rightarrow> u64 \<Rightarrow> u8 \<Rightarrow> u64 \<Rightarrow>
   'd emu_machine \<Rightarrow> (rv_mem_result \<times> rv_tlb_entry \<times> 'd emu_machine) option" where
  "paging_leaf env h vaddr out mode asid level pte_paddr pte_pmp p m =
     (let cpu = get_cpu m h;
          next_ppn = pte_ppn p;
          align_mask = push_bit (9 * level) 1 - 1;
          setfl = pte_setfl mode
      in if next_ppn AND align_mask \<noteq> 0 then Some (RV_MEM_PAGE_FAULT, out, m)
         else
           let next_pmp = rv_pmp_check cpu (next_ppn * RV_CPU_PAGE_SIZE) RV_CPU_PAGE_SIZE False;
               superpage_offset = drop_bit RV_CPU_PAGE_SIZE_EXP vaddr AND align_mask;
               entry =
                 \<lparr>vma = push_bit RV_TLB_ASID_BASE_BIT asid OR (vaddr AND RV_TLB_VPN_MASK)
                    OR ucast next_pmp,
                  pte = p OR push_bit RV_PTE_PPN_BASE_BIT superpage_offset\<rparr>;
               res = check_access cpu entry mode
           in if res \<noteq> RV_MEM_OK then Some (res, out, m)
              else if p AND setfl = setfl then Some (RV_MEM_OK, entry, m)
              else if \<not> bit pte_pmp RV_PMPCFG_W_BIT then Some (RV_MEM_ACCESS_FAULT, out, m)
              else
                do {
                  (res, _, m) \<leftarrow> rv_access_phys env h pte_paddr (le_bytes 8 (p OR setfl)) 3
                    RV_ACCESS_STORE True m;
                  (if res \<noteq> RV_MEM_OK then Some (res, out, m)
                   else Some (RV_MEM_OK, entry\<lparr>pte := pte entry OR setfl\<rparr>, m))
                })"

fun paging_walk ::
  "'d emu_env \<Rightarrow> nat \<Rightarrow> u64 \<Rightarrow> rv_tlb_entry \<Rightarrow> rv_access \<Rightarrow> u64 \<Rightarrow> u64 \<Rightarrow> nat list \<Rightarrow>
   'd emu_machine \<Rightarrow> (rv_mem_result \<times> rv_tlb_entry \<times> 'd emu_machine) option" where
  "paging_walk env h vaddr out mode asid ppn [] m = Some (RV_MEM_PAGE_FAULT, out, m)"
| "paging_walk env h vaddr out mode asid ppn (level # levels) m =
     (let vpn = vaddr div RV_CPU_PAGE_SIZE;
          vpn_part = drop_bit (9 * level) vpn AND 0x1ff;
          pte_paddr = ppn * RV_CPU_PAGE_SIZE + vpn_part * 8;
          pte_pmp = rv_pmp_check (get_cpu m h) pte_paddr 8 False
      in if \<not> bit pte_pmp RV_PMPCFG_R_BIT then Some (RV_MEM_ACCESS_FAULT, out, m)
         else
           do {
             (res, data, m) \<leftarrow> rv_access_phys env h pte_paddr (replicate 8 0) 3 RV_ACCESS_LOAD True m;
             (let p = le_word data in
              if res \<noteq> RV_MEM_OK then Some (res, out, m)
              else if \<not> bit p RV_PTE_V_BIT then Some (RV_MEM_PAGE_FAULT, out, m)
              else if p AND RV_PTE_RWX_MASK \<noteq> 0
              then paging_leaf env h vaddr out mode asid level pte_paddr pte_pmp p m
              else paging_walk env h vaddr out mode asid (pte_ppn p) levels m)
           })"

definition rv_paging_raw_lookup ::
  "'d emu_env \<Rightarrow> nat \<Rightarrow> u64 \<Rightarrow> rv_tlb_entry \<Rightarrow> rv_access \<Rightarrow> 'd emu_machine \<Rightarrow>
   (rv_mem_result \<times> rv_tlb_entry \<times> 'd emu_machine) option" where
  "rv_paging_raw_lookup env h vaddr out mode m =
     (let cpu = get_cpu m h
      in paging_walk env h vaddr out mode (satp_asid cpu) (satp (csr cpu) AND RV_SATP_PPN_MASK)
           [2, 1, 0] m)"

section \<open>The lookup through the TLB\<close>

text \<open>The search loop ends with a hit, with an entry whose flags are stale, or with a miss.\<close>

datatype tlb_probe = Probe_Hit rv_tlb_entry | Probe_Stale nat | Probe_Miss

definition tlb_match :: "rv_cpu \<Rightarrow> u64 \<Rightarrow> rv_tlb_entry \<Rightarrow> bool" where
  "tlb_match cpu vaddr e \<longleftrightarrow>
     vma e AND RV_TLB_VPN_MASK = vaddr AND RV_TLB_VPN_MASK
     \<and> (bit (pte e) RV_PTE_G_BIT \<or> vma_asid (vma e) = ucast (satp_asid cpu))"

fun tlb_search :: "rv_cpu \<Rightarrow> u64 \<Rightarrow> u64 \<Rightarrow> nat list \<Rightarrow> tlb_probe" where
  "tlb_search cpu vaddr setfl [] = Probe_Miss"
| "tlb_search cpu vaddr setfl (col # cols) =
     (let e = tlb_entry_at cpu (tlb_row vaddr) col
      in if \<not> tlb_is_valid cpu (tlb_row vaddr) col then tlb_search cpu vaddr setfl cols
         else if tlb_match cpu vaddr e then
           if pte e AND setfl = setfl then Probe_Hit e else Probe_Stale col
         else tlb_search cpu vaddr setfl cols)"

definition tlb_put_entry :: "nat \<Rightarrow> rv_tlb_entry \<Rightarrow> rv_cpu \<Rightarrow> rv_cpu" where
  "tlb_put_entry i e cpu = cpu\<lparr>tlb := (tlb cpu)\<lparr>tlb_entries := (tlb_entries (tlb cpu))[i := e]\<rparr>\<rparr>"

text \<open>Insertion: the first invalid column, else the one \<open>next_column\<close> names.\<close>

definition tlb_fill :: "nat \<Rightarrow> rv_tlb_entry \<Rightarrow> rv_cpu \<Rightarrow> rv_cpu option" where
  "tlb_fill row e cpu =
     (case find (\<lambda>col. \<not> tlb_is_valid cpu row col) [0..<RV_TLB_COLUMNS] of
        Some col \<Rightarrow> Some (tlb_set_valid row col (tlb_put_entry (row * RV_TLB_COLUMNS + col) e cpu))
      | None \<Rightarrow>
          let i = row * RV_TLB_COLUMNS + unat (next_column (tlb cpu))
          in if i < RV_TLB_COLUMNS * RV_TLB_ROWS
             then let cpu = tlb_put_entry i e cpu
                  in Some (cpu\<lparr>tlb := (tlb cpu)\<lparr>next_column := next_column (tlb cpu) + 1\<rparr>\<rparr>)
             else None)"

text \<open>The second half of the lookup: walk the page table and insert what it found.\<close>

definition paging_miss ::
  "'d emu_env \<Rightarrow> nat \<Rightarrow> u64 \<Rightarrow> rv_tlb_entry \<Rightarrow> rv_access \<Rightarrow> 'd emu_machine \<Rightarrow>
   (rv_mem_result \<times> rv_tlb_entry \<times> 'd emu_machine) option" where
  "paging_miss env h vaddr out mode m =
     do {
       (res, out, m) \<leftarrow> rv_paging_raw_lookup env h vaddr out mode m;
       (if res \<noteq> RV_MEM_OK then Some (res, out, m)
        else if \<not> bit (pte out) RV_PTE_V_BIT then Some (RV_MEM_OK, out, m)
        else do {
          cpu \<leftarrow> tlb_fill (tlb_row vaddr) out (get_cpu m h);
          Some (RV_MEM_OK, out, put_cpu h cpu m)
        })
     }"

definition rv_paging_lookup ::
  "'d emu_env \<Rightarrow> nat \<Rightarrow> u64 \<Rightarrow> rv_tlb_entry \<Rightarrow> rv_access \<Rightarrow> 'd emu_machine \<Rightarrow>
   (rv_mem_result \<times> rv_tlb_entry \<times> 'd emu_machine) option" where
  "rv_paging_lookup env h vaddr out mode m =
     (case tlb_search (get_cpu m h) vaddr (pte_setfl mode) [0..<RV_TLB_COLUMNS] of
        Probe_Hit e \<Rightarrow> Some (RV_MEM_OK, e, m)
      | Probe_Stale col \<Rightarrow>
          paging_miss env h vaddr out mode
            (put_cpu h (tlb_clear_valid (tlb_row vaddr) col (get_cpu m h)) m)
      | Probe_Miss \<Rightarrow> paging_miss env h vaddr out mode m)"

section \<open>Access at a virtual address\<close>

definition entry_paddr :: "rv_tlb_entry \<Rightarrow> u64 \<Rightarrow> u64" where
  "entry_paddr e vaddr =
     push_bit RV_CPU_PAGE_SIZE_EXP (pte_ppn (pte e)) OR (vaddr mod RV_CPU_PAGE_SIZE)"

abbreviation "no_entry \<equiv> \<lparr>vma = 0, pte = 0\<rparr>"

definition rv_access_virt_pageboundary ::
  "'d emu_env \<Rightarrow> nat \<Rightarrow> u64 \<Rightarrow> u8 list \<Rightarrow> u8 \<Rightarrow> rv_access \<Rightarrow> 'd emu_machine \<Rightarrow>
   (rv_mem_result \<times> u8 list \<times> 'd emu_machine) option" where
  "rv_access_virt_pageboundary env h vaddr data size_exp mode m =
     (let sz = push_bit (unat size_exp) 1;
          vaddr1 = (vaddr div RV_CPU_PAGE_SIZE + 1) * RV_CPU_PAGE_SIZE;
          size0 = vaddr1 - vaddr;
          size1 = vaddr + sz - vaddr1
      in if \<not> rv_is_canon_vaddr (get_cpu m h) vaddr1 then Some (RV_MEM_PAGE_FAULT, data, m)
         else
           do {
             (res, result0, m) \<leftarrow> rv_paging_lookup env h vaddr no_entry mode m;
             (if res \<noteq> RV_MEM_OK then Some (res, data, m)
              else do {
                (res, result1, m) \<leftarrow> rv_paging_lookup env h vaddr1 no_entry mode m;
                (if res \<noteq> RV_MEM_OK then Some (res, data, m)
                 else do {
                   (res, data, m) \<leftarrow> rv_access_phys_partial env h (entry_paddr result0 vaddr) data size0
                     mode True m;
                   (if res \<noteq> RV_MEM_OK then Some (res, data, m)
                    else do {
                      (res, rest, m) \<leftarrow> rv_access_phys_partial env h (entry_paddr result1 vaddr1)
                        (drop (unat size0) data) size1 mode True m;
                      Some (res, take (unat size0) data @ rest, m)
                    })
                 })
              })
           })"

definition rv_access_virt ::
  "'d emu_env \<Rightarrow> nat \<Rightarrow> u64 \<Rightarrow> u8 list \<Rightarrow> u8 \<Rightarrow> rv_access \<Rightarrow> 'd emu_machine \<Rightarrow>
   (rv_mem_result \<times> u8 list \<times> 'd emu_machine) option" where
  "rv_access_virt env h vaddr data size_exp mode m =
     (let cpu = get_cpu m h;
          eff_priv = (if mode = RV_ACCESS_INSN then privilege cpu else mem_privilege cpu)
      in if eff_priv = 3
            \<or> drop_bit RV_SATP_MODE_BASE_BIT (satp (csr cpu) AND RV_SATP_MODE_MASK) = 0
         then rv_access_phys env h vaddr data size_exp mode False m
         else if \<not> rv_is_canon_vaddr cpu vaddr then Some (RV_MEM_PAGE_FAULT, data, m)
         else
           let sz = push_bit (unat size_exp) 1;
               vaddr1 = vaddr + sz - 1
           in if vaddr div RV_CPU_PAGE_SIZE \<noteq> vaddr1 div RV_CPU_PAGE_SIZE
              then rv_access_virt_pageboundary env h vaddr data size_exp mode m
              else
                do {
                  (res, result, m) \<leftarrow> rv_paging_lookup env h vaddr no_entry mode m;
                  (if res \<noteq> RV_MEM_OK then Some (res, data, m)
                   else rv_access_phys env h (entry_paddr result vaddr) data size_exp mode True m)
                })"

section \<open>The invariant\<close>

lemma keeps_tlb:
  assumes "c' = c\<lparr>tlb := t\<rparr>" and "wf_tlb (tlb c) \<Longrightarrow> wf_tlb t"
  shows "keeps c c'"
  using assms by (simp add: keeps_def wf_cpu_def rv_sync_mem_privilege_def)

lemma keeps_tlb_fill: "tlb_fill row e c = Some c' \<Longrightarrow> keeps c c'"
  by (auto simp: tlb_fill_def tlb_put_entry_def tlb_set_valid_def Let_def wf_tlb_def
      split: option.splits if_splits intro!: keeps_tlb [OF refl])

lemma keeps_tlb_clear: "keeps c (tlb_clear_valid row col c)"
  unfolding tlb_clear_valid_def by (rule keeps_tlb [OF refl]) (simp add: wf_tlb_def)

context emu_callbacks
begin

lemma stays_access_phys [stays_rules]:
  "wf_next m x \<Longrightarrow> stays3 m (rv_access_phys env h addr data e mode ignore_pmp x)"
  by (rule stays3_via) (auto simp: stays3_def dest: access_phys_wf)

lemma stays_access_phys_partial [stays_rules]:
  "wf_next m x \<Longrightarrow> stays3 m (rv_access_phys_partial env h addr data sz mode ignore_pmp x)"
  by (rule stays3_via) (auto simp: stays3_def dest: access_phys_partial_wf)

lemma stays_paging_leaf [stays_rules]:
  "wf_next m x \<Longrightarrow> stays3 m (paging_leaf env h va out mode asid level a pmp p x)"
  unfolding paging_leaf_def Let_def by (intro stays_rules)

lemma stays_paging_walk [stays_rules]:
  "wf_next m x \<Longrightarrow> stays3 m (paging_walk env h va out mode asid ppn levels x)"
proof (induction levels arbitrary: ppn x)
  case (Cons level levels)
  then show ?case by (simp only: paging_walk.simps Let_def) (intro stays_rules Cons.IH)
qed (simp add: stays3_def)

lemma stays_raw_lookup [stays_rules]:
  "wf_next m x \<Longrightarrow> stays3 m (rv_paging_raw_lookup env h va out mode x)"
  unfolding rv_paging_raw_lookup_def Let_def by (intro stays_rules)

lemma stays_paging_miss [stays_rules]:
  "wf_next m x \<Longrightarrow> stays3 m (paging_miss env h va out mode x)"
  unfolding paging_miss_def
  by (intro stays_rules stays_pure) (auto intro: keeps_tlb_fill)

lemma stays_lookup [stays_rules]:
  "wf_next m x \<Longrightarrow> stays3 m (rv_paging_lookup env h va out mode x)"
  unfolding rv_paging_lookup_def
  by (cases "tlb_search (get_cpu x h) va (pte_setfl mode) [0..<RV_TLB_COLUMNS]"; 
      simp only: tlb_probe.case; (intro stays_rules keeps_tlb_clear)?)

lemma stays_pageboundary [stays_rules]:
  "wf_next m x \<Longrightarrow> stays3 m (rv_access_virt_pageboundary env h va data e mode x)"
  unfolding rv_access_virt_pageboundary_def Let_def by (intro stays_rules)

lemma stays_access_virt [stays_rules]:
  "wf_next m x \<Longrightarrow> stays3 m (rv_access_virt env h va data e mode x)"
  unfolding rv_access_virt_def Let_def by (intro stays_rules)

end

section \<open>The reference walk\<close>

text \<open>
  Sv39 as the privileged specification describes it, on natural numbers: \<open>base\<close> is the address
  of the table, \<open>vpn\<close> the virtual page number, 512 entries of 8 bytes per table. The walk ends
  at a leaf, in a fault, at an entry the PMP hides, or outside RAM.
\<close>

datatype sv39_result = Sv39_Leaf nat u64 u64 | Sv39_Fault | Sv39_Denied | Sv39_Outside

definition pte_at :: "'d emu_machine \<Rightarrow> u64 \<Rightarrow> u64" where
  "pte_at m a = le_word (ram_bytes m a 8)"

definition ppn_of :: "u64 \<Rightarrow> nat" where
  "ppn_of p = unat p div 2 ^ 10 mod 2 ^ 44"

fun sv39_walk :: "'d emu_machine \<Rightarrow> rv_cpu \<Rightarrow> nat \<Rightarrow> nat \<Rightarrow> nat list \<Rightarrow> sv39_result" where
  "sv39_walk m c vpn base [] = Sv39_Fault"
| "sv39_walk m c vpn base (l # ls) =
     (let n = base + 8 * (vpn div 512 ^ l mod 512); a = of_nat n; p = pte_at m a
      in if \<not> bit (rv_pmp_check c a 8 False) RV_PMPCFG_R_BIT then Sv39_Denied
         else if \<not> in_ram m a 8 then Sv39_Outside
         else if even (unat p) then Sv39_Fault
         else if \<exists>i\<in>{1..4}. bit p i then Sv39_Leaf l a p
         else sv39_walk m c vpn (4096 * ppn_of p) ls)"

definition sv39_root :: "rv_cpu \<Rightarrow> nat" where
  "sv39_root c = 4096 * (unat (satp (csr c)) mod 2 ^ 44)"

text \<open>The physical address for a leaf at level \<open>l\<close>: a page of \<open>512 ^ l\<close> small pages.\<close>

definition sv39_paddr :: "nat \<Rightarrow> u64 \<Rightarrow> u64 \<Rightarrow> nat" where
  "sv39_paddr l p va = 4096 * ppn_of p + unat va mod (4096 * 512 ^ l)"

definition sv39_permits :: "rv_cpu \<Rightarrow> u64 \<Rightarrow> rv_access \<Rightarrow> bool" where
  "sv39_permits c p mode \<longleftrightarrow>
     (if mem_privilege c = 0 then bit p 4 else bit p 4 \<longrightarrow> bit (mstatus (csr c)) 18)
     \<and> (case mode of RV_ACCESS_INSN \<Rightarrow> bit p 3 | RV_ACCESS_LOAD \<Rightarrow> bit p 1 | _ \<Rightarrow> bit p 2)"

definition pmp_permits :: "u8 \<Rightarrow> rv_access \<Rightarrow> bool" where
  "pmp_permits b mode \<longleftrightarrow>
     (case mode of RV_ACCESS_INSN \<Rightarrow> bit b 2 | RV_ACCESS_LOAD \<Rightarrow> bit b 0 | _ \<Rightarrow> bit b 1)"

lemma unat_bits_div_mod:
  fixes x :: "'a::len word"
  shows "unat (drop_bit n x) = unat x div 2 ^ n" and "unat (take_bit n x) = unat x mod 2 ^ n"
proof -
  have "unat (drop_bit n x) = drop_bit n (unat x)" by (rule unat_drop_bit_eq)
  then show "unat (drop_bit n x) = unat x div 2 ^ n" by (simp only: drop_bit_eq_div [of n "unat x"])
  have "unat (take_bit n x) = take_bit n (unat x)" by (rule unsigned_take_bit_eq)
  then show "unat (take_bit n x) = unat x mod 2 ^ n" by (simp only: take_bit_eq_mod [of n "unat x"])
qed

lemma unat_pte_ppn: "unat (pte_ppn p) = ppn_of p"
proof -
  have "pte_ppn p = take_bit 44 (drop_bit 10 p)"
    unfolding pte_ppn_def by (rule bit_word_eqI) (auto simp: bit_simps mask_bits)
  then show ?thesis by (simp only: ppn_of_def unat_bits_div_mod)
qed

lemma ppn_of_less: "ppn_of p < 2 ^ 44"
  by (simp add: ppn_of_def)

lemma satp_root: "4096 * unat (satp (csr c) AND RV_SATP_PPN_MASK) = sv39_root c"
proof -
  have "satp (csr c) AND RV_SATP_PPN_MASK = take_bit 44 (satp (csr c))"
    by (rule bit_word_eqI) (auto simp: bit_simps mask_bits)
  then show ?thesis by (simp only: sv39_root_def unat_bits_div_mod)
qed

lemma pte_address:
  fixes ppn va :: u64
  assumes "unat ppn < 2 ^ 44"
  shows "ppn * RV_CPU_PAGE_SIZE + (drop_bit (9 * l) (va div RV_CPU_PAGE_SIZE) AND 0x1ff) * 8
    = of_nat (4096 * unat ppn + 8 * (unat va div 4096 div 512 ^ l mod 512))"
proof -
  have "unat (drop_bit (9 * l) (va div RV_CPU_PAGE_SIZE) AND 0x1ff)
      = unat va div 4096 div 512 ^ l mod 512"
    by (simp add: and_low_mask(9) unat_bits_div_mod power_mult unat_div)
  then have "drop_bit (9 * l) (va div RV_CPU_PAGE_SIZE) AND 0x1ff
      = of_nat (unat va div 4096 div 512 ^ l mod 512)"
    by (simp only: word_unat_eq_iff unat_of_nat) simp
  then show ?thesis by (simp add: mult.commute)
qed

lemma rwx_mask: "p AND RV_PTE_RWX_MASK \<noteq> 0 \<longleftrightarrow> (\<exists>i\<in>{1..4}. bit p i)" for p :: u64
proof -
  have m: "bit (0x1E :: int) n \<longleftrightarrow> 1 \<le> n \<and> n < 5" for n
    by (subst bit_mask_range [of _ 1 4]) (auto simp: mask_eq_exp_minus_1)
  have "p AND RV_PTE_RWX_MASK \<noteq> 0 \<longleftrightarrow> (\<exists>i. bit (p AND RV_PTE_RWX_MASK) i)"
    by (auto intro!: bit_word_eqI)
  also have "\<dots> \<longleftrightarrow> (\<exists>i\<in>{1..4}. bit p i)"
    by (auto simp: bit_simps m dest: bit_imp_le_length)
  finally show ?thesis .
qed

lemma pte_load:
  assumes "wf_machine m" and "in_ram m a 8"
  shows "rv_access_phys env h a (replicate 8 0) 3 RV_ACCESS_LOAD True m
    = Some (RV_MEM_OK, ram_bytes m a 8, m)"
  using phys_ram_access [of m 3 a "replicate 8 0"] assms by (simp add: pmp_refuses_def)

lemma paging_walk_reference:
  assumes "wf_machine m" and "unat ppn < 2 ^ 44"
    and "sv39_walk m (get_cpu m h) (unat va div 4096) (4096 * unat ppn) levels = w" and "w \<noteq> Sv39_Outside"
  shows "paging_walk env h va out mode asid ppn levels m =
    (case w of
       Sv39_Denied \<Rightarrow> Some (RV_MEM_ACCESS_FAULT, out, m)
     | Sv39_Leaf l a p \<Rightarrow>
         paging_leaf env h va out mode asid l a (rv_pmp_check (get_cpu m h) a 8 False) p m
     | _ \<Rightarrow> Some (RV_MEM_PAGE_FAULT, out, m))"
  using assms(2-)
proof (induction levels arbitrary: ppn)
  case Nil
  then show ?case by auto
next
  case (Cons l ls)
  define a where "a = (of_nat (4096 * unat ppn + 8 * (unat va div 4096 div 512 ^ l mod 512)) :: u64)"
  note addr = pte_address [OF Cons.prems(1), of l va, folded a_def]
  note w = Cons.prems(2) [unfolded sv39_walk.simps Let_def a_def [symmetric]]
  show ?case
  proof (cases "bit (rv_pmp_check (get_cpu m h) a 8 False) RV_PMPCFG_R_BIT")
    case False
    with w show ?thesis by (auto simp: addr Let_def)
  next
    case R: True
    with w Cons.prems(3) have ram: "in_ram m a 8" by (auto split: if_splits)
    note ld = pte_load [OF assms(1) ram, of env h, folded]
    have v: "bit p 0 \<longleftrightarrow> odd (unat p)" for p :: u64
      using bit_unsigned_iff [of p 0, where ?'a = nat] by (simp add: bit_0)
    have nxt: "unat (pte_ppn p) < 2 ^ 44" for p
      using ppn_of_less [of p] by (simp add: unat_pte_ppn)
    show ?thesis
      using w R ram Cons.IH [OF nxt, of "pte_at m a"] Cons.prems(3)
      by (auto simp: addr Let_def ld rwx_mask v unat_pte_ppn pte_at_def split: if_splits)
  qed
qed

lemma sv39_walk_leaf:
  "sv39_walk m c vpn base levels = Sv39_Leaf l a p \<Longrightarrow>
   l \<in> set levels \<and> in_ram m a 8 \<and> p = pte_at m a \<and> odd (unat p)"
  by (induction levels arbitrary: base) (auto simp: Let_def split: if_splits)

text \<open>What a lookup must answer: a fault, or a physical address and a new entry for \<open>a\<close>.\<close>

definition sv39_lookup ::
  "'d emu_machine \<Rightarrow> rv_cpu \<Rightarrow> u64 \<Rightarrow> rv_access \<Rightarrow> rv_mem_result + (nat \<times> (u64 \<times> u64) option)" where
  "sv39_lookup m c va mode =
     (case sv39_walk m c (unat va div 4096) (sv39_root c) [2, 1, 0] of
        Sv39_Leaf l a p \<Rightarrow>
          let page_pmp = rv_pmp_check c (of_nat (4096 * ppn_of p)) 4096 False;
              flags = (if mode = RV_ACCESS_AMO \<or> mode = RV_ACCESS_STORE then 0xC0 else 0x40)
          in if ppn_of p mod 512 ^ l \<noteq> 0 \<or> \<not> sv39_permits c p mode then Inl RV_MEM_PAGE_FAULT
             else if \<not> pmp_permits page_pmp mode then Inl RV_MEM_ACCESS_FAULT
             else if p AND flags = flags then Inr (sv39_paddr l p va, None)
             else if \<not> bit (rv_pmp_check c a 8 False) 1 then Inl RV_MEM_ACCESS_FAULT
             else Inr (sv39_paddr l p va, Some (a, p OR flags))
      | Sv39_Denied \<Rightarrow> Inl RV_MEM_ACCESS_FAULT
      | _ \<Rightarrow> Inl RV_MEM_PAGE_FAULT)"

lemma pte_setfl_value:
  "pte_setfl mode = (if mode = RV_ACCESS_AMO \<or> mode = RV_ACCESS_STORE then 0xC0 else 0x40)"
  by (simp add: pte_setfl_def)

lemma bit_flag_masks [mask_bits]:
  "bit (0xC0 :: int) n \<longleftrightarrow> 6 \<le> n \<and> n < 8" "bit (0x40 :: int) n \<longleftrightarrow> 6 \<le> n \<and> n < 7"
  by (subst bit_mask_range [of _ 6 2] bit_mask_range [of _ 6 1]; simp add: mask_eq_exp_minus_1; fail)+

lemma setfl_low: "bit (pte_setfl mode) n \<Longrightarrow> n = 6 \<or> n = 7"
  by (auto simp: pte_setfl_def bit_simps mask_bits split: if_splits)

lemma level_mask: "push_bit (9 * l) 1 - 1 = (mask (9 * l) :: u64)"
  by (simp add: mask_eq_exp_minus_1 push_bit_eq_mult)

lemma pte_ppn_setfl: "pte_ppn (q OR pte_setfl mode) = pte_ppn q"
  unfolding pte_ppn_def
  by (rule bit_word_eqI) (auto simp: bit_simps mask_bits dest: setfl_low)

lemma pte_ppn_offset:
  assumes "l \<le> 2"
  shows "pte_ppn (p OR push_bit 10 (take_bit (9 * l) x)) = pte_ppn p OR take_bit (9 * l) x"
  unfolding pte_ppn_def
  by (rule bit_word_eqI) (use assms in \<open>auto simp: bit_simps mask_bits\<close>)

lemma entry_paddr_unat:
  assumes "l \<le> 2" and "pte_ppn p AND mask (9 * l) = 0"
    and "pte_ppn q = pte_ppn p OR take_bit (9 * l) (drop_bit 12 va)" and "e = \<lparr>vma = v, pte = q\<rparr>"
  shows "unat (entry_paddr e va) = sv39_paddr l p va"
proof -
  let ?o = "take_bit (9 * l) (drop_bit 12 va)"
  have o: "unat ?o = unat va div 4096 mod 512 ^ l"
    by (simp only: unat_bits_div_mod) (simp add: power_mult)
  have lo: "unat ?o < 2 ^ 18"
  proof -
    have "unat ?o < 2 ^ (9 * l)" by (simp only: unat_bits_div_mod) simp
    also have "\<dots> \<le> (2 :: nat) ^ 18" using assms(1) by (intro power_increasing) auto
    finally show ?thesis .
  qed
  have "pte_ppn q = pte_ppn p + ?o"
    unfolding assms(3)
  proof (rule disjunctive_add [symmetric])
    fix n
    have "\<not> bit (pte_ppn p AND mask (9 * l)) n" by (simp only: assms(2)) simp
    then show "\<not> bit (pte_ppn p) n \<or> \<not> bit ?o n"
      by (auto simp: bit_simps dest: bit_imp_le_length)
  qed
  then have q: "unat (pte_ppn q) = ppn_of p + unat ?o"
    using ppn_of_less [of p] lo by (simp add: unat_word_ariths unat_pte_ppn)
  have tb: "va mod RV_CPU_PAGE_SIZE = take_bit 12 va" by (simp add: take_bit_eq_mod)
  have "entry_paddr e va = push_bit 12 (pte_ppn q) + take_bit 12 va"
    unfolding entry_paddr_def assms(4) tb
    by (subst disjunctive_add [symmetric]) (auto simp: bit_simps)
  moreover have "unat (push_bit 12 (pte_ppn q)) = 4096 * (ppn_of p + unat ?o)"
    using q ppn_of_less [of p] lo by (simp add: push_bit_eq_mult unat_word_ariths)
  moreover have "unat (take_bit 12 va) = unat va mod 4096"
    by (simp only: unat_bits_div_mod) simp
  ultimately have "unat (entry_paddr e va) = 4096 * (ppn_of p + unat ?o) + unat va mod 4096"
    using ppn_of_less [of p] lo by (simp add: unat_word_ariths)
  then show ?thesis
    by (simp add: o sv39_paddr_def mod_mult2_eq distrib_left)
qed

lemma check_access_permits:
  "check_access c \<lparr>vma = v OR ucast b, pte = q\<rparr> mode =
    (if \<not> sv39_permits c q mode then RV_MEM_PAGE_FAULT
     else if \<not> pmp_permits (ucast v OR b) mode then RV_MEM_ACCESS_FAULT else RV_MEM_OK)"
  by (cases mode) (auto simp: check_access_def Let_def sv39_permits_def pmp_permits_def bit_simps)

lemma sv39_permits_offset: "sv39_permits c (p OR push_bit 10 x) mode = sv39_permits c p mode"
  by (cases mode) (auto simp: sv39_permits_def bit_simps)

lemma pmp_permits_high: "pmp_permits (ucast (push_bit 48 (x :: u64) OR (va AND RV_TLB_VPN_MASK)) OR b) mode = pmp_permits b mode"
  by (cases mode) (auto simp: pmp_permits_def bit_simps mask_bits)

lemma page_address: "pte_ppn p * RV_CPU_PAGE_SIZE = of_nat (4096 * ppn_of p)"
proof -
  have "of_nat (unat (pte_ppn p)) = (pte_ppn p :: u64)"
    using ppn_of_less [of p] by (simp add: word_unat_eq_iff unat_of_nat unat_pte_ppn)
  then show ?thesis by (simp add: unat_pte_ppn mult.commute)
qed

lemma ppn_aligned:
  assumes "l \<le> 2"
  shows "pte_ppn p AND mask (9 * l) = 0 \<longleftrightarrow> ppn_of p mod 512 ^ l = 0"
proof -
  have "pte_ppn p AND mask (9 * l) = take_bit (9 * l) (pte_ppn p)"
    by (simp add: take_bit_eq_mask)
  moreover have "unat (take_bit (9 * l) (pte_ppn p)) = ppn_of p mod 512 ^ l"
    by (simp only: unat_bits_div_mod unat_pte_ppn) (simp add: power_mult)
  ultimately show ?thesis by (simp only: unat_eq_0 [symmetric])
qed

lemma leaf_entry_paddr:
  assumes "l \<le> 2" and "ppn_of p mod 512 ^ l = 0"
    and "q = p OR push_bit 10 (take_bit (9 * l) (drop_bit 12 va))
       \<or> q = (p OR push_bit 10 (take_bit (9 * l) (drop_bit 12 va))) OR pte_setfl mode"
  shows "unat (entry_paddr \<lparr>vma = v, pte = q\<rparr> va) = sv39_paddr l p va"
proof (rule entry_paddr_unat [OF assms(1) _ _ refl])
  show "pte_ppn p AND mask (9 * l) = 0" using assms(2) by (simp only: ppn_aligned [OF assms(1)])
  show "pte_ppn q = pte_ppn p OR take_bit (9 * l) (drop_bit 12 va)"
    using assms(3) pte_ppn_offset [OF assms(1), of p "drop_bit 12 va"] by (auto simp: pte_ppn_setfl)
qed

lemma pte_store:
  assumes "wf_machine m" and "in_ram m a 8"
  shows "rv_access_phys env h a (le_bytes 8 q) 3 RV_ACCESS_STORE True m
    = Some (RV_MEM_OK, le_bytes 8 q, ram_store a (le_bytes 8 q) m)"
  using phys_ram_access [of m 3 a "le_bytes 8 q"] assms by (simp add: pmp_refuses_def del: le_bytes.simps)

lemma paging_leaf_reference:
  assumes "wf_machine m" and "in_ram m a 8" and "l \<le> 2"
  shows "paging_leaf env h va out mode asid l a pmp p m =
    (let q = p OR push_bit 10 (take_bit (9 * l) (drop_bit 12 va));
         page_pmp = rv_pmp_check (get_cpu m h) (of_nat (4096 * ppn_of p)) 4096 False;
         v = push_bit 48 asid OR (va AND RV_TLB_VPN_MASK) OR ucast page_pmp
     in if ppn_of p mod 512 ^ l \<noteq> 0 \<or> \<not> sv39_permits (get_cpu m h) p mode
        then Some (RV_MEM_PAGE_FAULT, out, m)
        else if \<not> pmp_permits page_pmp mode then Some (RV_MEM_ACCESS_FAULT, out, m)
        else if p AND pte_setfl mode = pte_setfl mode then Some (RV_MEM_OK, \<lparr>vma = v, pte = q\<rparr>, m)
        else if \<not> bit pmp 1 then Some (RV_MEM_ACCESS_FAULT, out, m)
        else Some (RV_MEM_OK, \<lparr>vma = v, pte = q OR pte_setfl mode\<rparr>,
               ram_store a (le_bytes 8 (p OR pte_setfl mode)) m))"
proof -
  have mask: "x AND mask (9 * l) = take_bit (9 * l) x" for x :: u64
    by (simp add: take_bit_eq_mask)
  have acc: "check_access c \<lparr>vma = push_bit 48 asid OR (va AND RV_TLB_VPN_MASK) OR ucast b, pte = q\<rparr> mode =
    (if \<not> sv39_permits c q mode then RV_MEM_PAGE_FAULT
     else if \<not> pmp_permits b mode then RV_MEM_ACCESS_FAULT else RV_MEM_OK)" for c b q
    using check_access_permits [of c "push_bit 48 asid OR (va AND RV_TLB_VPN_MASK)" b q mode]
    by (simp add: pmp_permits_high or.assoc)
  show ?thesis
    unfolding paging_leaf_def Let_def level_mask page_address ppn_aligned [OF assms(3)]
    unfolding mask acc sv39_permits_offset pte_store [OF assms(1,2)]
    by simp
qed


section \<open>A machine with a page table\<close>

text \<open>
  \<open>demo_machine\<close> in supervisor mode, with PMP entry 0 open for every address and a root table
  at 0x1000 whose first entry maps the first gigabyte to itself.
\<close>

definition cpu_pt :: rv_cpu where
  "cpu_pt =
     cpu_zero\<lparr>privilege := 1, mem_privilege := 1,
       csr := (csr cpu_zero)\<lparr>pmpcfg := 0x1F # replicate 7 0,
         pmpaddr := 0xFFFFFFFFFFFFFFFF # replicate 63 0, satp := 0x8000000000000001\<rparr>\<rparr>"

definition pt_machine :: "unit emu_machine" where
  "pt_machine = demo_machine\<lparr>ram := (\<lambda>i. if i = 0 then 0x0F else 0), cpus := [cpu_pt]\<rparr>"

lemma cpu_pt_fields [simp]:
  "privilege cpu_pt = 1" "mem_privilege cpu_pt = 1" "satp (csr cpu_pt) = 0x8000000000000001"
  "mstatus (csr cpu_pt) = 0" "pmpaddr (csr cpu_pt) = 0xFFFFFFFFFFFFFFFF # replicate 63 0"
  "pmpcfg (csr cpu_pt) = 0x1F # replicate 7 0" "tlb cpu_pt = tlb cpu_zero"
  by (simp_all add: cpu_pt_def)

lemma pt_machine_fields [simp]:
  "ram_start pt_machine = 0x1000" "ram_end pt_machine = 0x1100" "cpus pt_machine = [cpu_pt]"
  "ram pt_machine = (\<lambda>i. if i = 0 then 0x0F else 0)"
  by (simp_all add: pt_machine_def)

lemma wf_cpu_pt: "wf_cpu cpu_pt"
proof -
  have "pmp_byte_ok (pmpcfg_unpacked (csr cpu_pt) k)" if "k < 64" for k
  proof -
    have "k div 8 < 8" using that by simp
    then have "k div 8 = 0 \<or> (k div 8 \<noteq> 0 \<and> (0x1F # replicate 7 (0 :: u64)) ! (k div 8) = 0)"
      by (cases "k div 8") auto
    moreover have "k div 8 = 0 \<Longrightarrow> k \<in> {0, 1, 2, 3, 4, 5, 6, 7}" by auto
    ultimately show ?thesis
      by (auto simp: pmpcfg_unpacked_def pmp_byte_ok_def)
  qed
  then have "wf_csr (csr cpu_pt)"
    by (simp add: wf_csr_def list_all_iff) (simp add: cpu_pt_def)
  moreover have "xregs cpu_pt = xregs cpu_zero" "fregs cpu_pt = fregs cpu_zero"
    "irq_pending cpu_pt = irq_pending cpu_zero" by (simp_all add: cpu_pt_def)
  ultimately show ?thesis
    by (simp add: wf_cpu_def wf_tlb_def rv_sync_mem_privilege_def)
qed

lemma wf_pt_machine: "wf_machine pt_machine"
proof -
  have "mhartid (csr cpu_pt) = 0" "clint_timer_armed cpu_pt = False" by (simp_all add: cpu_pt_def)
  then show ?thesis
    using wf_cpu_pt by (simp add: wf_machine_def pt_machine_def)
qed

lemma pmpaddr_match_all: "pmpaddr_match p 0xFFFFFFFFFFFFFFFF"
proof -
  have v: "(0xFFFFFFFFFFFFFFFF :: u64) = - 1" by simp
  have "push_bit 2 (- 1) OR 3 = (- 1 :: u64)"
    by (rule bit_word_eqI) (auto simp: bit_simps bit_int_3)
  moreover have "(- 1 :: u64) XOR (- 1 + 1) = - 1" by simp
  ultimately show ?thesis by (simp only: pmpaddr_match_def Let_def v) simp
qed

lemma pmp_cpu_pt: "rv_pmp_check cpu_pt a n False = 7"
proof -
  have zero: "[0..<64] = 0 # [1..<64]" by (simp add: upt_conv_Cons)
  show ?thesis
    unfolding rv_pmp_check_def zero by (simp add: pmpcfg_unpacked_def pmpaddr_match_all Let_def)
qed

lemma pt_walk:
  "sv39_walk pt_machine cpu_pt (unat (0x1040 :: u64) div 4096) (sv39_root cpu_pt) [2, 1, 0] = Sv39_Leaf 2 0x1000 0x0F"
proof -
  have p: "pte_at pt_machine 0x1000 = 0x0F"
    by (simp add: pte_at_def ram_bytes_def ram_off_def upt_0_8)
  have r: "in_ram pt_machine 0x1000 8" unfolding in_ram_def by simp
  have b: "\<exists>i\<in>{1..4}. bit (15 :: u64) i" by (rule bexI [of _ 1]) simp_all
  show ?thesis
    using p r b by (simp add: sv39_root_def pmp_cpu_pt Let_def)
qed


section \<open>The lookup and the TLB\<close>

lemma tlb_search_cases:
  "tlb_search c va fl cols =
    (case find (\<lambda>col. tlb_is_valid c (tlb_row va) col \<and> tlb_match c va (tlb_entry_at c (tlb_row va) col)) cols of
       None \<Rightarrow> Probe_Miss
     | Some col \<Rightarrow>
         if pte (tlb_entry_at c (tlb_row va) col) AND fl = fl
         then Probe_Hit (tlb_entry_at c (tlb_row va) col) else Probe_Stale col)"
  by (induction cols) (auto simp: Let_def)

text \<open>C20: an entry in the TLB is trusted. If the first valid entry of the row that matches the page
  and address space has the accessed (and for a write the dirty) flag, the lookup answers with it,
  whatever the privilege and the kind of access: the permission check of the walk
  (\<open>check_access\<close>), which would refuse a user-mode access to a supervisor page, is not made.\<close>
theorem tlb_hit_skips_permission_check:
  assumes "col < 16" and "tlb_is_valid (get_cpu m h) (tlb_row va) col"
    and "e = tlb_entry_at (get_cpu m h) (tlb_row va) col" and "tlb_match (get_cpu m h) va e"
    and "pte e AND pte_setfl mode = pte_setfl mode"
    and "\<forall>j<col. \<not> (tlb_is_valid (get_cpu m h) (tlb_row va) j
           \<and> tlb_match (get_cpu m h) va (tlb_entry_at (get_cpu m h) (tlb_row va) j))"
  shows "rv_paging_lookup env h va out mode m = Some (RV_MEM_OK, e, m)
    \<and> (mem_privilege (get_cpu m h) = 0 \<and> \<not> bit (pte e) RV_PTE_U_BIT
         \<longrightarrow> check_access (get_cpu m h) e mode = RV_MEM_PAGE_FAULT)"
proof -
  have "find (\<lambda>col. tlb_is_valid (get_cpu m h) (tlb_row va) col
      \<and> tlb_match (get_cpu m h) va (tlb_entry_at (get_cpu m h) (tlb_row va) col)) [0..<16] = Some col"
    using assms by (auto simp: find_Some_iff intro!: exI [of _ col])
  then show ?thesis
    using assms(3,5) by (auto simp: rv_paging_lookup_def tlb_search_cases check_access_def)
qed

text \<open>A user-mode core whose TLB holds a supervisor page.\<close>

definition cpu_user_tlb :: rv_cpu where
  "cpu_user_tlb =
     tlb_set_valid 0 0 (tlb_put_entry 0 \<lparr>vma = 0x7, pte = 0xCF\<rparr>
       (cpu_pt\<lparr>privilege := 0, mem_privilege := 0\<rparr>))"

lemma tlb_hit_skips_permission_check_witness:
  "rv_paging_lookup demo_env 0 0x40 no_entry RV_ACCESS_STORE (pt_machine\<lparr>cpus := [cpu_user_tlb]\<rparr>)
     = Some (RV_MEM_OK, \<lparr>vma = 0x7, pte = 0xCF\<rparr>, pt_machine\<lparr>cpus := [cpu_user_tlb]\<rparr>)
   \<and> check_access cpu_user_tlb \<lparr>vma = 0x7, pte = 0xCF\<rparr> RV_ACCESS_STORE = RV_MEM_PAGE_FAULT"
proof -
  let ?m = "pt_machine\<lparr>cpus := [cpu_user_tlb]\<rparr>"
  have row: "tlb_row 0x40 = 0" by (simp add: tlb_row_def)
  have c: "tlb_is_valid cpu_user_tlb 0 0" "tlb_entry_at cpu_user_tlb 0 0 = \<lparr>vma = 0x7, pte = 0xCF\<rparr>"
    "mem_privilege cpu_user_tlb = 0" "satp (csr cpu_user_tlb) = 0x8000000000000001"
    by (simp_all add: cpu_user_tlb_def tlb_set_valid_def tlb_put_entry_def tlb_is_valid_def tlb_entry_at_def)
  have "tlb_match cpu_user_tlb 0x40 \<lparr>vma = 0x7, pte = 0xCF\<rparr>"
    using c(4) by (simp add: tlb_match_def satp_asid_def vma_asid_def)
  with tlb_hit_skips_permission_check [where m = ?m and h = 0 and va = "0x40" and col = 0
      and mode = RV_ACCESS_STORE and env = demo_env and out = no_entry, OF _ _ refl] c
  show ?thesis by (simp add: row pte_setfl_def)
qed

subsection \<open>Insertion\<close>

lemma tlb_entry_at_put:
  assumes "wf_tlb (tlb c)" and "row < 16" "k < 16" "r < 16" "j < 16"
  shows "tlb_entry_at (tlb_put_entry (row * 16 + k) e c) r j
    = (if r = row \<and> j = k then e else tlb_entry_at c r j)"
proof -
  have "row * 16 + k = r * 16 + j \<longleftrightarrow> r = row \<and> j = k"
  proof -
    have "(row * 16 + k) div 16 = row" "(row * 16 + k) mod 16 = k"
      "(r * 16 + j) div 16 = r" "(r * 16 + j) mod 16 = j" using assms by simp_all
    then show ?thesis by metis
  qed
  then show ?thesis
    using assms by (auto simp: tlb_entry_at_def tlb_put_entry_def wf_tlb_def nth_list_update)
qed

lemma tlb_put_frame [simp]:
  "tlb_is_valid (tlb_put_entry i e c) r j = tlb_is_valid c r j"
  "csr (tlb_put_entry i e c) = csr c" "next_column (tlb (tlb_put_entry i e c)) = next_column (tlb c)"
  "tlb_valid (tlb (tlb_put_entry i e c)) = tlb_valid (tlb c)"
  "length (tlb_entries (tlb (tlb_put_entry i e c))) = length (tlb_entries (tlb c))"
  by (simp_all add: tlb_put_entry_def tlb_is_valid_def)

lemma tlb_set_valid_frame:
  assumes "wf_tlb (tlb c)" and "row < 16" "k < 16" "r < 16" "j < 16"
  shows "tlb_is_valid (tlb_set_valid row k c) r j \<longleftrightarrow> (r = row \<and> j = k) \<or> tlb_is_valid c r j"
    and "tlb_entry_at (tlb_set_valid row k c) r j = tlb_entry_at c r j"
    and "csr (tlb_set_valid row k c) = csr c"
  using assms
  by (auto simp: tlb_set_valid_def tlb_is_valid_def tlb_entry_at_def wf_tlb_def nth_list_update bit_simps)

text \<open>
  What an insertion that stays in the row does: the new entry is valid in a column that was
  invalid, or in the one \<open>next_column\<close> names if none was; nothing else changes.
\<close>

lemma tlb_fill_effect:
  assumes "tlb_fill row e c = Some c'" and "wf_tlb (tlb c)" and "row < 16"
    and "(\<forall>j<16. tlb_is_valid c row j) \<Longrightarrow> next_column (tlb c) < 16"
  obtains k where "k < 16" and "csr c' = csr c"
    and "\<And>r j. r < 16 \<Longrightarrow> j < 16 \<Longrightarrow> tlb_is_valid c' r j \<longleftrightarrow> (r = row \<and> j = k) \<or> tlb_is_valid c r j"
    and "\<And>r j. r < 16 \<Longrightarrow> j < 16 \<Longrightarrow>
      tlb_entry_at c' r j = (if r = row \<and> j = k then e else tlb_entry_at c r j)"
proof (cases "find (\<lambda>col. \<not> tlb_is_valid c row col) [0..<RV_TLB_COLUMNS]")
  case None
  let ?k = "unat (next_column (tlb c))"
  from None have full: "\<forall>j<16. tlb_is_valid c row j" by (auto simp: find_None_iff)
  with assms(4) have k: "?k < 16" by (simp add: word_less_nat_alt)
  have "c' = (tlb_put_entry (row * 16 + ?k) e c)\<lparr>tlb :=
      (tlb (tlb_put_entry (row * 16 + ?k) e c))\<lparr>next_column := next_column (tlb c) + 1\<rparr>\<rparr>"
    using assms(1) None by (auto simp: tlb_fill_def Let_def split: if_splits)
  then have *: "csr c' = csr c" "tlb_is_valid c' r j = tlb_is_valid c r j"
    "tlb_entry_at c' r j = tlb_entry_at (tlb_put_entry (row * 16 + ?k) e c) r j" for r j
    by (simp_all add: tlb_is_valid_def tlb_entry_at_def)
  show thesis
    by (rule that [OF k *(1)]) (use * full k assms(2,3) tlb_entry_at_put in auto)
next
  case (Some k)
  then have k: "k < 16" by (auto simp: find_Some_iff)
  let ?c = "tlb_put_entry (row * 16 + k) e c"
  have c': "c' = tlb_set_valid row k ?c"
    using assms(1) Some by (simp add: tlb_fill_def)
  have w: "wf_tlb (tlb ?c)" using assms(2) by (simp add: wf_tlb_def)
  show thesis
    by (rule that [OF k])
      (simp_all add: c' tlb_set_valid_frame(3) [OF w assms(3) k assms(3) k] tlb_set_valid_frame(1,2) [OF w assms(3) k] tlb_entry_at_put [OF assms(2,3) k])
qed

text \<open>
  After a miss the inserted translation is found: after the insertion of a matching entry the same
  search hits exactly that entry, and every valid entry of every other row is as before.
\<close>

lemma tlb_fill_then_hit:
  assumes "wf_cpu c" and "tlb_search c va fl [0..<16] = Probe_Miss"
    and "tlb_fill (tlb_row va) e c = Some c'" and "next_column (tlb c) < 16"
    and "tlb_match c va e" and "pte e AND fl = fl"
  shows "tlb_search c' va fl [0..<16] = Probe_Hit e
    \<and> (\<forall>r<16. \<forall>j<16. r \<noteq> tlb_row va \<longrightarrow>
          tlb_is_valid c' r j = tlb_is_valid c r j \<and> tlb_entry_at c' r j = tlb_entry_at c r j)"
proof -
  have "wf_tlb (tlb c)" using assms(1) by (rule wf_cpuD)
  then obtain k where k: "k < 16" "csr c' = csr c"
    and valid: "\<And>r j. r < 16 \<Longrightarrow> j < 16 \<Longrightarrow> tlb_is_valid c' r j \<longleftrightarrow> (r = tlb_row va \<and> j = k) \<or> tlb_is_valid c r j"
    and entry: "\<And>r j. r < 16 \<Longrightarrow> j < 16 \<Longrightarrow>
      tlb_entry_at c' r j = (if r = tlb_row va \<and> j = k then e else tlb_entry_at c r j)"
    using tlb_fill_effect [OF assms(3) _ tlb_row_less assms(4)] by blast
  have match: "tlb_match c' va x = tlb_match c va x" for x
    using k(2) by (simp add: tlb_match_def satp_asid_def)
  have miss: "\<not> (tlb_is_valid c (tlb_row va) j \<and> tlb_match c va (tlb_entry_at c (tlb_row va) j))"
    if "j < 16" for j
    using assms(2) that by (auto simp: tlb_search_cases find_None_iff split: option.splits if_splits)
  have "find (\<lambda>col. tlb_is_valid c' (tlb_row va) col
      \<and> tlb_match c' va (tlb_entry_at c' (tlb_row va) col)) [0..<16] = Some k"
    using k(1) assms(5) miss
    by (auto simp: find_Some_iff valid entry match intro!: exI [of _ k])
  then show ?thesis
    using assms(6) k(1) by (auto simp: tlb_search_cases valid entry)
qed



end
