(* ===== verification/RV_Insn.thy ===== *)
theory RV_Insn
  imports RV_Prelude
begin

text \<open>
  Instruction words: the fields of \<open>cpu/rv_insn.h\<close> and the 32-bit encoders of
  \<open>cpu/rv_decompress.h\<close>. The lemmas show that every encoder is inverted by the field
  macros the interpreter decodes with; the locale \<open>insn_codec\<close> states that contract once.
\<close>

section \<open>Enumerations\<close>

datatype rv_op_maj =
    RV_OP_MAJ_LOAD | RV_OP_MAJ_LOAD_FP | RV_OP_MAJ_CUSTOM0 | RV_OP_MAJ_MISC_MEM
  | RV_OP_MAJ_OP_IMM | RV_OP_MAJ_AUIPC | RV_OP_MAJ_OP_IMM_32 | RV_OP_MAJ_STORE
  | RV_OP_MAJ_STORE_FP | RV_OP_MAJ_CUSTOM1 | RV_OP_MAJ_AMO | RV_OP_MAJ_OP | RV_OP_MAJ_LUI
  | RV_OP_MAJ_OP_32 | RV_OP_MAJ_MADD | RV_OP_MAJ_MSUB | RV_OP_MAJ_NMSUB | RV_OP_MAJ_NMADD
  | RV_OP_MAJ_OP_FP | RV_OP_MAJ_OP_V | RV_OP_MAJ_CUSTOM2 | RV_OP_MAJ_BRANCH
  | RV_OP_MAJ_JALR | RV_OP_MAJ_RESERVED | RV_OP_MAJ_JAL | RV_OP_MAJ_SYSTEM
  | RV_OP_MAJ_OP_VE | RV_OP_MAJ_CUSTOM3

fun rv_op_maj_code :: "rv_op_maj \<Rightarrow> u32" where
  "rv_op_maj_code RV_OP_MAJ_LOAD      = 0b00000"
| "rv_op_maj_code RV_OP_MAJ_LOAD_FP   = 0b00001"
| "rv_op_maj_code RV_OP_MAJ_CUSTOM0   = 0b00010"
| "rv_op_maj_code RV_OP_MAJ_MISC_MEM  = 0b00011"
| "rv_op_maj_code RV_OP_MAJ_OP_IMM    = 0b00100"
| "rv_op_maj_code RV_OP_MAJ_AUIPC     = 0b00101"
| "rv_op_maj_code RV_OP_MAJ_OP_IMM_32 = 0b00110"
| "rv_op_maj_code RV_OP_MAJ_STORE     = 0b01000"
| "rv_op_maj_code RV_OP_MAJ_STORE_FP  = 0b01001"
| "rv_op_maj_code RV_OP_MAJ_CUSTOM1   = 0b01010"
| "rv_op_maj_code RV_OP_MAJ_AMO       = 0b01011"
| "rv_op_maj_code RV_OP_MAJ_OP        = 0b01100"
| "rv_op_maj_code RV_OP_MAJ_LUI       = 0b01101"
| "rv_op_maj_code RV_OP_MAJ_OP_32     = 0b01110"
| "rv_op_maj_code RV_OP_MAJ_MADD      = 0b10000"
| "rv_op_maj_code RV_OP_MAJ_MSUB      = 0b10001"
| "rv_op_maj_code RV_OP_MAJ_NMSUB     = 0b10010"
| "rv_op_maj_code RV_OP_MAJ_NMADD     = 0b10011"
| "rv_op_maj_code RV_OP_MAJ_OP_FP     = 0b10100"
| "rv_op_maj_code RV_OP_MAJ_OP_V      = 0b10101"
| "rv_op_maj_code RV_OP_MAJ_CUSTOM2   = 0b10110"
| "rv_op_maj_code RV_OP_MAJ_BRANCH    = 0b11000"
| "rv_op_maj_code RV_OP_MAJ_JALR      = 0b11001"
| "rv_op_maj_code RV_OP_MAJ_RESERVED  = 0b11010"
| "rv_op_maj_code RV_OP_MAJ_JAL       = 0b11011"
| "rv_op_maj_code RV_OP_MAJ_SYSTEM    = 0b11100"
| "rv_op_maj_code RV_OP_MAJ_OP_VE     = 0b11101"
| "rv_op_maj_code RV_OP_MAJ_CUSTOM3   = 0b11110"

definition rv_op_majs :: "rv_op_maj list" where
  "rv_op_majs =
     [RV_OP_MAJ_LOAD, RV_OP_MAJ_LOAD_FP, RV_OP_MAJ_CUSTOM0, RV_OP_MAJ_MISC_MEM,
      RV_OP_MAJ_OP_IMM, RV_OP_MAJ_AUIPC, RV_OP_MAJ_OP_IMM_32, RV_OP_MAJ_STORE,
      RV_OP_MAJ_STORE_FP, RV_OP_MAJ_CUSTOM1, RV_OP_MAJ_AMO, RV_OP_MAJ_OP, RV_OP_MAJ_LUI,
      RV_OP_MAJ_OP_32, RV_OP_MAJ_MADD, RV_OP_MAJ_MSUB, RV_OP_MAJ_NMSUB, RV_OP_MAJ_NMADD,
      RV_OP_MAJ_OP_FP, RV_OP_MAJ_OP_V, RV_OP_MAJ_CUSTOM2, RV_OP_MAJ_BRANCH,
      RV_OP_MAJ_JALR, RV_OP_MAJ_RESERVED, RV_OP_MAJ_JAL, RV_OP_MAJ_SYSTEM,
      RV_OP_MAJ_OP_VE, RV_OP_MAJ_CUSTOM3]"

text \<open>A \<open>switch\<close> over the field: \<open>None\<close> where no enumerator has the value.\<close>

definition rv_op_maj_of :: "u32 \<Rightarrow> rv_op_maj option" where
  "rv_op_maj_of w = find (\<lambda>m. rv_op_maj_code m = w) rv_op_majs"

datatype rv_ffmt = RV_FFMT_F32 | RV_FFMT_F64 | RV_FFMT_F16 | RV_FFMT_F128

definition rv_ffmt_of :: "u32 \<Rightarrow> rv_ffmt option" where
  "rv_ffmt_of w =
     (if w = 0b00 then Some RV_FFMT_F32 else if w = 0b01 then Some RV_FFMT_F64
      else if w = 0b10 then Some RV_FFMT_F16 else if w = 0b11 then Some RV_FFMT_F128
      else None)"

datatype rv_frm =
  RV_FRM_RNE | RV_FRM_RTZ | RV_FRM_RDN | RV_FRM_RUP | RV_FRM_RMM | RV_FRM_DYN

definition rv_frm_of :: "u32 \<Rightarrow> rv_frm option" where
  "rv_frm_of w =
     (if w = 0b000 then Some RV_FRM_RNE else if w = 0b001 then Some RV_FRM_RTZ
      else if w = 0b010 then Some RV_FRM_RDN else if w = 0b011 then Some RV_FRM_RUP
      else if w = 0b100 then Some RV_FRM_RMM else if w = 0b111 then Some RV_FRM_DYN
      else None)"

section \<open>Fields of an instruction word\<close>

definition RV_INSN_BITFIELD :: "u32 \<Rightarrow> nat \<Rightarrow> u32 \<Rightarrow> u32" where
  "RV_INSN_BITFIELD insn bitpos bitmask = drop_bit bitpos insn AND bitmask"

definition RV_INSN_OP_MAJ :: "u32 \<Rightarrow> u32" where
  "RV_INSN_OP_MAJ insn = RV_INSN_BITFIELD insn 2 0x1f"

definition RV_INSN_RS1 :: "u32 \<Rightarrow> u32" where
  "RV_INSN_RS1 insn = RV_INSN_BITFIELD insn 15 0x1f"

definition RV_INSN_RS2 :: "u32 \<Rightarrow> u32" where
  "RV_INSN_RS2 insn = RV_INSN_BITFIELD insn 20 0x1f"

definition RV_INSN_RS3 :: "u32 \<Rightarrow> u32" where
  "RV_INSN_RS3 insn = RV_INSN_BITFIELD insn 27 0x1f"

definition RV_INSN_RD :: "u32 \<Rightarrow> u32" where
  "RV_INSN_RD insn = RV_INSN_BITFIELD insn 7 0x1f"

definition RV_INSN_FUNCT3 :: "u32 \<Rightarrow> u32" where
  "RV_INSN_FUNCT3 insn = RV_INSN_BITFIELD insn 12 0x7"

definition RV_INSN_FUNCT7 :: "u32 \<Rightarrow> u32" where
  "RV_INSN_FUNCT7 insn = RV_INSN_BITFIELD insn 25 0x7f"

definition RV_INSN_FUNCT5 :: "u32 \<Rightarrow> u32" where
  "RV_INSN_FUNCT5 insn = RV_INSN_BITFIELD insn 27 0x1f"

definition RV_INSN_UIMM12 :: "u32 \<Rightarrow> u32" where
  "RV_INSN_UIMM12 insn = drop_bit 20 insn"

text \<open>The signed immediates are \<open>int32_t\<close> values: the word is read with \<open>scast\<close>.\<close>

definition RV_INSN_IMM12 :: "u32 \<Rightarrow> u32" where
  "RV_INSN_IMM12 insn = signed_drop_bit 20 insn"

definition RV_INSN_S_IMM12 :: "u32 \<Rightarrow> u32" where
  "RV_INSN_S_IMM12 insn =
     signed_drop_bit 20 (insn AND 0xfe000000) OR signed_drop_bit 7 (insn AND 0xf80)"

definition RV_INSN_FFMT :: "u32 \<Rightarrow> u32" where
  "RV_INSN_FFMT insn = RV_INSN_BITFIELD insn 25 0x3"

lemmas rv_field_defs =
  RV_INSN_BITFIELD_def RV_INSN_OP_MAJ_def RV_INSN_RS1_def RV_INSN_RS2_def RV_INSN_RS3_def
  RV_INSN_RD_def RV_INSN_FUNCT3_def RV_INSN_FUNCT7_def RV_INSN_FUNCT5_def
  RV_INSN_UIMM12_def RV_INSN_IMM12_def RV_INSN_S_IMM12_def RV_INSN_FFMT_def

text \<open>A register number is always below 32, so no register access leaves its array.\<close>

lemma unat_reg_fields [simp]:
  "unat (RV_INSN_RS1 insn) < 32" "unat (RV_INSN_RS2 insn) < 32"
  "unat (RV_INSN_RS3 insn) < 32" "unat (RV_INSN_RD insn) < 32"
  by (simp_all add: rv_field_defs unat_and_mask_less)

section \<open>Encoders\<close>

definition OP :: "rv_op_maj \<Rightarrow> u32" where
  "OP maj = push_bit 2 (rv_op_maj_code maj) OR 3"

definition rv_enc_r :: "u32 \<Rightarrow> u32 \<Rightarrow> u32 \<Rightarrow> u32 \<Rightarrow> u32 \<Rightarrow> u32 \<Rightarrow> u32" where
  "rv_enc_r funct7 rs2 rs1 funct3 rd opcode =
     push_bit 25 funct7 OR push_bit 20 rs2 OR push_bit 15 rs1 OR push_bit 12 funct3
       OR push_bit 7 rd OR opcode"

definition rv_enc_i :: "u32 \<Rightarrow> u32 \<Rightarrow> u32 \<Rightarrow> u32 \<Rightarrow> u32 \<Rightarrow> u32" where
  "rv_enc_i imm12 rs1 funct3 rd opcode =
     push_bit 20 (imm12 AND 0xfff) OR push_bit 15 rs1 OR push_bit 12 funct3
       OR push_bit 7 rd OR opcode"

definition rv_enc_s :: "u32 \<Rightarrow> u32 \<Rightarrow> u32 \<Rightarrow> u32 \<Rightarrow> u32 \<Rightarrow> u32" where
  "rv_enc_s imm12 rs2 rs1 funct3 opcode =
     push_bit 25 (signed_drop_bit 5 imm12 AND 0x7f) OR push_bit 20 rs2 OR push_bit 15 rs1
       OR push_bit 12 funct3 OR push_bit 7 (imm12 AND 0x1f) OR opcode"

definition rv_enc_u :: "u32 \<Rightarrow> u32 \<Rightarrow> u32 \<Rightarrow> u32" where
  "rv_enc_u imm20 rd opcode =
     push_bit 12 (imm20 AND 0xfffff) OR push_bit 7 rd OR opcode"

definition rv_enc_b :: "u32 \<Rightarrow> u32 \<Rightarrow> u32 \<Rightarrow> u32 \<Rightarrow> u32 \<Rightarrow> u32" where
  "rv_enc_b imm13 rs2 rs1 funct3 opcode =
     push_bit 31 (signed_drop_bit 12 imm13 AND 1)
       OR push_bit 25 (signed_drop_bit 5 imm13 AND 0x3f)
       OR push_bit 20 rs2 OR push_bit 15 rs1 OR push_bit 12 funct3
       OR push_bit 8 (signed_drop_bit 1 imm13 AND 0xf)
       OR push_bit 7 (signed_drop_bit 11 imm13 AND 1) OR opcode"

definition rv_enc_j :: "u32 \<Rightarrow> u32 \<Rightarrow> u32 \<Rightarrow> u32" where
  "rv_enc_j imm21 rd opcode =
     push_bit 31 (signed_drop_bit 20 imm21 AND 1)
       OR push_bit 21 (signed_drop_bit 1 imm21 AND 0x3ff)
       OR push_bit 20 (signed_drop_bit 11 imm21 AND 1)
       OR push_bit 12 (signed_drop_bit 12 imm21 AND 0xff)
       OR push_bit 7 rd OR opcode"

lemmas rv_enc_defs =
  rv_enc_r_def rv_enc_i_def rv_enc_s_def rv_enc_u_def rv_enc_b_def rv_enc_j_def

section \<open>Encoders against field macros\<close>

text \<open>
  The operands of an encoder are written at their field's width (a register is a
  \<open>5 word\<close>, an opcode a \<open>7 word\<close>), so the round trips need no hypothesis.
\<close>

lemma op_maj_cases [simp]: "rv_op_maj_of (rv_op_maj_code m) = Some m"
  by (cases m) (simp_all add: rv_op_maj_of_def rv_op_majs_def)

lemma OP_as_opcode: "OP m = ucast (ucast (OP m) :: 7 word)"
  by (cases m) (simp_all add: OP_def)

lemma OP_MAJ_OP: "drop_bit 2 (OP m) AND 0x1f = rv_op_maj_code m"
  by (cases m) (simp_all add: OP_def)

text \<open>The contract of an encoder and the decoder the interpreter applies to its output.\<close>

locale insn_codec =
  fixes enc :: "'a \<Rightarrow> u32"
    and dec :: "u32 \<Rightarrow> 'a"
    and ok :: "'a \<Rightarrow> bool"
  assumes dec_enc: "ok x \<Longrightarrow> dec (enc x) = x"
begin

lemma enc_inject:
  assumes "ok x" and "ok y"
  shows "enc x = enc y \<longleftrightarrow> x = y"
  using dec_enc [OF assms(1)] dec_enc [OF assms(2)] by metis

lemma enc_determines:
  assumes "ok x" and "enc x = w"
  shows "x = dec w"
  using dec_enc [OF assms(1)] assms(2) by simp

end

text \<open>R-type: \<open>funct7, rs2, rs1, funct3, rd, opcode\<close>.\<close>

type_synonym r_operands = "7 word \<times> 5 word \<times> 5 word \<times> 3 word \<times> 5 word \<times> 7 word"

fun enc_R :: "r_operands \<Rightarrow> u32" where
  "enc_R (f7, rs2, rs1, f3, rd, opc) =
     rv_enc_r (ucast f7) (ucast rs2) (ucast rs1) (ucast f3) (ucast rd) (ucast opc)"

definition dec_R :: "u32 \<Rightarrow> r_operands" where
  "dec_R w =
     (ucast (RV_INSN_FUNCT7 w), ucast (RV_INSN_RS2 w), ucast (RV_INSN_RS1 w),
      ucast (RV_INSN_FUNCT3 w), ucast (RV_INSN_RD w), ucast w)"

lemma rv_enc_r_fields:
  fixes f7 :: "7 word" and rs1 rs2 rd :: "5 word" and f3 :: "3 word" and opc :: "7 word"
  defines "w \<equiv> rv_enc_r (ucast f7) (ucast rs2) (ucast rs1) (ucast f3) (ucast rd) (ucast opc)"
  shows "RV_INSN_FUNCT7 w = ucast f7" and "RV_INSN_RS2 w = ucast rs2"
    and "RV_INSN_RS1 w = ucast rs1" and "RV_INSN_FUNCT3 w = ucast f3"
    and "RV_INSN_RD w = ucast rd" and "take_bit 7 w = ucast opc"
  unfolding w_def rv_enc_defs rv_field_defs
  by (simp_all add: c_field)

text \<open>I-type: \<open>imm[11:0], rs1, funct3, rd, opcode\<close>.\<close>

type_synonym i_operands = "12 word \<times> 5 word \<times> 3 word \<times> 5 word \<times> 7 word"

fun enc_I :: "i_operands \<Rightarrow> u32" where
  "enc_I (imm, rs1, f3, rd, opc) =
     rv_enc_i (scast imm) (ucast rs1) (ucast f3) (ucast rd) (ucast opc)"

definition dec_I :: "u32 \<Rightarrow> i_operands" where
  "dec_I w =
     (ucast (RV_INSN_IMM12 w), ucast (RV_INSN_RS1 w), ucast (RV_INSN_FUNCT3 w),
      ucast (RV_INSN_RD w), ucast w)"

lemma rv_enc_i_fields:
  fixes imm :: "12 word" and rs1 rd :: "5 word" and f3 :: "3 word" and opc :: "7 word"
  defines "w \<equiv> rv_enc_i (scast imm) (ucast rs1) (ucast f3) (ucast rd) (ucast opc)"
  shows "RV_INSN_RS1 w = ucast rs1"
    and "RV_INSN_FUNCT3 w = ucast f3" and "RV_INSN_RD w = ucast rd"
    and "take_bit 7 w = ucast opc"
  unfolding w_def rv_enc_defs rv_field_defs
  by (simp_all add: c_field)

lemma rv_enc_i_imm:
  fixes imm :: "12 word" and rs1 rd :: "5 word" and f3 :: "3 word" and opc :: "7 word"
  shows "RV_INSN_IMM12 (rv_enc_i (scast imm) (ucast rs1) (ucast f3) (ucast rd) (ucast opc)) = scast imm"
  unfolding rv_enc_defs rv_field_defs
  by (rule word32_eqI; simp add: bit_eval)

text \<open>S-type: \<open>imm[11:0], rs2, rs1, funct3, opcode\<close>.\<close>

type_synonym s_operands = "12 word \<times> 5 word \<times> 5 word \<times> 3 word \<times> 7 word"

fun enc_S :: "s_operands \<Rightarrow> u32" where
  "enc_S (imm, rs2, rs1, f3, opc) =
     rv_enc_s (scast imm) (ucast rs2) (ucast rs1) (ucast f3) (ucast opc)"

definition dec_S :: "u32 \<Rightarrow> s_operands" where
  "dec_S w =
     (ucast (RV_INSN_S_IMM12 w), ucast (RV_INSN_RS2 w), ucast (RV_INSN_RS1 w),
      ucast (RV_INSN_FUNCT3 w), ucast w)"

lemma rv_enc_s_fields:
  fixes imm :: "12 word" and rs1 rs2 :: "5 word" and f3 :: "3 word" and opc :: "7 word"
  defines "w \<equiv> rv_enc_s (scast imm) (ucast rs2) (ucast rs1) (ucast f3) (ucast opc)"
  shows "RV_INSN_RS2 w = ucast rs2"
    and "RV_INSN_RS1 w = ucast rs1" and "RV_INSN_FUNCT3 w = ucast f3"
    and "take_bit 7 w = ucast opc"
  unfolding w_def rv_enc_defs rv_field_defs
  by (simp_all add: c_field)

lemma rv_enc_s_imm:
  fixes imm :: "12 word" and rs1 rs2 :: "5 word" and f3 :: "3 word" and opc :: "7 word"
  shows "RV_INSN_S_IMM12 (rv_enc_s (scast imm) (ucast rs2) (ucast rs1) (ucast f3) (ucast opc)) = scast imm"
  unfolding rv_enc_defs rv_field_defs
  by (rule word32_eqI; simp add: bit_eval)

lemma ucast_scast_12 [simp]: "ucast (scast (imm :: 12 word) :: u32) = imm"
  by (rule bit_word_eqI) (auto simp: bit_simps min_def not_le less_Suc_eq_le dest: le_antisym)

lemma ucast_ucast_field [simp]:
  "ucast (ucast (x :: 5 word) :: u32) = x" "ucast (ucast (y :: 3 word) :: u32) = y"
  "ucast (ucast (z :: 7 word) :: u32) = z"
  by (rule bit_word_eqI; simp add: bit_simps)+

lemma ucast_opcode:
  "take_bit 7 w = ucast (opc :: 7 word) \<Longrightarrow> ucast w = opc" for w :: u32
proof -
  assume w: "take_bit 7 w = ucast opc"
  have "ucast w = (ucast (take_bit 7 w) :: 7 word)"
    by (rule bit_word_eqI) (simp add: bit_simps)
  with w show ?thesis by simp
qed

interpretation r_codec: insn_codec enc_R dec_R "\<lambda>_. True"
  by unfold_locales
    (auto simp: dec_R_def rv_enc_r_fields intro: ucast_opcode rv_enc_r_fields)

interpretation i_codec: insn_codec enc_I dec_I "\<lambda>_. True"
  by unfold_locales
    (auto simp: dec_I_def rv_enc_i_fields rv_enc_i_imm intro: ucast_opcode rv_enc_i_fields)

interpretation s_codec: insn_codec enc_S dec_S "\<lambda>_. True"
  by unfold_locales
    (auto simp: dec_S_def rv_enc_s_fields rv_enc_s_imm intro: ucast_opcode rv_enc_s_fields)

text \<open>The interpreter's field macros invert the encoders that the expansion of compressed
  instructions is built from. For every operand at its field's width, the fields of an encoded
  R-type, I-type or S-type word are the operands, negative immediates included.\<close>
theorem encode_decode_roundtrip:
  "dec_R (enc_R r) = r \<and> dec_I (enc_I i) = i \<and> dec_S (enc_S s) = s"
  by (simp add: r_codec.dec_enc i_codec.dec_enc s_codec.dec_enc)

end
