(* ===== verification/RV_Muldiv.thy ===== *)
theory RV_Muldiv
  imports RV_Privileged RV_Insn "HOL-Library.Signed_Division"
begin

text \<open>
  Multiplication and division, \<open>cpu/rv_impl/muldiv.c\<close>. The results are compared with the
  M extension's definition on integers, for both operand widths.
\<close>

section \<open>The code\<close>

definition INT64_MIN :: u64 where "INT64_MIN = 0x8000000000000000"
definition INT32_MIN :: u64 where "INT32_MIN = 0xFFFFFFFF80000000"

text \<open>\<open>(int64_t)(int32_t)x\<close> and C's signed division, which rounds to zero.\<close>

definition sext32 :: "u64 \<Rightarrow> u64" where
  "sext32 x = scast (ucast x :: u32)"

definition s_div :: "u64 \<Rightarrow> u64 \<Rightarrow> u64" where
  "s_div a b = word_of_int (sint a sdiv sint b)"

definition s_rem :: "u64 \<Rightarrow> u64 \<Rightarrow> u64" where
  "s_rem a b = word_of_int (sint a smod sint b)"

text \<open>The switch, on the values read from the registers; \<open>None\<close> is its default branch.\<close>

definition muldiv_result :: "bool \<Rightarrow> u8 \<Rightarrow> u64 \<Rightarrow> u64 \<Rightarrow> u64 option" where
  "muldiv_result is_32 funct3 x1 x2 =
     (let rs1_s = (if is_32 then sext32 x1 else x1);
          rs2_s = (if is_32 then sext32 x2 else x2);
          rs1 = (if is_32 then ucast (ucast x1 :: u32) else x1);
          rs2 = (if is_32 then ucast (ucast x2 :: u32) else x2);
          res =
            (if funct3 = 0 then Some (rs1_s * rs2_s)
             else if funct3 = 1 then
               Some (ucast (drop_bit 64 ((scast rs1_s :: u128) * scast rs2_s)))
             else if funct3 = 2 then
               Some (ucast (drop_bit 64 ((scast rs1_s :: u128) * ucast rs2)))
             else if funct3 = 3 then
               Some (ucast (drop_bit 64 ((ucast rs1 :: u128) * ucast rs2)))
             else if funct3 = 4 then
               Some (if rs2_s = 0 then - 1
                     else if \<not> is_32 \<and> rs1_s = INT64_MIN \<and> rs2_s = - 1 then INT64_MIN
                     else if is_32 \<and> rs1_s = INT32_MIN \<and> rs2_s = - 1 then INT32_MIN
                     else s_div rs1_s rs2_s)
             else if funct3 = 5 then
               Some (if rs2 = 0 then (if is_32 then 0xFFFFFFFF else - 1) else rs1 div rs2)
             else if funct3 = 6 then
               Some (if rs2_s = 0 then rs1_s
                     else if \<not> is_32 \<and> rs1_s = INT64_MIN \<and> rs2_s = - 1 then 0
                     else if is_32 \<and> rs1_s = INT32_MIN \<and> rs2_s = - 1 then 0
                     else s_rem rs1_s rs2_s)
             else if funct3 = 7 then Some (if rs2 = 0 then rs1 else rs1 mod rs2)
             else None)
      in map_option (\<lambda>res. if is_32 then sext32 res else res) res)"

definition rv_muldiv_op :: "'d emu_env \<Rightarrow> nat \<Rightarrow> u32 \<Rightarrow> 'd emu_machine \<Rightarrow> 'd emu_machine option" where
  "rv_muldiv_op env h insn m =
     (let cpu = get_cpu m h;
          is_32 = (RV_INSN_OP_MAJ insn AND 0b00010 \<noteq> 0);
          funct3 = ucast (RV_INSN_FUNCT3 insn) :: u8
      in if is_32 \<and> funct3 \<ge> 1 \<and> funct3 \<le> 3 then rv_do_iillegal env h insn m
         else
           case muldiv_result is_32 funct3 (rv_xreg_read cpu (RV_INSN_RS1 insn))
               (rv_xreg_read cpu (RV_INSN_RS2 insn)) of
             None \<Rightarrow> rv_do_iillegal env h insn m
           | Some res \<Rightarrow> Some (put_cpu h (rv_xreg_write cpu (RV_INSN_RD insn) res) m))"

section \<open>The M extension on integers\<close>

text \<open>
  The value of each instruction for operands of any width \<open>N\<close>, before it is truncated to
  that width: exact products and quotients, -1 for a division by zero, the dividend for its
  remainder.
\<close>

definition m_spec :: "nat \<Rightarrow> 'a::len word \<Rightarrow> 'a word \<Rightarrow> int" where
  "m_spec f a b =
     (let N = LENGTH('a); sa = sint a; sb = sint b; ua = uint a; ub = uint b in
      if f = 0 then sa * sb
      else if f = 1 then sa * sb div 2 ^ N
      else if f = 2 then sa * ub div 2 ^ N
      else if f = 3 then ua * ub div 2 ^ N
      else if f = 4 then if b = 0 then - 1 else sa sdiv sb
      else if f = 5 then if b = 0 then 2 ^ N - 1 else ua div ub
      else if f = 6 then if b = 0 then sa else sa smod sb
      else if b = 0 then ua else ua mod ub)"

lemma high_half:
  "(ucast (drop_bit 64 (word_of_int p :: u128)) :: u64) = word_of_int (p div 2 ^ 64)"
proof -
  have "p div 2 ^ 64 = drop_bit 64 p" by (simp only: drop_bit_eq_div)
  moreover have "(ucast (drop_bit 64 (word_of_int p :: u128)) :: u64) = word_of_int (drop_bit 64 p)"
    by (rule bit_word_eqI) (auto simp: bit_simps)
  ultimately show ?thesis by simp
qed

lemma high_half_products:
  fixes a b :: u64
  shows "ucast (drop_bit 64 ((scast a :: u128) * scast b)) = (word_of_int (sint a * sint b div 2 ^ 64) :: u64)"
    and "ucast (drop_bit 64 ((scast a :: u128) * ucast b)) = (word_of_int (sint a * uint b div 2 ^ 64) :: u64)"
    and "ucast (drop_bit 64 ((ucast a :: u128) * ucast b)) = (word_of_int (uint a * uint b div 2 ^ 64) :: u64)"
proof -
  have c: "(scast x :: u128) = word_of_int (sint x)" "(ucast x :: u128) = word_of_int (uint x)" for x :: u64
    by simp_all
  show "ucast (drop_bit 64 ((scast a :: u128) * scast b)) = (word_of_int (sint a * sint b div 2 ^ 64) :: u64)"
    and "ucast (drop_bit 64 ((scast a :: u128) * ucast b)) = (word_of_int (sint a * uint b div 2 ^ 64) :: u64)"
    and "ucast (drop_bit 64 ((ucast a :: u128) * ucast b)) = (word_of_int (uint a * uint b div 2 ^ 64) :: u64)"
    by (simp_all only: c wi_hom_mult high_half)
qed

lemma sint_sext32: "sint (sext32 x) = sint (ucast x :: u32)"
  using sint_greater_eq [of "ucast x :: u32"] sint_less [of "ucast x :: u32"]
  by (simp add: sext32_def signed_scast_eq signed_take_bit_int_eq_self_iff)

lemma sext32_of_int: "sext32 (word_of_int k) = scast (word_of_int k :: u32)"
  by (simp add: sext32_def) (rule bit_word_eqI, auto simp: bit_simps)

lemma sext32_of_sint: "sext32 x = word_of_int (sint (ucast x :: u32))"
  by (simp add: sext32_def)

lemma sext32_idem: "sext32 (sext32 x) = scast (ucast x :: u32)"
  by (simp only: sext32_of_sint [of x] sext32_of_int) simp

lemma sext32_ucast: "sext32 (ucast (y :: u32)) = scast y"
proof -
  have "ucast (ucast y :: u64) = y" by (rule bit_word_eqI) (auto simp: bit_simps)
  then show ?thesis by (simp only: sext32_def)
qed

lemma sext32_0_iff: "sext32 x = 0 \<longleftrightarrow> (ucast x :: u32) = 0"
proof -
  have "sext32 x = 0 \<longleftrightarrow> sint (sext32 x) = 0" by (simp only: signed_eq_0_iff)
  then show ?thesis by (simp only: sint_sext32 signed_eq_0_iff)
qed

lemma u8_less_8:
  assumes "f < (8 :: u8)"
  obtains "f = 0" | "f = 1" | "f = 2" | "f = 3" | "f = 4" | "f = 5" | "f = 6" | "f = 7"
proof -
  have "unat f < 8" using assms by (simp add: word_less_nat_alt)
  then have "unat f \<in> {0, 1, 2, 3, 4, 5, 6, 7}" by auto
  then have "unat f \<in> unat ` {0, 1, 2, 3, 4, 5, 6, 7 :: u8}" by simp
  then have "f \<in> {0, 1, 2, 3, 4, 5, 6, 7}" by (auto simp: word_unat_eq_iff)
  then show thesis using that by auto
qed

lemma unsigned_div_rem:
  fixes a b :: "'a::len word"
  shows "a div b = word_of_int (uint a div uint b)" and "a mod b = word_of_int (uint a mod uint b)"
  by (simp_all add: word_div_def word_mod_def)

lemma smod_one: "k smod 1 = (0 :: int)" "k smod - 1 = (0 :: int)"
  by (simp_all add: signed_modulo_int_def signed_divide_int_def)

lemma muldiv_64:
  assumes "f < 8"
  shows "muldiv_result False f a b = Some (word_of_int (m_spec (unat f) a b))"
proof -
  have [simp]: "word_of_int (sint x) = x" "word_of_int (uint x) = x" for x :: u64 by simp_all
  from assms show ?thesis
    by (rule u8_less_8)
      (auto simp: muldiv_result_def m_spec_def Let_def high_half_products s_div_def s_rem_def
        unsigned_div_rem INT64_MIN_def smod_one simp flip: wi_hom_mult)
qed

lemma uint_ucast_32: "uint (ucast (x :: u32) :: u64) = uint x"
  by transfer simp

lemma ucast_32_0: "(ucast (x :: u32) :: u64) = 0 \<longleftrightarrow> x = 0"
proof -
  have "(ucast x :: u64) = 0 \<longleftrightarrow> uint (ucast x :: u64) = 0" by (simp only: unsigned_eq_0_iff)
  then show ?thesis by (simp only: uint_ucast_32 unsigned_eq_0_iff)
qed

text \<open>Quotient and remainder of sign-extended operands, the overflow case included.\<close>

lemma sext32_div_rem:
  "sext32 (s_div (sext32 a) (sext32 b)) = scast (word_of_int (sint (ucast a :: u32) sdiv sint (ucast b :: u32)) :: u32)"
  "sext32 (s_rem (sext32 a) (sext32 b)) = scast (word_of_int (sint (ucast a :: u32) smod sint (ucast b :: u32)) :: u32)"
  by (simp_all only: s_div_def s_rem_def sint_sext32 sext32_of_int)

lemma sext32_overflow:
  assumes "sext32 a = INT32_MIN" and "sext32 b = - 1"
  shows "sext32 INT32_MIN = sext32 (s_div (sext32 a) (sext32 b))" and "sext32 0 = sext32 (s_rem (sext32 a) (sext32 b))"
  unfolding assms by (simp_all add: s_div_def s_rem_def INT32_MIN_def sext32_def smod_one)

lemma muldiv_32:
  assumes "f < 8" and "\<not> (1 \<le> f \<and> f \<le> 3)"
  shows "muldiv_result True f a b =
    Some (scast (word_of_int (m_spec (unat f) (ucast a :: u32) (ucast b)) :: u32))"
  using assms(1)
proof (cases rule: u8_less_8)
  case 1
  have "sext32 (sext32 a * sext32 b) = scast (word_of_int (sint (ucast a :: u32) * sint (ucast b :: u32)) :: u32)"
    by (simp only: sext32_of_sint [of a] sext32_of_sint [of b] wi_hom_mult sext32_of_int)
  with 1 show ?thesis by (simp add: muldiv_result_def m_spec_def Let_def del: wi_hom_mult)
next
  case 5
  with sext32_overflow(1) [of a b] sext32_div_rem(1) [of a b] sext32_of_int [of "- 1"] show ?thesis
    by (auto simp: muldiv_result_def m_spec_def Let_def sext32_0_iff)
next
  case 7
  with sext32_overflow(2) [of a b] sext32_div_rem(2) [of a b] sext32_idem [of a]
  show ?thesis
    by (auto simp: muldiv_result_def m_spec_def Let_def sext32_0_iff)
qed (use assms(2) in \<open>auto simp: muldiv_result_def m_spec_def Let_def ucast_32_0 uint_ucast_32
    unsigned_div_rem sext32_of_int sext32_ucast sext32_def [of "0xFFFFFFFF"]\<close>)

text \<open>C14: the multiply and divide instructions compute what the M extension defines on integers. For
  every function code and all operands the result is the exact integer result, with its special
  cases for a zero divisor, truncated to 64 bits, or for the W forms computed from the low halves
  and sign-extended from 32 bits; the signed overflow of the most negative dividend by -1
  included.\<close>
theorem muldiv_refines_spec:
  assumes "f < 8" and "is_32 \<longrightarrow> f = 0 \<or> 4 \<le> f"
  shows "muldiv_result is_32 f a b =
    Some (if is_32 then scast (word_of_int (m_spec (unat f) (ucast a :: u32) (ucast b)) :: u32)
          else word_of_int (m_spec (unat f) a b))"
proof (cases is_32)
  case True
  then have "\<not> (1 \<le> f \<and> f \<le> 3)" using assms(2) by (auto simp: word_le_nat_alt)
  with muldiv_32 [OF assms(1)] True show ?thesis by simp
qed (use muldiv_64 [OF assms(1)] in simp)

lemma muldiv_refines_spec_witness:
  "muldiv_result True 4 0x80000000 0xFFFFFFFF = Some 0xFFFFFFFF80000000"
  using muldiv_refines_spec [of 4 True "0x80000000" "0xFFFFFFFF"] by (simp add: m_spec_def)

context emu_callbacks
begin

lemma stays_muldiv [stays_rules]: "wf_next m x \<Longrightarrow> stays m (rv_muldiv_op env h insn x)"
  unfolding rv_muldiv_op_def Let_def by (intro stays_rules keeps_xreg_write)

end

end
