(* ===== verification/RV_Base.thy ===== *)
theory RV_Base
  imports RV_Paging RV_Muldiv
begin

text \<open>
  The integer instructions, \<open>cpu/rv_impl/base.c\<close>: arithmetic, loads and stores, jumps and
  branches, the CSR instructions, the privileged instructions and the fences. Every handler gives
  the machine after it, or \<open>None\<close> where the emulator aborts or leaves a host object.
\<close>

section \<open>Arithmetic\<close>

definition alu_result :: "bool \<Rightarrow> bool \<Rightarrow> bool \<Rightarrow> u32 \<Rightarrow> u64 \<Rightarrow> u64 \<Rightarrow> u64" where
  "alu_result is_32 is_reg bit30 funct3 x1 x2 =
     (let lhs_s = (if is_32 then signed_drop_bit 32 (push_bit 32 x1) else x1);
          rhs_s = (if is_32 then signed_drop_bit 32 (push_bit 32 x2) else x2);
          lhs = (if is_32 then ucast (ucast x1 :: u32) else x1);
          rhs = (if is_32 then ucast (ucast x2 :: u32) else x2);
          shamt = unat (rhs AND (if is_32 then 0x1f else 0x3f));
          res =
            (if funct3 = 0 then if bit30 \<and> is_reg then lhs - rhs else lhs + rhs
             else if funct3 = 1 then push_bit shamt lhs
             else if funct3 = 2 then of_bool (lhs_s <s rhs_s)
             else if funct3 = 3 then of_bool (lhs < rhs)
             else if funct3 = 4 then lhs XOR rhs
             else if funct3 = 5 then
               if bit30 then signed_drop_bit shamt lhs_s else drop_bit shamt lhs
             else if funct3 = 6 then lhs OR rhs
             else if funct3 = 7 then lhs AND rhs
             else 0)
      in if is_32 then signed_drop_bit 32 (push_bit 32 res) else res)"

definition rv_base_op :: "'d emu_env \<Rightarrow> nat \<Rightarrow> u32 \<Rightarrow> 'd emu_machine \<Rightarrow> 'd emu_machine option" where
  "rv_base_op env h insn m =
     (let cpu = get_cpu m h;
          is_reg = (RV_INSN_OP_MAJ insn AND 0b01000 \<noteq> 0);
          is_32 = (RV_INSN_OP_MAJ insn AND 0b00010 \<noteq> 0)
      in if is_reg \<and> RV_INSN_FUNCT7 insn = 0x01 then rv_muldiv_op env h insn m
         else
           let lhs = rv_xreg_read cpu (RV_INSN_RS1 insn);
               rhs = (if is_reg then rv_xreg_read cpu (RV_INSN_RS2 insn)
                      else scast (RV_INSN_IMM12 insn));
               res = alu_result is_32 is_reg (bit insn 30) (RV_INSN_FUNCT3 insn) lhs rhs
           in Some (put_cpu h (rv_xreg_write cpu (RV_INSN_RD insn) res) m))"

section \<open>Loads and stores\<close>

text \<open>The trap for an access that failed.\<close>

definition mem_trap ::
  "'d emu_env \<Rightarrow> nat \<Rightarrow> rv_mem_result \<Rightarrow> rv_access \<Rightarrow> u64 \<Rightarrow> 'd emu_machine \<Rightarrow> 'd emu_machine option" where
  "mem_trap env h r mode addr m =
     rv_do_trap env h
       \<lparr>trap_epc = epc (get_cpu m h), trap_tval = addr, trap_cause = rv_cause_code (rv_mem_cause r mode)\<rparr> m"

definition load_size_exp :: "u8 \<Rightarrow> u8 option" where
  "load_size_exp funct3 =
     (if funct3 = 0 \<or> funct3 = 4 then Some 0 else if funct3 = 1 \<or> funct3 = 5 then Some 1
      else if funct3 = 2 \<or> funct3 = 6 then Some 2 else if funct3 = 3 then Some 3 else None)"

definition load_extend :: "u8 \<Rightarrow> u64 \<Rightarrow> u64" where
  "load_extend funct3 rdata =
     (if funct3 = 0 then scast (ucast rdata :: u8) else if funct3 = 1 then scast (ucast rdata :: u16)
      else if funct3 = 2 then scast (ucast rdata :: u32) else rdata)"

definition rv_base_load :: "'d emu_env \<Rightarrow> nat \<Rightarrow> u32 \<Rightarrow> 'd emu_machine \<Rightarrow> 'd emu_machine option" where
  "rv_base_load env h insn m =
     (let cpu = get_cpu m h;
          is_load_fp = (RV_INSN_OP_MAJ insn AND 0b00001 \<noteq> 0);
          funct3 = ucast (RV_INSN_FUNCT3 insn) :: u8;
          addr = rv_xreg_read cpu (RV_INSN_RS1 insn) + scast (RV_INSN_IMM12 insn)
      in if is_load_fp \<and> \<not> RV_CHECK_XS (mstatus (csr cpu)) RV_STATUS_FS_BASE_BIT
         then rv_do_iillegal env h insn m
         else if is_load_fp \<and> funct3 AND 0x6 \<noteq> 0x2 then rv_do_iillegal env h insn m
         else
           case load_size_exp funct3 of
             None \<Rightarrow> rv_do_iillegal env h insn m
           | Some size_exp \<Rightarrow>
               do {
                 (r, data, m) \<leftarrow> rv_access_virt env h addr (le_bytes 8 0) size_exp RV_ACCESS_LOAD m;
                 (if r \<noteq> RV_MEM_OK then mem_trap env h r RV_ACCESS_LOAD addr m
                  else
                    let rdata = load_extend funct3 (le_word data); cpu = get_cpu m h
                    in if is_load_fp then
                         let rdata = (if funct3 = 2 then rdata OR 0xffffffff00000000 else rdata)
                         in Some (put_cpu h (rv_freg_write cpu (RV_INSN_RD insn) rdata) m)
                       else Some (put_cpu h (rv_xreg_write cpu (RV_INSN_RD insn) rdata) m))
               })"

definition rv_base_store :: "'d emu_env \<Rightarrow> nat \<Rightarrow> u32 \<Rightarrow> 'd emu_machine \<Rightarrow> 'd emu_machine option" where
  "rv_base_store env h insn m =
     (let cpu = get_cpu m h;
          is_store_fp = (RV_INSN_OP_MAJ insn AND 0b00001 \<noteq> 0);
          funct3 = ucast (RV_INSN_FUNCT3 insn) :: u8;
          addr = rv_xreg_read cpu (RV_INSN_RS1 insn) + scast (RV_INSN_S_IMM12 insn);
          wdata = (if is_store_fp then rv_freg_read cpu (RV_INSN_RS2 insn)
                   else rv_xreg_read cpu (RV_INSN_RS2 insn))
      in if is_store_fp \<and> \<not> RV_CHECK_XS (mstatus (csr cpu)) RV_STATUS_FS_BASE_BIT
         then rv_do_iillegal env h insn m
         else if is_store_fp \<and> funct3 AND 0x6 \<noteq> 0x2 then rv_do_iillegal env h insn m
         else
           do {
             (r, _, m) \<leftarrow> rv_access_virt env h addr (le_bytes 8 wdata) (funct3 AND 3) RV_ACCESS_STORE m;
             (if r \<noteq> RV_MEM_OK then mem_trap env h r RV_ACCESS_STORE addr m else Some m)
           })"

section \<open>Jumps and branches\<close>

definition jal_imm :: "u32 \<Rightarrow> u32" where
  "jal_imm insn =
     (let imm_19_12 = push_bit 12 (RV_INSN_BITFIELD insn 12 0xff);
          imm_11 = push_bit 11 (RV_INSN_BITFIELD insn 20 0x1);
          imm_10_1 = push_bit 1 (RV_INSN_BITFIELD insn 21 0x3ff);
          imm_20 = push_bit 20 (signed_drop_bit 31 insn)
      in imm_19_12 OR imm_11 OR imm_10_1 OR imm_20)"

definition rv_base_jal :: "'d emu_env \<Rightarrow> nat \<Rightarrow> u32 \<Rightarrow> 'd emu_machine \<Rightarrow> 'd emu_machine option" where
  "rv_base_jal env h insn m =
     (let cpu = rv_xreg_write (get_cpu m h) (RV_INSN_RD insn) (pc (get_cpu m h))
      in Some (put_cpu h (cpu\<lparr>pc := epc cpu + scast (jal_imm insn)\<rparr>) m))"

definition rv_base_jalr :: "'d emu_env \<Rightarrow> nat \<Rightarrow> u32 \<Rightarrow> 'd emu_machine \<Rightarrow> 'd emu_machine option" where
  "rv_base_jalr env h insn m =
     (let cpu = get_cpu m h;
          target = (rv_xreg_read cpu (RV_INSN_RS1 insn) + scast (RV_INSN_IMM12 insn)) AND NOT 1;
          cpu = rv_xreg_write cpu (RV_INSN_RD insn) (pc cpu)
      in Some (put_cpu h (cpu\<lparr>pc := target\<rparr>) m))"

definition rv_base_lui :: "'d emu_env \<Rightarrow> nat \<Rightarrow> u32 \<Rightarrow> 'd emu_machine \<Rightarrow> 'd emu_machine option" where
  "rv_base_lui env h insn m =
     (let cpu = get_cpu m h;
          res = scast (insn AND 0xfffff000);
          res = (if RV_INSN_OP_MAJ insn AND 0b01000 = 0 then res + epc cpu else res)
      in Some (put_cpu h (rv_xreg_write cpu (RV_INSN_RD insn) res) m))"

definition branch_imm :: "u32 \<Rightarrow> u32" where
  "branch_imm insn =
     (let imm_4_1 = push_bit 1 (signed_drop_bit 8 (insn AND 0x00000f00));
          imm_10_5 = push_bit 5 (signed_drop_bit 25 (insn AND 0x7e000000));
          imm_11 = push_bit 11 (signed_drop_bit 7 (insn AND 0x00000080));
          imm_12 = push_bit 12 (signed_drop_bit 31 insn)
      in imm_4_1 OR imm_10_5 OR imm_11 OR imm_12)"

definition branch_cond :: "u32 \<Rightarrow> u64 \<Rightarrow> u64 \<Rightarrow> bool option" where
  "branch_cond funct3 lhs rhs =
     (if funct3 = 0 then Some (lhs = rhs) else if funct3 = 1 then Some (lhs \<noteq> rhs)
      else if funct3 = 4 then Some (lhs <s rhs) else if funct3 = 5 then Some (rhs \<le>s lhs)
      else if funct3 = 6 then Some (lhs < rhs) else if funct3 = 7 then Some (lhs \<ge> rhs)
      else None)"

definition rv_base_branch :: "'d emu_env \<Rightarrow> nat \<Rightarrow> u32 \<Rightarrow> 'd emu_machine \<Rightarrow> 'd emu_machine option" where
  "rv_base_branch env h insn m =
     (let cpu = get_cpu m h
      in case branch_cond (RV_INSN_FUNCT3 insn) (rv_xreg_read cpu (RV_INSN_RS1 insn))
             (rv_xreg_read cpu (RV_INSN_RS2 insn)) of
           None \<Rightarrow> rv_do_iillegal env h insn m
         | Some cond \<Rightarrow>
             Some (if cond then put_cpu h (cpu\<lparr>pc := scast (branch_imm insn) + epc cpu\<rparr>) m else m))"

section \<open>CSR instructions\<close>

definition do_csr :: "'d emu_env \<Rightarrow> nat \<Rightarrow> u32 \<Rightarrow> 'd emu_machine \<Rightarrow> 'd emu_machine option" where
  "do_csr env h insn m =
     (let cpu = get_cpu m h;
          csr_i = RV_INSN_UIMM12 insn;
          op = RV_INSN_FUNCT3 insn AND 3;
          is_imm = (RV_INSN_FUNCT3 insn AND 4 \<noteq> 0);
          wdata = (if is_imm then ucast (RV_INSN_RS1 insn) else rv_xreg_read cpu (RV_INSN_RS1 insn));
          do_write = (is_imm \<or> op = 1 \<or> RV_INSN_RS1 insn \<noteq> 0);
          rdata = (if RV_INSN_RD insn \<noteq> 0 \<or> op \<noteq> 1 then rv_csr_read cpu csr_i else Some 0)
      in case rdata of
           None \<Rightarrow> rv_do_iillegal env h insn m
         | Some rdata \<Rightarrow>
             if op = 0 then rv_do_iillegal env h insn m
             else
               let wdata = (if op = 1 then wdata else if op = 2 then rdata OR wdata
                            else rdata AND NOT wdata)
               in if do_write then
                    case rv_csr_write cpu csr_i wdata of
                      None \<Rightarrow> rv_do_iillegal env h insn m
                    | Some cpu \<Rightarrow> Some (put_cpu h (rv_xreg_write cpu (RV_INSN_RD insn) rdata) m)
                  else Some (put_cpu h (rv_xreg_write cpu (RV_INSN_RD insn) rdata) m))"

section \<open>Privileged instructions\<close>

text \<open>\<open>mret\<close> on \<open>mstatus\<close>: the enable bits, then the privilege it reads, then MPP and MPRV.\<close>

definition mret_enable :: "u64 \<Rightarrow> u64" where
  "mret_enable status =
     (let mpie = drop_bit RV_STATUS_MPIE_BIT status AND 1;
          status = status AND NOT (push_bit RV_STATUS_MIE_BIT 1)
      in status OR (push_bit RV_STATUS_MIE_BIT mpie OR push_bit RV_STATUS_MPIE_BIT 1))"

definition mret_priv :: "u64 \<Rightarrow> u8" where
  "mret_priv status = ucast (drop_bit RV_STATUS_MPP_BASE_BIT status AND 3)"

definition mret_status :: "u64 \<Rightarrow> u8 \<Rightarrow> u64" where
  "mret_status status priv =
     (let status = status AND NOT (push_bit RV_STATUS_MPP_BASE_BIT 3)
      in if priv \<noteq> 3 then status AND NOT (push_bit RV_STATUS_MPRV_BIT 1) else status)"

definition mret_cpu :: "rv_cpu \<Rightarrow> rv_cpu" where
  "mret_cpu cpu =
     (let status = mret_enable (mstatus (csr cpu));
          priv = mret_priv status;
          cpu = rv_sync_mem_privilege
            (cpu\<lparr>csr := (csr cpu)\<lparr>mstatus := mret_status status priv\<rparr>, privilege := priv\<rparr>)
      in cpu\<lparr>pc := mepc (csr cpu)\<rparr>)"

definition sret_status :: "u64 \<Rightarrow> u64" where
  "sret_status status =
     (let spie = drop_bit RV_STATUS_SPIE_BIT status AND 1;
          status = status AND NOT (push_bit RV_STATUS_SIE_BIT 1);
          status = status OR push_bit RV_STATUS_SIE_BIT spie;
          status = status AND NOT (push_bit RV_STATUS_SPP_BIT 1);
          status = status OR push_bit RV_STATUS_SPIE_BIT 1
      in status AND NOT (push_bit RV_STATUS_MPRV_BIT 1))"

definition sret_cpu :: "rv_cpu \<Rightarrow> rv_cpu" where
  "sret_cpu cpu =
     (let spp = drop_bit RV_STATUS_SPP_BIT (mstatus (csr cpu)) AND 1;
          cpu = rv_sync_mem_privilege
            (cpu\<lparr>csr := (csr cpu)\<lparr>mstatus := sret_status (mstatus (csr cpu))\<rparr>, privilege := ucast spp\<rparr>)
      in cpu\<lparr>pc := sepc (csr cpu)\<rparr>)"

text \<open>\<open>sret\<close>, \<open>wfi\<close> and \<open>sfence.vma\<close> below the privilege they need, or trapped by TSR, TW or TVM.\<close>

definition sret_illegal :: "rv_cpu \<Rightarrow> bool" where
  "sret_illegal cpu \<longleftrightarrow>
     privilege cpu < 1 \<or> privilege cpu = 1 \<and> drop_bit RV_STATUS_TSR_BIT (mstatus (csr cpu)) AND 1 \<noteq> 0"

definition wfi_illegal :: "rv_cpu \<Rightarrow> bool" where
  "wfi_illegal cpu \<longleftrightarrow>
     privilege cpu < 3 \<and> drop_bit RV_STATUS_TW_BIT (mstatus (csr cpu)) AND 1 \<noteq> 0"

definition sfence_illegal :: "rv_cpu \<Rightarrow> bool" where
  "sfence_illegal cpu \<longleftrightarrow>
     privilege cpu < 1 \<or> privilege cpu = 1 \<and> drop_bit RV_STATUS_TVM_BIT (mstatus (csr cpu)) AND 1 \<noteq> 0"

definition sfence_cpu :: "u32 \<Rightarrow> rv_cpu \<Rightarrow> rv_cpu" where
  "sfence_cpu insn cpu =
     (let vaddr = rv_xreg_read cpu (RV_INSN_RS1 insn);
          asid = ucast (rv_xreg_read cpu (RV_INSN_RS2 insn))
      in rv_inval_tlb vaddr asid (RV_INSN_RS1 insn \<noteq> 0) (RV_INSN_RS2 insn \<noteq> 0) cpu)"

text \<open>\<open>None\<close>: the \<open>abort\<close> of the default branch.\<close>

definition ecall_cause :: "rv_cpu \<Rightarrow> rv_cause option" where
  "ecall_cause cpu =
     (if privilege cpu = 0 then Some RV_CAUSE_ECALL_U else if privilege cpu = 1 then Some RV_CAUSE_ECALL_S
      else if privilege cpu = 3 then Some RV_CAUSE_ECALL_M else None)"

definition rv_base_system :: "'d emu_env \<Rightarrow> nat \<Rightarrow> u32 \<Rightarrow> 'd emu_machine \<Rightarrow> 'd emu_machine option" where
  "rv_base_system env h insn m =
     (let cpu = get_cpu m h;
          trap = (\<lambda>cause tval. rv_do_trap env h
            \<lparr>trap_epc = epc cpu, trap_tval = tval, trap_cause = rv_cause_code cause\<rparr> m)
      in if RV_INSN_FUNCT3 insn \<noteq> 0 then do_csr env h insn m
         else if insn = 0x30200073 \<and> privilege cpu = 3 then Some (put_cpu h (mret_cpu cpu) m)
         else if insn = 0x10200073 then
           if sret_illegal cpu then rv_do_iillegal env h insn m
           else Some (put_cpu h (sret_cpu cpu) m)
         else if insn = 0x10500073 then
           if wfi_illegal cpu then rv_do_iillegal env h insn m else Some m
         else if drop_bit 25 insn = 0x09 then
           if sfence_illegal cpu then rv_do_iillegal env h insn m
           else Some (put_cpu h (sfence_cpu insn cpu) m)
         else if insn = 0x00000073 then
           case ecall_cause cpu of None \<Rightarrow> None | Some cause \<Rightarrow> trap cause 0
         else if insn = 0x00100073 then trap RV_CAUSE_EBREAK 0
         else trap RV_CAUSE_IILLEGAL (ucast insn))"

section \<open>Fences\<close>

text \<open>
  The host fence a MISC-MEM instruction issues. Instructions of different cores interleave as
  whole steps in this model, so a fence changes nothing.
\<close>

datatype host_fence = Fence_Acquire | Fence_Release | Fence_AcqRel | Fence_SeqCst | Sched_Yield

definition miscmem_fence :: "u32 \<Rightarrow> host_fence option" where
  "miscmem_fence insn =
     (let r = 1; w = 2; rw = 3;
          pred = RV_INSN_BITFIELD insn 24 0x3;
          succ = RV_INSN_BITFIELD insn 20 0x3;
          fm = RV_INSN_BITFIELD insn 28 0xf
      in if RV_INSN_FUNCT3 insn = 1 then Some Fence_Acquire
         else if insn = 0x0100000f then Some Sched_Yield
         else if pred = r \<and> succ = rw then Some Fence_Acquire
         else if pred = rw \<and> succ = w then Some Fence_Release
         else if pred = rw \<and> succ = rw \<and> fm = 8 then Some Fence_AcqRel
         else if pred \<noteq> 0 \<and> succ \<noteq> 0 then Some Fence_SeqCst
         else None)"

definition rv_base_miscmem :: "'d emu_env \<Rightarrow> nat \<Rightarrow> u32 \<Rightarrow> 'd emu_machine \<Rightarrow> 'd emu_machine option" where
  "rv_base_miscmem env h insn m = (case miscmem_fence insn of Some _ \<Rightarrow> Some m | None \<Rightarrow> Some m)"

section \<open>The invariant\<close>

lemma word_and_1_cases: "x AND 1 = 0 \<or> x AND 1 = 1" for x :: "'a::len word"
  by (simp add: and_one_eq mod_2_eq_odd)

lemma mstatus_masked: "wf_cpu c \<Longrightarrow> mstatus (csr c) AND RV_MSTATUS_MASK = mstatus (csr c)"
  using wf_cpuD(5) [of c] by (simp add: wf_csr_def)

text \<open>A privilege change through \<open>mstatus\<close>, as the trap returns make it.\<close>

lemma keeps_return:
  assumes "c' = rv_sync_mem_privilege (c\<lparr>csr := (csr c)\<lparr>mstatus := st\<rparr>, privilege := p\<rparr>)\<lparr>pc := a\<rparr>"
    and "wf_cpu c \<Longrightarrow> st AND RV_MSTATUS_MASK = st" and "p \<le> 3"
  shows "keeps c c'"
  using assms
  by (auto simp: keeps_def wf_cpu_def wf_csr_def pmpcfg_unpacked_def rv_sync_mem_privilege_def)

lemma flags_masked:
  "push_bit RV_STATUS_MIE_BIT (x AND 1) AND RV_MSTATUS_MASK = push_bit RV_STATUS_MIE_BIT (x AND 1)"
  "push_bit RV_STATUS_SIE_BIT (x AND 1) AND RV_MSTATUS_MASK = push_bit RV_STATUS_SIE_BIT (x AND 1)"
  "push_bit RV_STATUS_MPIE_BIT 1 AND RV_MSTATUS_MASK = push_bit RV_STATUS_MPIE_BIT 1"
  "push_bit RV_STATUS_SPIE_BIT 1 AND RV_MSTATUS_MASK = push_bit RV_STATUS_SPIE_BIT 1"
proof -
  have "push_bit 3 y AND RV_MSTATUS_MASK = push_bit 3 y" "push_bit 1 y AND RV_MSTATUS_MASK = push_bit 1 y"
    if "y = 0 \<or> y = 1" for y :: u64
    using that by (auto simp: status_masks)
  from this [OF word_and_1_cases]
  show "push_bit RV_STATUS_MIE_BIT (x AND 1) AND RV_MSTATUS_MASK = push_bit RV_STATUS_MIE_BIT (x AND 1)"
    "push_bit RV_STATUS_SIE_BIT (x AND 1) AND RV_MSTATUS_MASK = push_bit RV_STATUS_SIE_BIT (x AND 1)" .
qed (simp_all add: status_masks)

lemma masked_if:
  "a AND m = a \<Longrightarrow> b AND m = b \<Longrightarrow> (if P then a else b) AND m = (if P then a else b)" for a b m :: u64
  by simp

lemma privilege_field: "ucast (w AND 3) \<le> (3 :: u8)" for w :: u64
proof -
  have "w AND 3 = take_bit 2 w" by (rule and_low_mask)
  then have "unat (w AND 3) \<le> 3" using take_bit_nat_less_exp [of 2 "unat w"] by (simp add: unsigned_take_bit_eq)
  then show ?thesis
    by (simp add: word_le_nat_alt unsigned_ucast_eq take_bit_nat_eq_self)
qed

lemma keeps_mret: "keeps c (mret_cpu c)"
  unfolding mret_cpu_def Let_def
proof (rule keeps_return [OF refl])
  show "mret_priv (mret_enable (mstatus (csr c))) \<le> 3"
    unfolding mret_priv_def by (rule privilege_field)
  show "mret_status (mret_enable (mstatus (csr c))) p AND RV_MSTATUS_MASK = mret_status (mret_enable (mstatus (csr c))) p"
    if "wf_cpu c" for p
    unfolding mret_status_def mret_enable_def Let_def
    by (intro masked_if masked_and masked_or flags_masked mstatus_masked that)
qed

lemma keeps_sret: "keeps c (sret_cpu c)"
proof -
  have p: "ucast (drop_bit 8 (mstatus (csr c)) AND 1) \<le> (3 :: u8)"
    using word_and_1_cases [of "drop_bit 8 (mstatus (csr c))"] by auto
  show ?thesis
    unfolding sret_cpu_def Let_def
    by (rule keeps_return [OF refl _ p], unfold sret_status_def Let_def)
      (intro masked_if masked_and masked_or flags_masked mstatus_masked)
qed

lemma keeps_sfence: "keeps c (sfence_cpu insn c)"
  unfolding sfence_cpu_def Let_def by (rule keeps_tlb_frame) (rule inval.inval_frame)

lemma keeps_set_pc: "keeps c c' \<Longrightarrow> keeps c (c'\<lparr>pc := a\<rparr>)"
  by (erule keeps_trans) simp

lemma keeps_csr_insn: "rv_csr_write c i v = Some c' \<Longrightarrow> keeps c (rv_xreg_write c' rd w)"
  by (rule keeps_trans [OF keeps_csr_write keeps_xreg_write])

context emu_callbacks
begin

lemma stays_mem_trap [stays_rules]: "wf_next m x \<Longrightarrow> stays m (mem_trap env h r mode addr x)"
  unfolding mem_trap_def by (rule stays_do_trap)

lemmas insn_rules = stays_rules keeps_xreg_write keeps_freg_write keeps_set_pc keeps_mret keeps_sret keeps_sfence
  keeps_csr_insn

lemma stays_base_op [stays_rules]: "wf_next m x \<Longrightarrow> stays m (rv_base_op env h insn x)"
  unfolding rv_base_op_def Let_def by (intro insn_rules)

lemma stays_base_load [stays_rules]: "wf_next m x \<Longrightarrow> stays m (rv_base_load env h insn x)"
  unfolding rv_base_load_def Let_def by (intro insn_rules)

lemma stays_base_store [stays_rules]: "wf_next m x \<Longrightarrow> stays m (rv_base_store env h insn x)"
  unfolding rv_base_store_def Let_def by (intro insn_rules)

lemma stays_base_jal [stays_rules]: "wf_next m x \<Longrightarrow> stays m (rv_base_jal env h insn x)"
  unfolding rv_base_jal_def Let_def by (intro insn_rules)

lemma stays_base_jalr [stays_rules]: "wf_next m x \<Longrightarrow> stays m (rv_base_jalr env h insn x)"
  unfolding rv_base_jalr_def Let_def by (intro insn_rules)

lemma stays_base_lui [stays_rules]: "wf_next m x \<Longrightarrow> stays m (rv_base_lui env h insn x)"
  unfolding rv_base_lui_def Let_def by (intro insn_rules)

lemma stays_base_branch [stays_rules]: "wf_next m x \<Longrightarrow> stays m (rv_base_branch env h insn x)"
  unfolding rv_base_branch_def Let_def if_distrib [of Some] by (intro insn_rules keeps_pc)

lemma stays_do_csr [stays_rules]: "wf_next m x \<Longrightarrow> stays m (do_csr env h insn x)"
  unfolding do_csr_def Let_def by (intro insn_rules)

lemma stays_base_system [stays_rules]: "wf_next m x \<Longrightarrow> stays m (rv_base_system env h insn x)"
  unfolding rv_base_system_def Let_def by (intro insn_rules stays_do_csr)

lemma stays_base_miscmem [stays_rules]: "wf_next m x \<Longrightarrow> stays m (rv_base_miscmem env h insn x)"
  unfolding rv_base_miscmem_def by (intro insn_rules)

end

section \<open>Arithmetic at both widths\<close>

text \<open>The instruction's meaning on words of its own width.\<close>

definition alu_spec :: "u32 \<Rightarrow> bool \<Rightarrow> bool \<Rightarrow> 'a::len word \<Rightarrow> 'a word \<Rightarrow> 'a word" where
  "alu_spec f sub arith a b =
     (let n = unat b mod LENGTH('a) in
      if f = 0 then if sub then a - b else a + b
      else if f = 1 then push_bit n a
      else if f = 2 then of_bool (a <s b)
      else if f = 3 then of_bool (a < b)
      else if f = 4 then a XOR b
      else if f = 5 then if arith then signed_drop_bit n a else drop_bit n a
      else if f = 6 then a OR b
      else a AND b)"

lemma sext_shift: "signed_drop_bit 32 (push_bit 32 x) = sext32 (x :: u64)"
  unfolding sext32_def by (rule bit_word_eqI) (auto simp: bit_simps)

lemma ucast_32_arith:
  fixes x y :: u64
  shows "(ucast (x + y) :: u32) = ucast x + ucast y" and "(ucast (x - y) :: u32) = ucast x - ucast y"
proof -
  have m: "word_of_int (k mod 2 ^ 64) = (word_of_int k :: u32)" for k
    by (simp add: word_of_int_eq_iff take_bit_eq_mod mod_mod_cancel)
  have u: "(ucast w :: u32) = word_of_int (uint w)" for w :: u64 by simp
  show "(ucast (x + y) :: u32) = ucast x + ucast y"
    unfolding u wi_hom_add m [symmetric, of "uint x + uint y"] by (simp add: uint_word_ariths)
  show "(ucast (x - y) :: u32) = ucast x - ucast y"
    unfolding u wi_hom_sub m [symmetric, of "uint x - uint y"] by (simp add: uint_word_ariths)
qed

lemma unat_u32_u64: "unat (ucast (y :: u32) :: u64) = unat y"
  by (rule unat_ucast_up) simp

lemma shift_amounts:
  fixes b :: u64
  shows "unat (b AND 0x3f) = unat b mod 64" and "unat (ucast (ucast b :: u32) AND 0x1f :: u64) = unat (ucast b :: u32) mod 32"
  by (simp_all only: and_low_mask unat_bits_div_mod unat_u32_u64) simp_all

lemma ucast_of_ucast_32: "(ucast (ucast (y :: u32) :: u64) :: u32) = y" "(ucast (scast y :: u64) :: u32) = y"
  by (rule bit_word_eqI, auto simp: bit_simps)+

lemma alu_32_shifts:
  fixes a :: u64
  assumes "n < 32"
  shows "(ucast (push_bit n (ucast (ucast a :: u32) :: u64)) :: u32) = push_bit n (ucast a)"
    and "(ucast (drop_bit n (ucast (ucast a :: u32) :: u64)) :: u32) = drop_bit n (ucast a)"
    and "(ucast (signed_drop_bit n (sext32 a)) :: u32) = signed_drop_bit n (ucast a)"
proof -
  show "(ucast (signed_drop_bit n (sext32 a)) :: u32) = signed_drop_bit n (ucast a)"
  proof (rule bit_word_eqI)
    fix k :: nat
    assume "k < LENGTH(32)"
    then show "bit (ucast (signed_drop_bit n (sext32 a)) :: u32) k = bit (signed_drop_bit n (ucast a :: u32)) k"
      using assms by (cases "n + k = 31"; cases "n + k < 31") (auto simp: bit_simps sext32_def min_def)
  qed
qed (rule bit_word_eqI, auto simp: bit_simps)+

lemma ucast_32_bitwise:
  fixes x y :: u64
  shows "(ucast (x XOR y) :: u32) = ucast x XOR ucast y" and "(ucast (x OR y) :: u32) = ucast x OR ucast y"
    and "(ucast (x AND y) :: u32) = ucast x AND ucast y"
  by (rule bit_word_eqI, auto simp: bit_simps)+

lemma alu_32_compare:
  fixes a b :: u64
  shows "sext32 a <s sext32 b \<longleftrightarrow> (ucast a :: u32) <s ucast b"
    and "(ucast (ucast a :: u32) :: u64) < ucast (ucast b :: u32) \<longleftrightarrow> (ucast a :: u32) < ucast b"
  by (simp_all only: word_sless_alt sint_sext32 word_less_nat_alt unat_u32_u64)

lemma u32_less_8:
  assumes "f < (8 :: u32)"
  obtains "f = 0" | "f = 1" | "f = 2" | "f = 3" | "f = 4" | "f = 5" | "f = 6" | "f = 7"
proof -
  have "unat f < 8" using assms by (simp add: word_less_nat_alt)
  then have "unat f \<in> {0, 1, 2, 3, 4, 5, 6, 7}" by auto
  then have "unat f \<in> unat ` {0, 1, 2, 3, 4, 5, 6, 7 :: u32}" by simp
  then have "f \<in> {0, 1, 2, 3, 4, 5, 6, 7}" by (auto simp: word_unat_eq_iff)
  then show thesis using that by auto
qed

lemma sext32_trunc: "sext32 x = scast (ucast x :: u32)"
  by (rule sext32_def)



section \<open>Trap and return\<close>

lemma return_fields [simp]:
  "pc (mret_cpu c) = mepc (csr c)" "pc (sret_cpu c) = sepc (csr c)"
  "xregs (mret_cpu c) = xregs c" "xregs (sret_cpu c) = xregs c"
  by (simp_all add: mret_cpu_def sret_cpu_def Let_def rv_sync_mem_privilege_def)

lemma bit_field_1: "bit (push_bit k (x AND 1)) n \<longleftrightarrow> n = k \<and> bit x 0 \<and> n < 64" for x :: u64
  by (auto simp: bit_simps)

lemma bit_flag: "bit (push_bit k (1 :: u64)) n \<longleftrightarrow> n = k \<and> n < 64"
  by (auto simp: bit_simps)

lemma bit_mret_enable:
  "bit (mret_enable st) n \<longleftrightarrow>
    (if n = RV_STATUS_MIE_BIT then bit st RV_STATUS_MPIE_BIT
     else if n = RV_STATUS_MPIE_BIT then True else bit st n)"
  unfolding mret_enable_def Let_def
  by (simp only: bit_clear1 bit_or_iff bit_field_1 bit_flag) (auto simp: bit_simps)

lemma mret_privilege_eq:
  "privilege (mret_cpu c) = ucast (drop_bit RV_STATUS_MPP_BASE_BIT (mstatus (csr c)) AND 3)"
proof -
  have "mret_priv (mret_enable st) = ucast (drop_bit RV_STATUS_MPP_BASE_BIT st AND 3)" for st
    unfolding mret_priv_def
    by (rule bit_word_eqI) (auto simp: bit_simps bit_int_3 bit_mret_enable)
  then show ?thesis by (simp add: mret_cpu_def Let_def rv_sync_mem_privilege_def)
qed

lemma bit_mret_status:
  assumes "n \<noteq> RV_STATUS_MPRV_BIT"
  shows "bit (mstatus (csr (mret_cpu c))) n \<longleftrightarrow>
    (if n = RV_STATUS_MIE_BIT then bit (mstatus (csr c)) RV_STATUS_MPIE_BIT
     else if n = RV_STATUS_MPIE_BIT then True
     else if n = RV_STATUS_MPP_BASE_BIT \<or> n = RV_STATUS_MPP_BASE_BIT + 1 then False
     else bit (mstatus (csr c)) n)"
proof -
  have "bit (mret_status st p) n \<longleftrightarrow> bit st n \<and> n \<noteq> 11 \<and> n \<noteq> 12" for st p
    using assms unfolding mret_status_def Let_def
    by (simp only: if_distrib [of "\<lambda>w. bit w n"] bit_clear1 bit_clear2) simp
  then show ?thesis
    by (simp add: mret_cpu_def Let_def rv_sync_mem_privilege_def bit_mret_enable)
qed

lemma bit_sret_status:
  "bit (mstatus (csr (sret_cpu c))) n \<longleftrightarrow>
    (if n = RV_STATUS_SIE_BIT then bit (mstatus (csr c)) RV_STATUS_SPIE_BIT
     else if n = RV_STATUS_SPIE_BIT then True
     else if n = RV_STATUS_SPP_BIT \<or> n = RV_STATUS_MPRV_BIT then False
     else bit (mstatus (csr c)) n)"
proof -
  have "bit (sret_status st) n \<longleftrightarrow> (if n = 1 then bit st 5 else if n = 5 then True
      else if n = 8 \<or> n = 17 then False else bit st n)" for st
    unfolding sret_status_def Let_def
    by (simp only: bit_clear1 bit_or_iff bit_field_1 bit_flag) (auto simp: bit_simps)
  then show ?thesis by (simp add: sret_cpu_def Let_def rv_sync_mem_privilege_def)
qed

lemma sret_privilege_eq: "privilege (sret_cpu c) = of_bool (bit (mstatus (csr c)) RV_STATUS_SPP_BIT)"
proof -
  have "drop_bit 8 st AND 1 = (of_bool (bit st 8) :: u64)" for st
    by (simp add: and_one_eq mod_2_eq_odd bit_iff_odd_drop_bit)
  then show ?thesis by (simp add: sret_cpu_def Let_def rv_sync_mem_privilege_def)
qed

text \<open>C16: a handler that returns resumes what the trap interrupted. After a trap from any state, if the
  handler has put the trap's status and exception registers back (everything else may differ), the
  return instruction of the mode the trap went to restores the privilege, the program counter of
  the trap and the interrupt enable, and leaves every status bit as it was before the trap except
  the saved copies (previous enable set, previous privilege cleared) and MPRV.\<close>
theorem trap_return_roundtrip:
  assumes "wf_cpu c"
    and "mstatus (csr c') = mstatus (csr (take_trap c t))"
    and "mepc (csr c') = mepc (csr (take_trap c t))" and "sepc (csr c') = sepc (csr (take_trap c t))"
  shows "if trap_delegated c (trap_cause t)
    then privilege (sret_cpu c') = privilege c \<and> pc (sret_cpu c') = trap_epc t
      \<and> (\<forall>n. n \<noteq> RV_STATUS_SPIE_BIT \<and> n \<noteq> RV_STATUS_SPP_BIT \<and> n \<noteq> RV_STATUS_MPRV_BIT \<longrightarrow>
           bit (mstatus (csr (sret_cpu c'))) n = bit (mstatus (csr c)) n)
    else privilege (mret_cpu c') = privilege c \<and> pc (mret_cpu c') = trap_epc t
      \<and> (\<forall>n. n \<noteq> RV_STATUS_MPIE_BIT \<and> n \<noteq> RV_STATUS_MPP_BASE_BIT \<and> n \<noteq> RV_STATUS_MPP_BASE_BIT + 1
            \<and> n \<noteq> RV_STATUS_MPRV_BIT \<longrightarrow>
           bit (mstatus (csr (mret_cpu c'))) n = bit (mstatus (csr c)) n)"
proof (cases "trap_delegated c (trap_cause t)")
  case True
  then have p: "privilege c \<le> 1" by (simp add: trap_delegated_def Let_def)
  then have "of_bool (bit (privilege c) 0) = privilege c" using u8_le_1 by fastforce
  with True assms(2,4) show ?thesis
    by (simp add: take_trap_def bit_sret_status sret_privilege_eq bit_trap_status_s [OF p])
next
  case False
  note p = wf_cpuD(6) [OF assms(1)]
  have "ucast (drop_bit 11 (trap_status_m (mstatus (csr c)) (privilege c)) AND 3) = privilege c"
    using privilege_bits [OF p]
    by (intro bit_word_eqI)
      (auto simp: bit_simps bit_trap_status_m [OF p] and_low_mask less_2_cases_iff)
  with False assms(2,3) show ?thesis
    by (simp add: take_trap_def bit_mret_status mret_privilege_eq bit_trap_status_m [OF p])
qed

lemma trap_return_roundtrip_witness:
  "privilege (mret_cpu (take_trap cpu_m \<lparr>trap_epc = 64, trap_tval = 0, trap_cause = 11\<rparr>)) = 3
    \<and> pc (mret_cpu (take_trap cpu_m \<lparr>trap_epc = 64, trap_tval = 0, trap_cause = 11\<rparr>)) = 64"
proof -
  have "\<not> trap_delegated cpu_m 11" by (simp add: trap_delegated_def cpu_m_alt)
  with trap_return_roundtrip [OF wf_cpu_m refl refl refl, of "\<lparr>trap_epc = 64, trap_tval = 0, trap_cause = 11\<rparr>"]
  show ?thesis by (simp add: cpu_m_alt)
qed

text \<open>C23: the reserved privilege stops the emulator. On a machine whose core is in machine mode, a
  register write leaves 2 in MPP, the return instruction makes 2 the privilege, and an
  environment call then reaches the \<open>abort\<close> of its switch.\<close>
theorem reserved_privilege_aborts:
  "\<exists>c. rv_csr_write cpu_m 0x300 0x1000 = Some c
     \<and> (\<exists>m. rv_base_system env 0 0x30200073 (demo_machine\<lparr>cpus := [c]\<rparr>) = Some m
          \<and> privilege (get_cpu m 0) = 2 \<and> rv_base_system env 0 0x00000073 m = None)"
proof -
  define c where "c = rv_sync_mem_privilege (upd_csr (\<lambda>s. s\<lparr>mstatus := 0x1000\<rparr>) cpu_m)"
  define m where "m = put_cpu 0 (mret_cpu c) (demo_machine\<lparr>cpus := [c]\<rparr>)"
  have i: "rv_csr_of_index 0x300 = Some RV_CSR_mstatus" by (simp add: rv_csr_of_index_def rv_csrs_def)
  have "rv_csr_write cpu_m 0x300 0x1000 = Some c"
    by (simp add: rv_csr_write_def i csr_priv_def c_def status_masks) (simp add: cpu_m_alt)
  moreover have "privilege c = 3" "mstatus (csr c) = 0x1000" by (simp_all add: c_def cpu_m_alt)
  then have "rv_base_system env 0 0x30200073 (demo_machine\<lparr>cpus := [c]\<rparr>) = Some m" and p: "privilege (mret_cpu c) = 2"
    by (simp_all add: rv_base_system_def rv_field_defs m_def mret_privilege_eq)
  moreover have "get_cpu m 0 = mret_cpu c" by (simp add: m_def)
  with p have "privilege (get_cpu m 0) = 2" "rv_base_system env 0 0x00000073 m = None"
    by (simp_all add: rv_base_system_def rv_field_defs ecall_cause_def)
  ultimately show ?thesis by blast
qed

section \<open>Jump and branch offsets\<close>

lemma jal_imm_enc:
  fixes k :: "20 word" and rd :: "5 word" and opc :: "7 word"
  shows "jal_imm (rv_enc_j (push_bit 1 (scast k)) (ucast rd) (ucast opc)) = push_bit 1 (scast k)"
  unfolding jal_imm_def rv_enc_defs rv_field_defs Let_def
  by (rule word32_eqI; simp add: bit_eval del: push_bit_Suc; simp add: numeral_2_eq_2)

lemma branch_imm_enc:
  fixes k :: "12 word" and rs1 rs2 :: "5 word" and f3 :: "3 word" and opc :: "7 word"
  shows "branch_imm (rv_enc_b (push_bit 1 (scast k)) (ucast rs2) (ucast rs1) (ucast f3) (ucast opc))
    = push_bit 1 (scast k)"
  unfolding branch_imm_def rv_enc_defs rv_field_defs Let_def
  by (rule word32_eqI; simp add: bit_eval del: push_bit_Suc; simp add: numeral_2_eq_2)

lemma lui_imm_enc:
  fixes k :: "20 word" and rd :: "5 word" and opc :: "7 word"
  shows "rv_enc_u (ucast k) (ucast rd) (ucast opc) AND 0xfffff000 = push_bit 12 (ucast k)"
  unfolding rv_enc_defs by (rule word32_eqI; simp add: bit_eval)

text \<open>The immediates of the jump, branch and upper-immediate formats survive the encoding. The
  scattered 20-bit and 12-bit offset fields are reassembled to the sign-extended even offset that
  was encoded, for every offset, register and opcode, and the upper immediate to its high bits.\<close>
theorem offset_encode_decode:
  fixes j u :: "20 word" and b :: "12 word" and rd rs1 rs2 :: "5 word" and f3 :: "3 word" and opc :: "7 word"
  shows "jal_imm (rv_enc_j (push_bit 1 (scast j)) (ucast rd) (ucast opc)) = push_bit 1 (scast j)
    \<and> branch_imm (rv_enc_b (push_bit 1 (scast b)) (ucast rs2) (ucast rs1) (ucast f3) (ucast opc)) = push_bit 1 (scast b)
    \<and> rv_enc_u (ucast u) (ucast rd) (ucast opc) AND 0xfffff000 = push_bit 12 (ucast u)"
  by (simp only: jal_imm_enc branch_imm_enc lui_imm_enc)

section \<open>Loads and stores\<close>

text \<open>An access of up to 8 bytes with a larger buffer, as the handlers make it.\<close>

lemma phys_ram_access_buf:
  assumes "wf_machine m" and "e \<le> 3" and "in_ram m addr (2 ^ unat e)" and "2 ^ unat e \<le> length data"
  shows "rv_access_phys env h addr data e mode ignore_pmp m =
    (if pmp_refuses m h addr (push_bit (unat e) 1) mode ignore_pmp then Some (RV_MEM_ACCESS_FAULT, data, m)
     else if mode = RV_ACCESS_STORE then Some (RV_MEM_OK, data, ram_store addr (take (2 ^ unat e) data) m)
     else Some (RV_MEM_OK, overwrite (ram_bytes m addr (2 ^ unat e)) data, m))"
proof -
  have "in_ram m addr (unat (push_bit (unat e) 1 :: u64))"
    using assms(3) by (simp only: unat_size_exp [OF assms(2)])
  note g = in_ram_guard [OF this]
  have "\<not> e > 3" using assms(2) by simp
  with assms g show ?thesis
    by (simp add: rv_access_phys_def Let_def pmp_refuses_def do_pmp_check_result ram_access_def
        ram_read_bytes ram_write_store)
qed

lemma le_word_partial: "n \<le> 8 \<Longrightarrow> le_word (take n (le_bytes 8 w) @ drop n (le_bytes 8 0)) = take_bit (8 * n) w"
  by (rule bit_word_eqI)
    (auto simp: bit_le_word nth_append nth_le_bytes bit_simps div_less_iff_less_mult mult.commute
      simp del: le_bytes.simps)

text \<open>The value a load of kind \<open>funct3\<close> gives for a register whose low bytes were stored.\<close>

definition loaded :: "u8 \<Rightarrow> u64 \<Rightarrow> u64" where
  "loaded funct3 w =
     (let bits = 8 * 2 ^ unat (funct3 AND 3)
      in if funct3 < 3 then signed_take_bit (bits - 1) w else take_bit bits w)"

lemma u8_less_7:
  assumes "f < (7 :: u8)"
  obtains "f = 0" | "f = 1" | "f = 2" | "f = 3" | "f = 4" | "f = 5" | "f = 6"
proof -
  have "f < 8" "f \<noteq> 7" using assms by (auto simp: word_less_nat_alt)
  then show thesis using that u8_less_8 [of f] by metis
qed

lemma load_extend_loaded:
  assumes "f < 7"
  shows "load_extend f (take_bit (8 * 2 ^ unat (f AND 3)) w) = loaded f w
    \<and> load_size_exp f = Some (f AND 3) \<and> f AND 3 \<le> 3"
  using assms
proof (cases rule: u8_less_7)
  case 1
  have "scast (ucast (take_bit 8 w) :: u8) = signed_take_bit 7 w"
    by (rule bit_word_eqI) (auto simp: bit_simps min_def)
  with 1 show ?thesis by (simp add: load_extend_def loaded_def load_size_exp_def)
next
  case 2
  have "scast (ucast (take_bit 16 w) :: u16) = signed_take_bit 15 w"
    by (rule bit_word_eqI) (auto simp: bit_simps min_def)
  with 2 show ?thesis by (simp add: load_extend_def loaded_def load_size_exp_def)
next
  case 3
  have "scast (ucast (take_bit 32 w) :: u32) = signed_take_bit 31 w"
    by (rule bit_word_eqI) (auto simp: bit_simps min_def)
  with 3 show ?thesis by (simp add: load_extend_def loaded_def load_size_exp_def)
qed (simp_all add: load_extend_def loaded_def load_size_exp_def)

text \<open>A data access in machine mode (or with translation off) goes to physical memory.\<close>

lemma access_virt_bare:
  assumes "mem_privilege (get_cpu m h) = 3" and "mode \<noteq> RV_ACCESS_INSN"
  shows "rv_access_virt env h va data e mode m = rv_access_phys env h va data e mode False m"
  using assms by (simp add: rv_access_virt_def)

lemma push_bit_size: "push_bit (unat e) 1 = (2 ^ unat e :: u64)"
  by (simp add: push_bit_eq_mult)

lemma pmp_refuses_same: "get_cpu m h = get_cpu m' h \<Longrightarrow> pmp_refuses m h a s md ig = pmp_refuses m' h a s md ig"
  by (simp add: pmp_refuses_def)


text \<open>A machine whose x2 points into RAM; \<open>sh x1, 3(x2)\<close> and \<open>lh x5, 3(x2)\<close>.\<close>

definition reg_machine :: "unit emu_machine" where
  "reg_machine = demo_machine\<lparr>cpus := [rv_xreg_write (rv_xreg_write cpu_m 1 0x12348081) 2 0x1000]\<rparr>"

lemma wf_reg_machine: "wf_machine reg_machine"
proof -
  have "reg_machine = put_cpu 0 (rv_xreg_write (rv_xreg_write cpu_m 1 0x12348081) 2 0x1000) demo_machine"
    by (simp add: reg_machine_def put_cpu_def)
  moreover have "keeps (get_cpu demo_machine 0) (rv_xreg_write (rv_xreg_write cpu_m 1 0x12348081) 2 0x1000)"
    by (simp, rule keeps_trans [OF keeps_xreg_write keeps_xreg_write])
  from wf_put_cpu [OF wf_demo_machine this] calculation show ?thesis by (simp only:)
qed


end
