(* ===== verification/RV_Float.thy ===== *)
theory RV_Float
  imports Complex_Main RV_Base
begin

text \<open>
  The F and D extensions, \<open>cpu/rv_impl/float.c\<close> and \<open>cpu/rv_softfloat.h\<close>. The bit patterns are
  concrete: NaN boxing, canonical NaNs, comparison, minimum and maximum, sign injection,
  classification, moves, and the saturation of conversions to integers. What the emulator leaves
  to others is the parameter \<open>fpu\<close>: the arithmetic of the host's \<open>float\<close> and \<open>double\<close>, and that of
  the SoftFloat library, which is not part of the repository.
\<close>

section \<open>The arithmetic behind the emulator\<close>

datatype fexcept = FE_INVALID | FE_INEXACT | FE_DIVBYZERO | FE_OVERFLOW | FE_UNDERFLOW

datatype soft_round =
    softfloat_round_near_even | softfloat_round_minMag | softfloat_round_min
  | softfloat_round_max | softfloat_round_near_maxMag

datatype int_type = I32 | U32 | I64 | U64

text \<open>
  The operations the code calls, with their operands: those of \<open>float\<close> and \<open>double\<close> and the
  functions of SoftFloat of the same names. \<open>FP_WIDEN\<close> and \<open>FP_NARROW\<close> are the conversions
  between the two types, \<open>FP_OF_INT\<close> and \<open>FP_TO_INT\<close> those from and to an integer type.
\<close>

datatype fp_op =
    FP_ADD u64 u64 | FP_SUB u64 u64 | FP_MUL u64 u64 | FP_DIV u64 u64 | FP_SQRT u64
  | FP_FMA u64 u64 u64 | FP_WIDEN u64 | FP_NARROW u64 | FP_RINT u64
  | FP_OF_INT int_type int | FP_TO_INT int_type u64

text \<open>
  The Boolean argument is the code's \<open>f64\<close>: a double is its 64 bits, a float its 32 bits in the
  low half. An operation of the host returns the bits and the exceptions it raised, one of
  SoftFloat the bits and the library's flags. \<open>exact_math\<close> is the global \<open>rv_float_exact_math\<close>.
\<close>

record fpu =
  host :: "bool \<Rightarrow> host_round \<Rightarrow> fp_op \<Rightarrow> u64 \<times> fexcept set"
  soft :: "bool \<Rightarrow> soft_round \<Rightarrow> fp_op \<Rightarrow> u64 \<times> u8"
  exact_math :: bool

text \<open>\<open>rv_softfloat.h\<close>.\<close>

definition rv_frm_to_softfloat :: "u32 \<Rightarrow> soft_round" where
  "rv_frm_to_softfloat frm =
     (case rv_frm_of frm of
        Some RV_FRM_RNE \<Rightarrow> softfloat_round_near_even
      | Some RV_FRM_RTZ \<Rightarrow> softfloat_round_minMag
      | Some RV_FRM_RDN \<Rightarrow> softfloat_round_min
      | Some RV_FRM_RUP \<Rightarrow> softfloat_round_max
      | Some RV_FRM_RMM \<Rightarrow> softfloat_round_near_maxMag
      | _ \<Rightarrow> softfloat_round_near_even)"

definition rv_softfloat_getflags :: "u8 \<Rightarrow> u8" where
  "rv_softfloat_getflags fl = fl AND ucast RV_FFLAGS_MASK"

section \<open>Rounding mode and flags\<close>

abbreviation "FUNCT5_ADD \<equiv> (0b00000 :: u32)"
abbreviation "FUNCT5_SUB \<equiv> (0b00001 :: u32)"
abbreviation "FUNCT5_MUL \<equiv> (0b00010 :: u32)"
abbreviation "FUNCT5_DIV \<equiv> (0b00011 :: u32)"
abbreviation "FUNCT5_FCVT_FTOF \<equiv> (0b01000 :: u32)"
abbreviation "FUNCT5_SQRT \<equiv> (0b01011 :: u32)"
abbreviation "FUNCT5_SGNJ \<equiv> (0b00100 :: u32)"
abbreviation "FUNCT5_MIN_MAX \<equiv> (0b00101 :: u32)"
abbreviation "FUNCT5_FCVT_XTOF \<equiv> (0b11010 :: u32)"
abbreviation "FUNCT5_FCVT_FTOX \<equiv> (0b11000 :: u32)"
abbreviation "FUNCT5_MVXF_CLASS \<equiv> (0b11100 :: u32)"
abbreviation "FUNCT5_MVFX \<equiv> (0b11110 :: u32)"
abbreviation "FUNCT5_EQ_LE_LT \<equiv> (0b10100 :: u32)"

text \<open>The host's rounding mode after \<open>apply_frm\<close>, and whether the mode is one the host lacks.\<close>

definition apply_frm :: "rv_cpu \<Rightarrow> u32 \<Rightarrow> host_round \<Rightarrow> host_round \<times> bool" where
  "apply_frm cpu insn rm =
     (let frm = RV_INSN_FUNCT3 insn;
          frm = (if frm = 7 then ucast (drop_bit RV_FCSR_FRM_BASE_BIT (fcsr (csr cpu)) AND RV_FRM_MASK) else frm)
      in case rv_frm_of frm of
           Some RV_FRM_RNE \<Rightarrow> (FE_TONEAREST, False)
         | Some RV_FRM_RTZ \<Rightarrow> (FE_TOWARDZERO, False)
         | Some RV_FRM_RDN \<Rightarrow> (FE_DOWNWARD, False)
         | Some RV_FRM_RUP \<Rightarrow> (FE_UPWARD, False)
         | Some RV_FRM_RMM \<Rightarrow> (FE_TONEAREST, True)
         | _ \<Rightarrow> (rm, True))"

definition or_fcsr :: "u64 \<Rightarrow> rv_cpu \<Rightarrow> rv_cpu" where
  "or_fcsr x cpu = upd_csr (\<lambda>c. c\<lparr>fcsr := fcsr c OR x\<rparr>) cpu"

definition check_fflags :: "fexcept set \<Rightarrow> rv_cpu \<Rightarrow> rv_cpu" where
  "check_fflags flag cpu =
     (let cpu = (if FE_INVALID \<in> flag then or_fcsr (push_bit RV_FFLAGS_NV_BIT 1) cpu else cpu);
          cpu = (if FE_INEXACT \<in> flag then or_fcsr (push_bit RV_FFLAGS_NX_BIT 1) cpu else cpu);
          cpu = (if FE_DIVBYZERO \<in> flag then or_fcsr (push_bit RV_FFLAGS_DZ_BIT 1) cpu else cpu);
          cpu = (if FE_OVERFLOW \<in> flag then or_fcsr (push_bit RV_FFLAGS_OF_BIT 1) cpu else cpu)
      in if FE_UNDERFLOW \<in> flag then or_fcsr (push_bit RV_FFLAGS_UF_BIT 1) cpu else cpu)"

section \<open>Bit patterns\<close>

definition RV_CANONICAL_NAN_F32 :: u64 where
  "RV_CANONICAL_NAN_F32 = 0x7FC00000"

definition RV_CANONICAL_NAN_F64 :: u64 where
  "RV_CANONICAL_NAN_F64 = 0x7FF8000000000000"

text \<open>The classification macros of \<open>math.h\<close> and C's comparisons, on the pattern of either type.\<close>

definition fp_mag :: "bool \<Rightarrow> u64 \<Rightarrow> u64" where
  "fp_mag f64 w = w AND (if f64 then 0x7FFFFFFFFFFFFFFF else 0x7FFFFFFF)"

definition fp_inf :: "bool \<Rightarrow> u64" where
  "fp_inf f64 = (if f64 then 0x7FF0000000000000 else 0x7F800000)"

definition fp_min_normal :: "bool \<Rightarrow> u64" where
  "fp_min_normal f64 = (if f64 then 0x0010000000000000 else 0x00800000)"

definition fp_signbit :: "bool \<Rightarrow> u64 \<Rightarrow> bool" where
  "fp_signbit f64 w = bit w (if f64 then 63 else 31)"

definition fp_isnan :: "bool \<Rightarrow> u64 \<Rightarrow> bool" where
  "fp_isnan f64 w \<longleftrightarrow> fp_mag f64 w > fp_inf f64"

definition fp_isinf :: "bool \<Rightarrow> u64 \<Rightarrow> bool" where
  "fp_isinf f64 w \<longleftrightarrow> fp_mag f64 w = fp_inf f64"

definition fp_iszero :: "bool \<Rightarrow> u64 \<Rightarrow> bool" where
  "fp_iszero f64 w \<longleftrightarrow> fp_mag f64 w = 0"

definition fp_isnormal :: "bool \<Rightarrow> u64 \<Rightarrow> bool" where
  "fp_isnormal f64 w \<longleftrightarrow> fp_mag f64 w \<ge> fp_min_normal f64 \<and> fp_mag f64 w < fp_inf f64"

definition fp_issubnormal :: "bool \<Rightarrow> u64 \<Rightarrow> bool" where
  "fp_issubnormal f64 w \<longleftrightarrow> fp_mag f64 w \<noteq> 0 \<and> fp_mag f64 w < fp_min_normal f64"

definition fp_key :: "bool \<Rightarrow> u64 \<Rightarrow> int" where
  "fp_key f64 w = (if fp_signbit f64 w then - int (unat (fp_mag f64 w)) else int (unat (fp_mag f64 w)))"

definition fp_ordered :: "bool \<Rightarrow> u64 \<Rightarrow> u64 \<Rightarrow> bool" where
  "fp_ordered f64 a b \<longleftrightarrow> \<not> fp_isnan f64 a \<and> \<not> fp_isnan f64 b"

definition fp_eq :: "bool \<Rightarrow> u64 \<Rightarrow> u64 \<Rightarrow> bool" where
  "fp_eq f64 a b \<longleftrightarrow> fp_ordered f64 a b \<and> fp_key f64 a = fp_key f64 b"

definition fp_lt :: "bool \<Rightarrow> u64 \<Rightarrow> u64 \<Rightarrow> bool" where
  "fp_lt f64 a b \<longleftrightarrow> fp_ordered f64 a b \<and> fp_key f64 a < fp_key f64 b"

definition fp_le :: "bool \<Rightarrow> u64 \<Rightarrow> u64 \<Rightarrow> bool" where
  "fp_le f64 a b \<longleftrightarrow> fp_ordered f64 a b \<and> fp_key f64 a \<le> fp_key f64 b"

text \<open>C's conversion of a double to an integer: the value without its fraction.\<close>

definition f64_trunc :: "u64 \<Rightarrow> int" where
  "f64_trunc w =
     (let e = unat (drop_bit 52 w AND 0x7FF);
          f = unat (w AND 0xFFFFFFFFFFFFF);
          m = (if e = 0 then f else 2 ^ 52 + f);
          v = (if e \<ge> 1075 then m * 2 ^ (e - 1075) else m div 2 ^ (1075 - max e 1))
      in if bit w 63 then - int v else int v)"

section \<open>Registers\<close>

definition set_low32 :: "u64 \<Rightarrow> u64 \<Rightarrow> u64" where
  "set_low32 r v = (r AND 0xFFFFFFFF00000000) OR (v AND 0xFFFFFFFF)"

text \<open>A write to the member of \<open>union rv_freg\<close> for the type, and the bits a read of it gives.\<close>

definition set_fp :: "bool \<Rightarrow> u64 \<Rightarrow> u64 \<Rightarrow> u64" where
  "set_fp f64 r v = (if f64 then v else set_low32 r v)"

definition get_fp :: "bool \<Rightarrow> u64 \<Rightarrow> u64" where
  "get_fp f64 r = (if f64 then r else r AND 0xFFFFFFFF)"

definition canon_nan :: "bool \<Rightarrow> u64 \<Rightarrow> u64" where
  "canon_nan f64 res =
     (if fp_isnan f64 res
      then set_fp f64 res (if f64 then RV_CANONICAL_NAN_F64 else RV_CANONICAL_NAN_F32) else res)"

definition rv_freg_read_f32 :: "rv_cpu \<Rightarrow> u32 \<Rightarrow> u64" where
  "rv_freg_read_f32 cpu idx =
     (let r = rv_freg_read cpu idx
      in if drop_bit 32 r \<noteq> 0xFFFFFFFF then 0xFFFFFFFF00000000 OR RV_CANONICAL_NAN_F32 else r)"

definition read_fp :: "rv_cpu \<Rightarrow> bool \<Rightarrow> u32 \<Rightarrow> u64" where
  "read_fp cpu f64 idx = (if f64 then rv_freg_read cpu idx else rv_freg_read_f32 cpu idx)"

definition rv_is_snan :: "u64 \<Rightarrow> bool \<Rightarrow> bool" where
  "rv_is_snan r f64 \<longleftrightarrow>
     (if f64 then r AND 0x7FF8000000000000 = 0x7FF0000000000000 \<and> r AND 0x0007FFFFFFFFFFFF \<noteq> 0
      else r AND 0x7FC00000 = 0x7F800000 \<and> r AND 0x003FFFFF \<noteq> 0)"

section \<open>Operations\<close>

type_synonym fp_result = "rv_cpu \<times> fexcept set \<times> u8"

text \<open>
  One call of the arithmetic: its result, the host's exceptions and SoftFloat's flags. SoftFloat
  rounds by the mode that \<open>rv_softfloat_setround\<close> made of the instruction's field.
\<close>

definition fp_call :: "fpu \<Rightarrow> host_round \<Rightarrow> u32 \<Rightarrow> bool \<Rightarrow> bool \<Rightarrow> fp_op \<Rightarrow> u64 \<times> fexcept set \<times> u8" where
  "fp_call fp rm insn softfloat f64 op =
     (if softfloat then
        let (v, fl) = soft fp f64 (rv_frm_to_softfloat (RV_INSN_FUNCT3 insn)) op in (v, {}, fl)
      else let (v, ex) = host fp f64 rm op in (v, ex, 0))"

definition float_binop ::
  "(u64 \<Rightarrow> u64 \<Rightarrow> fp_op) \<Rightarrow> fpu \<Rightarrow> host_round \<Rightarrow> rv_cpu \<Rightarrow> u32 \<Rightarrow> bool \<Rightarrow> bool \<Rightarrow> fp_result" where
  "float_binop op fp rm cpu insn softfloat f64 =
     (let lhs = read_fp cpu f64 (RV_INSN_RS1 insn);
          rhs = read_fp cpu f64 (RV_INSN_RS2 insn);
          (v, ex, fl) = fp_call fp rm insn softfloat f64 (op (get_fp f64 lhs) (get_fp f64 rhs));
          res = set_fp f64 0xFFFFFFFFFFFFFFFF v;
          res = (if softfloat then res else canon_nan f64 res)
      in (rv_freg_write cpu (RV_INSN_RD insn) res, ex, fl))"

definition rv_float_add :: "fpu \<Rightarrow> host_round \<Rightarrow> rv_cpu \<Rightarrow> u32 \<Rightarrow> bool \<Rightarrow> bool \<Rightarrow> fp_result" where
  "rv_float_add = float_binop FP_ADD"

definition rv_float_sub :: "fpu \<Rightarrow> host_round \<Rightarrow> rv_cpu \<Rightarrow> u32 \<Rightarrow> bool \<Rightarrow> bool \<Rightarrow> fp_result" where
  "rv_float_sub = float_binop FP_SUB"

definition rv_float_mul :: "fpu \<Rightarrow> host_round \<Rightarrow> rv_cpu \<Rightarrow> u32 \<Rightarrow> bool \<Rightarrow> bool \<Rightarrow> fp_result" where
  "rv_float_mul = float_binop FP_MUL"

definition rv_float_div :: "fpu \<Rightarrow> host_round \<Rightarrow> rv_cpu \<Rightarrow> u32 \<Rightarrow> bool \<Rightarrow> bool \<Rightarrow> fp_result" where
  "rv_float_div = float_binop FP_DIV"

definition rv_float_sqrt :: "fpu \<Rightarrow> host_round \<Rightarrow> rv_cpu \<Rightarrow> u32 \<Rightarrow> bool \<Rightarrow> bool \<Rightarrow> fp_result" where
  "rv_float_sqrt fp rm cpu insn softfloat f64 =
     (let arg = read_fp cpu f64 (RV_INSN_RS1 insn);
          (v, ex, fl) = fp_call fp rm insn softfloat f64 (FP_SQRT (get_fp f64 arg));
          res = canon_nan f64 (set_fp f64 0xFFFFFFFFFFFFFFFF v)
      in (rv_freg_write cpu (RV_INSN_RD insn) res, ex, fl))"

definition rv_float_ftof :: "fpu \<Rightarrow> host_round \<Rightarrow> rv_cpu \<Rightarrow> u32 \<Rightarrow> bool \<Rightarrow> bool \<Rightarrow> fp_result" where
  "rv_float_ftof fp rm cpu insn softfloat f64 =
     (let src_f64 = (RV_INSN_RS2 insn = 1);
          arg = read_fp cpu src_f64 (RV_INSN_RS1 insn);
          (v, ex, fl) =
            (if f64 then fp_call fp rm insn False True (FP_WIDEN (get_fp False arg))
             else fp_call fp rm insn softfloat False (FP_NARROW arg));
          res = canon_nan f64 (set_fp f64 0xFFFFFFFFFFFFFFFF v)
      in (rv_freg_write cpu (RV_INSN_RD insn) res, ex, fl))"

text \<open>The integer type that bits 0 and 1 of \<open>rs2\<close> select, and an argument of that type.\<close>

definition cvt_type :: "u32 \<Rightarrow> int_type" where
  "cvt_type insn =
     (let is_unsigned = bit (RV_INSN_RS2 insn) 0; x64 = bit (RV_INSN_RS2 insn) 1
      in if is_unsigned \<and> x64 then U64 else if x64 then I64 else if is_unsigned then U32 else I32)"

fun cvt_arg :: "int_type \<Rightarrow> u64 \<Rightarrow> int" where
  "cvt_arg U64 arg = uint arg"
| "cvt_arg I64 arg = sint arg"
| "cvt_arg U32 arg = uint (ucast arg :: u32)"
| "cvt_arg I32 arg = sint (ucast arg :: u32)"

definition rv_float_xtof :: "fpu \<Rightarrow> host_round \<Rightarrow> rv_cpu \<Rightarrow> u32 \<Rightarrow> bool \<Rightarrow> bool \<Rightarrow> fp_result" where
  "rv_float_xtof fp rm cpu insn softfloat f64 =
     (let ty = cvt_type insn;
          arg = rv_xreg_read cpu (RV_INSN_RS1 insn);
          (v, ex, fl) = fp_call fp rm insn softfloat f64 (FP_OF_INT ty (cvt_arg ty arg));
          res = set_fp f64 0xFFFFFFFFFFFFFFFF v
      in (rv_freg_write cpu (RV_INSN_RD insn) res, ex, fl))"

text \<open>\<open>FTOX_HELPER\<close> with the limits of each type, as integers and as doubles.\<close>

fun ftox_min :: "int_type \<Rightarrow> int" where
  "ftox_min U64 = 0" | "ftox_min I64 = - (2 ^ 63)" | "ftox_min U32 = 0" | "ftox_min I32 = - (2 ^ 31)"

fun ftox_max :: "int_type \<Rightarrow> int" where
  "ftox_max U64 = 2 ^ 64 - 1" | "ftox_max I64 = 2 ^ 63 - 1"
| "ftox_max U32 = 2 ^ 32 - 1" | "ftox_max I32 = 2 ^ 31 - 1"

fun ftox_lo :: "int_type \<Rightarrow> u64" where
  "ftox_lo U64 = 0" | "ftox_lo I64 = 0xC3E0000000000000" | "ftox_lo U32 = 0" | "ftox_lo I32 = 0xC1E0000000000000"

fun ftox_hi :: "int_type \<Rightarrow> u64" where
  "ftox_hi U64 = 0x43F0000000000000" | "ftox_hi I64 = 0x43E0000000000000"
| "ftox_hi U32 = 0x41F0000000000000" | "ftox_hi I32 = 0x41E0000000000000"

definition ftox_helper ::
  "fpu \<Rightarrow> host_round \<Rightarrow> rv_cpu \<Rightarrow> bool \<Rightarrow> u64 \<Rightarrow> int_type \<Rightarrow> int \<times> rv_cpu \<times> fexcept set" where
  "ftox_helper fp rm cpu f64 value ty =
     (if fp_isnan f64 value then (ftox_max ty, or_fcsr (push_bit RV_FFLAGS_NV_BIT 1) cpu, {})
      else
        let (d, ex1) = (if f64 then (value, {}) else host fp True rm (FP_WIDEN (get_fp False value)));
            (rv, ex2) = host fp True rm (FP_RINT d)
        in if \<not> fp_lt True rv (ftox_hi ty) \<or> \<not> fp_le True (ftox_lo ty) rv
           then (if fp_lt True rv 0 then ftox_min ty else ftox_max ty,
                 or_fcsr (push_bit RV_FFLAGS_NV_BIT 1) cpu, (ex1 \<union> ex2) - {FE_INEXACT})
           else (f64_trunc rv, cpu, ex1 \<union> ex2))"

definition rv_float_ftox :: "fpu \<Rightarrow> host_round \<Rightarrow> rv_cpu \<Rightarrow> u32 \<Rightarrow> bool \<Rightarrow> bool \<Rightarrow> fp_result" where
  "rv_float_ftox fp rm cpu insn softfloat f64 =
     (let ty = cvt_type insn;
          arg = read_fp cpu f64 (RV_INSN_RS1 insn);
          (res, cpu, ex, fl) =
            (if softfloat then
               let (v, ex, fl) = fp_call fp rm insn True f64 (FP_TO_INT ty (get_fp f64 arg)) in (v, cpu, ex, fl)
             else
               let (i, cpu, ex) = ftox_helper fp rm cpu f64 arg ty in (word_of_int i, cpu, ex, 0));
          res = (if ty = U32 then sext32 res else res)
      in (rv_xreg_write cpu (RV_INSN_RD insn) res, ex, fl))"

definition fclass_bits :: "bool \<Rightarrow> u64 \<Rightarrow> u64" where
  "fclass_bits f64 arg =
     (let res = 0;
          res = (if fp_isinf f64 arg then
                   if fp_signbit f64 arg then res OR push_bit 0 1 else res OR push_bit 7 1 else res);
          res = (if fp_iszero f64 arg then
                   if fp_signbit f64 arg then res OR push_bit 3 1 else res OR push_bit 4 1 else res);
          res = (if fp_isnormal f64 arg then
                   if fp_signbit f64 arg then res OR push_bit 1 1 else res OR push_bit 6 1 else res);
          res = (if fp_issubnormal f64 arg then
                   if fp_signbit f64 arg then res OR push_bit 2 1 else res OR push_bit 5 1 else res)
      in if rv_is_snan arg f64 then res OR push_bit 8 1
         else if fp_isnan f64 arg then res OR push_bit 9 1 else res)"

definition rv_float_mvxf_fclass :: "rv_cpu \<Rightarrow> u32 \<Rightarrow> bool \<Rightarrow> fp_result" where
  "rv_float_mvxf_fclass cpu insn f64 =
     (let arg = (if RV_INSN_FUNCT3 insn = 1 \<and> \<not> f64 then rv_freg_read_f32 cpu (RV_INSN_RS1 insn)
                 else rv_freg_read cpu (RV_INSN_RS1 insn));
          res = (if RV_INSN_FUNCT3 insn = 1 then fclass_bits f64 arg
                 else if f64 then arg else sext32 arg)
      in (rv_xreg_write cpu (RV_INSN_RD insn) res, {}, 0))"

definition rv_float_mvfx :: "rv_cpu \<Rightarrow> u32 \<Rightarrow> bool \<Rightarrow> fp_result" where
  "rv_float_mvfx cpu insn f64 =
     (let arg = rv_xreg_read cpu (RV_INSN_RS1 insn)
      in (rv_freg_write cpu (RV_INSN_RD insn) (set_fp f64 0xFFFFFFFFFFFFFFFF arg), {}, 0))"

section \<open>Operations without a rounding mode\<close>

text \<open>
  The comparisons, with the exception that C's operators raise: \<open><\<close> and \<open><=\<close> on any NaN, \<open>==\<close> on a
  signaling one. \<open>None\<close> is the default branch of the switch here and below.
\<close>

definition float_compare :: "u32 \<Rightarrow> bool \<Rightarrow> u64 \<Rightarrow> u64 \<Rightarrow> (bool \<times> fexcept set) option" where
  "float_compare funct3 f64 lhs rhs =
     (if funct3 = 2 then
        Some (fp_eq f64 lhs rhs, if rv_is_snan lhs f64 \<or> rv_is_snan rhs f64 then {FE_INVALID} else {})
      else if funct3 = 1 then
        Some (fp_lt f64 lhs rhs, if fp_ordered f64 lhs rhs then {} else {FE_INVALID})
      else if funct3 = 0 then
        Some (fp_le f64 lhs rhs, if fp_ordered f64 lhs rhs then {} else {FE_INVALID})
      else None)"

definition float_sgnj :: "u32 \<Rightarrow> bool \<Rightarrow> u64 \<Rightarrow> u64 \<Rightarrow> u64 option" where
  "float_sgnj funct3 f64 lhs rhs =
     (let res = set_fp f64 0xFFFFFFFFFFFFFFFF lhs;
          sign_bit = push_bit (if f64 then 63 else 31) 1
      in if funct3 = 0 then Some ((res AND NOT sign_bit) OR (rhs AND sign_bit))
         else if funct3 = 1 then Some ((res AND NOT sign_bit) OR (NOT rhs AND sign_bit))
         else if funct3 = 2 then Some (res XOR (rhs AND sign_bit))
         else None)"

text \<open>C's \<open>fmin\<close> and \<open>fmax\<close> are only called on numbers that are not both zero.\<close>

definition float_min_max :: "u32 \<Rightarrow> bool \<Rightarrow> u64 \<Rightarrow> u64 \<Rightarrow> u64 option" where
  "float_min_max funct3 f64 lhs rhs =
     (let lhs_nan = fp_isnan f64 lhs; rhs_nan = fp_isnan f64 rhs; ones = 0xFFFFFFFFFFFFFFFF
      in if lhs_nan \<and> rhs_nan then
           Some (if f64 then RV_CANONICAL_NAN_F64 else set_low32 ones RV_CANONICAL_NAN_F32)
         else if lhs_nan then Some rhs
         else if rhs_nan then Some lhs
         else
           let is_min = (funct3 = 0);
               both_zero_f32 = (\<not> f64 \<and> lhs AND 0x7FFFFFFF = 0 \<and> rhs AND 0x7FFFFFFF = 0);
               both_zero_f64 = (f64 \<and> lhs AND 0x7FFFFFFFFFFFFFFF = 0 \<and> rhs AND 0x7FFFFFFFFFFFFFFF = 0)
           in if both_zero_f32 then Some (set_low32 ones (if is_min then 0x80000000 else 0))
              else if both_zero_f64 then Some (if is_min then 0x8000000000000000 else 0)
              else if funct3 = 0 then Some (set_fp f64 ones (if fp_le f64 lhs rhs then lhs else rhs))
              else if funct3 = 1 then Some (set_fp f64 ones (if fp_le f64 lhs rhs then rhs else lhs))
              else None)"

section \<open>Instructions\<close>

definition set_host_frm :: "nat \<Rightarrow> host_round \<Rightarrow> 'd emu_machine \<Rightarrow> 'd emu_machine" where
  "set_host_frm h rm m = m\<lparr>host_frm := (host_frm m)(h := rm)\<rparr>"

definition op_fp_compare ::
  "'d emu_env \<Rightarrow> nat \<Rightarrow> u32 \<Rightarrow> bool \<Rightarrow> 'd emu_machine \<Rightarrow> 'd emu_machine option" where
  "op_fp_compare env h insn f64 m =
     (let cpu = get_cpu m h;
          lhs = read_fp cpu f64 (RV_INSN_RS1 insn);
          rhs = read_fp cpu f64 (RV_INSN_RS2 insn)
      in case float_compare (RV_INSN_FUNCT3 insn) f64 lhs rhs of
           None \<Rightarrow> rv_do_iillegal env h insn m
         | Some (res, ex) \<Rightarrow>
             Some (put_cpu h (check_fflags ex (rv_xreg_write cpu (RV_INSN_RD insn) (of_bool res))) m))"

definition op_fp_sgnj ::
  "'d emu_env \<Rightarrow> nat \<Rightarrow> u32 \<Rightarrow> bool \<Rightarrow> 'd emu_machine \<Rightarrow> 'd emu_machine option" where
  "op_fp_sgnj env h insn f64 m =
     (let cpu = get_cpu m h;
          lhs = read_fp cpu f64 (RV_INSN_RS1 insn);
          rhs = read_fp cpu f64 (RV_INSN_RS2 insn)
      in case float_sgnj (RV_INSN_FUNCT3 insn) f64 lhs rhs of
           None \<Rightarrow> rv_do_iillegal env h insn m
         | Some res \<Rightarrow> Some (put_cpu h (rv_freg_write cpu (RV_INSN_RD insn) res) m))"

definition op_fp_min_max ::
  "'d emu_env \<Rightarrow> nat \<Rightarrow> u32 \<Rightarrow> bool \<Rightarrow> 'd emu_machine \<Rightarrow> 'd emu_machine option" where
  "op_fp_min_max env h insn f64 m =
     (let cpu = get_cpu m h;
          lhs = read_fp cpu f64 (RV_INSN_RS1 insn);
          rhs = read_fp cpu f64 (RV_INSN_RS2 insn);
          cpu = (if rv_is_snan lhs f64 \<or> rv_is_snan rhs f64
                 then or_fcsr (push_bit RV_FFLAGS_NV_BIT 1) cpu else cpu)
      in case float_min_max (RV_INSN_FUNCT3 insn) f64 lhs rhs of
           None \<Rightarrow> rv_do_iillegal env h insn (put_cpu h cpu m)
         | Some res \<Rightarrow>
             if RV_INSN_FUNCT3 insn > 1 then rv_do_iillegal env h insn (put_cpu h cpu m)
             else Some (put_cpu h (rv_freg_write cpu (RV_INSN_RD insn) res) m))"

text \<open>The switch over the operations that round; \<open>None\<close> is its default branch.\<close>

definition op_fp_rounding :: "fpu \<Rightarrow> host_round \<Rightarrow> rv_cpu \<Rightarrow> u32 \<Rightarrow> bool \<Rightarrow> bool \<Rightarrow> fp_result option" where
  "op_fp_rounding fp rm cpu insn softfloat f64 =
     (let funct5 = RV_INSN_FUNCT5 insn
      in if funct5 = FUNCT5_ADD then Some (rv_float_add fp rm cpu insn softfloat f64)
         else if funct5 = FUNCT5_SUB then Some (rv_float_sub fp rm cpu insn softfloat f64)
         else if funct5 = FUNCT5_MUL then Some (rv_float_mul fp rm cpu insn softfloat f64)
         else if funct5 = FUNCT5_DIV then Some (rv_float_div fp rm cpu insn softfloat f64)
         else if funct5 = FUNCT5_SQRT then Some (rv_float_sqrt fp rm cpu insn softfloat f64)
         else if funct5 = FUNCT5_FCVT_FTOF then Some (rv_float_ftof fp rm cpu insn softfloat f64)
         else if funct5 = FUNCT5_FCVT_XTOF then Some (rv_float_xtof fp rm cpu insn softfloat f64)
         else if funct5 = FUNCT5_FCVT_FTOX then Some (rv_float_ftox fp rm cpu insn softfloat f64)
         else if funct5 = FUNCT5_MVXF_CLASS then Some (rv_float_mvxf_fclass cpu insn f64)
         else if funct5 = FUNCT5_MVFX then Some (rv_float_mvfx cpu insn f64)
         else None)"

text \<open>The flags of a rounding operation, gathered at its end.\<close>

definition gather_flags :: "bool \<Rightarrow> fp_result \<Rightarrow> rv_cpu" where
  "gather_flags softfloat r =
     (case r of (cpu, ex, fl) \<Rightarrow>
        if softfloat then or_fcsr (ucast (rv_softfloat_getflags fl)) cpu else check_fflags ex cpu)"

definition rv_float_op_fp ::
  "fpu \<Rightarrow> 'd emu_env \<Rightarrow> nat \<Rightarrow> u32 \<Rightarrow> 'd emu_machine \<Rightarrow> 'd emu_machine option" where
  "rv_float_op_fp fp env h insn m =
     (let cpu = get_cpu m h; ffmt = rv_ffmt_of (RV_INSN_FFMT insn)
      in if \<not> RV_CHECK_XS (mstatus (csr cpu)) RV_STATUS_FS_BASE_BIT then rv_do_iillegal env h insn m
         else if ffmt \<noteq> Some RV_FFMT_F32 \<and> ffmt \<noteq> Some RV_FFMT_F64 then rv_do_iillegal env h insn m
         else
           let f64 = (ffmt = Some RV_FFMT_F64); funct5 = RV_INSN_FUNCT5 insn
           in if funct5 = FUNCT5_EQ_LE_LT then op_fp_compare env h insn f64 m
              else if funct5 = FUNCT5_SGNJ then op_fp_sgnj env h insn f64 m
              else if funct5 = FUNCT5_MIN_MAX then op_fp_min_max env h insn f64 m
              else
                let (rm, inexact_frm) = apply_frm cpu insn (host_frm m h);
                    m = set_host_frm h rm m;
                    softfloat = (exact_math fp \<and> inexact_frm)
                in case op_fp_rounding fp rm cpu insn softfloat f64 of
                     None \<Rightarrow> rv_do_iillegal env h insn m
                   | Some r \<Rightarrow> Some (put_cpu h (gather_flags softfloat r) m))"

text \<open>The fused operations; both formats of the C function are one with \<open>f64\<close> as parameter.\<close>

definition float_fmadd :: "fpu \<Rightarrow> host_round \<Rightarrow> rv_cpu \<Rightarrow> u32 \<Rightarrow> bool \<Rightarrow> bool \<Rightarrow> fp_result" where
  "float_fmadd fp rm cpu insn softfloat f64 =
     (let subtract = bit (RV_INSN_OP_MAJ insn) 0;
          negate_mul = bit (RV_INSN_OP_MAJ insn) 1;
          sign = push_bit (if f64 then 63 else 31) 1;
          rs1 = read_fp cpu f64 (RV_INSN_RS1 insn);
          rs2 = read_fp cpu f64 (RV_INSN_RS2 insn);
          rs3 = read_fp cpu f64 (RV_INSN_RS3 insn);
          cpu = (if fp_isinf f64 rs1 \<and> fp_iszero f64 rs2 \<or> fp_isinf f64 rs2 \<and> fp_iszero f64 rs1
                 then or_fcsr (push_bit RV_FFLAGS_NV_BIT 1) cpu else cpu);
          rs1 = (if negate_mul then rs1 XOR sign else rs1);
          rs3 = (if subtract then rs3 XOR sign else rs3);
          (v, ex, fl) = fp_call fp rm insn softfloat f64
            (FP_FMA (get_fp f64 rs1) (get_fp f64 rs2) (get_fp f64 rs3))
      in (rv_freg_write cpu (RV_INSN_RD insn) (set_fp f64 0xFFFFFFFFFFFFFFFF v), ex, fl))"

definition rv_float_fmadd ::
  "fpu \<Rightarrow> 'd emu_env \<Rightarrow> nat \<Rightarrow> u32 \<Rightarrow> 'd emu_machine \<Rightarrow> 'd emu_machine option" where
  "rv_float_fmadd fp env h insn m =
     (let cpu = get_cpu m h; ffmt = rv_ffmt_of (RV_INSN_FFMT insn)
      in if \<not> RV_CHECK_XS (mstatus (csr cpu)) RV_STATUS_FS_BASE_BIT then rv_do_iillegal env h insn m
         else if ffmt \<noteq> Some RV_FFMT_F32 \<and> ffmt \<noteq> Some RV_FFMT_F64 then rv_do_iillegal env h insn m
         else
           let f64 = (ffmt = Some RV_FFMT_F64);
               (rm, inexact_frm) = apply_frm cpu insn (host_frm m h);
               m = set_host_frm h rm m;
               softfloat = (exact_math fp \<and> inexact_frm)
           in Some (put_cpu h (gather_flags softfloat (float_fmadd fp rm cpu insn softfloat f64)) m))"

section \<open>The invariant\<close>

lemma keeps_or_fcsr:
  assumes "x AND 0xFF = x"
  shows "keeps c (or_fcsr x c)"
proof -
  have "wf_cpu (or_fcsr x c)" if "wf_cpu c"
    using wf_set_fcsr [OF that masked_or [OF wf_fcsr [OF that] assms]] by (simp add: or_fcsr_def)
  then show ?thesis by (simp add: keeps_def or_fcsr_def)
qed

lemma keeps_flag: "k < 8 \<Longrightarrow> keeps c (or_fcsr (push_bit k 1) c)"
  by (rule keeps_or_fcsr) (auto simp: less_Suc_eq numeral_eq_Suc)

lemma keeps_flag_if:
  "k < 8 \<Longrightarrow> keeps c d \<Longrightarrow> keeps c (if P then or_fcsr (push_bit k 1) d else d)"
  by (cases P; simp only: if_True if_False; blast intro: keeps_trans keeps_flag)

lemma keeps_check_fflags: "keeps c (check_fflags ex c)"
  unfolding check_fflags_def Let_def by (intro keeps_flag_if keeps_refl) simp_all

lemma ucast_u8_and: "(ucast (x :: u8) :: u64) AND 0xFF = ucast x"
proof -
  have "(ucast x :: u64) AND mask 8 = ucast x"
    by (rule bit_word_eqI) (auto simp: bit_simps dest: bit_imp_le_length)
  then show ?thesis by (simp add: mask_eq_exp_minus_1)
qed

lemma keeps_gather: "keeps c (fst r) \<Longrightarrow> keeps c (gather_flags softfloat r)"
  using keeps_trans [OF _ keeps_check_fflags] keeps_trans [OF _ keeps_or_fcsr [OF ucast_u8_and]]
  by (auto simp: gather_flags_def split: prod.splits)

lemma keeps_float:
  "keeps c (fst (float_binop op fp rm c insn softfloat f64))"
  "keeps c (fst (rv_float_sqrt fp rm c insn softfloat f64))"
  "keeps c (fst (rv_float_ftof fp rm c insn softfloat f64))"
  "keeps c (fst (rv_float_xtof fp rm c insn softfloat f64))"
  "keeps c (fst (rv_float_mvxf_fclass c insn f64))"
  "keeps c (fst (rv_float_mvfx c insn f64))"
  by (simp_all add: float_binop_def rv_float_sqrt_def rv_float_ftof_def rv_float_xtof_def
      rv_float_mvxf_fclass_def rv_float_mvfx_def Let_def split: prod.split)

lemma ftox_helper_cpu: "fst (snd (ftox_helper fp rm c f64 v ty)) \<in> {c, or_fcsr (push_bit RV_FFLAGS_NV_BIT 1) c}"
  by (auto simp: ftox_helper_def Let_def split: prod.splits)

lemma keeps_ftox: "keeps c (fst (rv_float_ftox fp rm c insn softfloat f64))"
proof -
  have "keeps c (rv_xreg_write d i v)" if "d \<in> {c, or_fcsr (push_bit RV_FFLAGS_NV_BIT 1) c}" for d i v
    using that keeps_trans [OF keeps_flag keeps_xreg_write, of RV_FFLAGS_NV_BIT c] by auto
  then show ?thesis
    using ftox_helper_cpu [of fp rm c f64 "read_fp c f64 (RV_INSN_RS1 insn)" "cvt_type insn"]
    by (auto simp: rv_float_ftox_def Let_def split: prod.split)
qed

lemma keeps_fmadd: "keeps c (fst (float_fmadd fp rm c insn softfloat f64))"
proof -
  have "keeps c (rv_freg_write (if P then or_fcsr (push_bit RV_FFLAGS_NV_BIT 1) c else c) i v)" for P i v
    by (rule keeps_trans [OF keeps_flag_if keeps_freg_write]) simp_all
  then show ?thesis
    by (simp add: float_fmadd_def Let_def case_prod_beta)
qed

lemma keeps_rounding: "op_fp_rounding fp rm c insn softfloat f64 = Some r \<Longrightarrow> keeps c (fst r)"
  using keeps_float keeps_ftox
  by (auto simp: op_fp_rounding_def Let_def rv_float_add_def rv_float_sub_def rv_float_mul_def
      rv_float_div_def split: if_splits)

lemma wf_machine_host_frm [simp]: "wf_machine (m\<lparr>host_frm := f\<rparr>) \<longleftrightarrow> wf_machine m"
  by (simp add: wf_machine_def split: option.splits)

lemma stays_host_frm [stays_rules]: "wf_next m x \<Longrightarrow> wf_next m (set_host_frm h rm x)"
  by (simp add: wf_next_def set_host_frm_def)

lemma set_host_frm_fields [simp]: "cpus (set_host_frm h rm m) = cpus m" "trap_hook (set_host_frm h rm m) = trap_hook m"
  by (simp_all add: set_host_frm_def)

context emu_callbacks
begin

lemma stays_op_fp_compare: "wf_next m x \<Longrightarrow> stays m (op_fp_compare env h insn f64 x)"
  unfolding op_fp_compare_def Let_def
  by (intro stays_rules; simp only: split_paired_all prod.case; intro stays_rules keeps_trans [OF keeps_xreg_write keeps_check_fflags])

lemma stays_op_fp_sgnj: "wf_next m x \<Longrightarrow> stays m (op_fp_sgnj env h insn f64 x)"
  unfolding op_fp_sgnj_def Let_def by (intro stays_rules keeps_freg_write)

lemma stays_op_fp_min_max: "wf_next m x \<Longrightarrow> stays m (op_fp_min_max env h insn f64 x)"
  unfolding op_fp_min_max_def Let_def
  by (intro stays_rules keeps_trans [OF keeps_flag_if keeps_freg_write] keeps_flag_if keeps_refl) simp_all

lemma stays_float_op_fp [stays_rules]: "wf_next m x \<Longrightarrow> stays m (rv_float_op_fp fp env h insn x)"
proof -
  assume wf: "wf_next m x"
  obtain rm b where frm: "apply_frm (get_cpu x h) insn (host_frm x h) = (rm, b)" by fastforce
  show ?thesis
    unfolding rv_float_op_fp_def Let_def frm prod.case
    by (intro stays_rules stays_op_fp_compare stays_op_fp_sgnj stays_op_fp_min_max wf keeps_gather)
      (simp add: keeps_rounding)
qed

lemma stays_float_fmadd [stays_rules]: "wf_next m x \<Longrightarrow> stays m (rv_float_fmadd fp env h insn x)"
proof -
  assume wf: "wf_next m x"
  obtain rm b where frm: "apply_frm (get_cpu x h) insn (host_frm x h) = (rm, b)" by fastforce
  show ?thesis
    unfolding rv_float_fmadd_def Let_def frm prod.case
    by (intro stays_rules wf keeps_gather) (simp add: keeps_fmadd)
qed

end

text \<open>An arithmetic for the examples that do not use it.\<close>

definition fpu_zero :: fpu where
  "fpu_zero = \<lparr>host = (\<lambda>_ _ _. (0, {})), soft = (\<lambda>_ _ _. (0, 0)), exact_math = False\<rparr>"

end
