(* ===== verification/RV_Float_Spec.thy ===== *)
theory RV_Float_Spec
  imports RV_Float
begin

text \<open>
  What the floating-point instructions compute, against IEEE 754 values and the architecture's
  rules: comparison, minimum and maximum, classification, conversion to integers, NaN boxing.
\<close>

section \<open>The numbers a pattern stands for\<close>

abbreviation "fp_prec f64 \<equiv> (if f64 then 52 else 23 :: nat)"
abbreviation "fp_bias f64 \<equiv> (if f64 then 1023 else 127 :: nat)"

definition fp_exp :: "bool \<Rightarrow> u64 \<Rightarrow> nat" where
  "fp_exp f64 w = unat (fp_mag f64 w) div 2 ^ fp_prec f64"

definition fp_frac :: "bool \<Rightarrow> u64 \<Rightarrow> nat" where
  "fp_frac f64 w = unat (fp_mag f64 w) mod 2 ^ fp_prec f64"

text \<open>
  The value of a pattern that is no NaN, as IEEE 754 has it for numbers; an infinity counts as
  the power of two that follows the greatest finite number, so the order includes it.
\<close>

definition fp_value :: "bool \<Rightarrow> u64 \<Rightarrow> real" where
  "fp_value f64 w =
     (let p = fp_prec f64; e = fp_exp f64 w; f = fp_frac f64 w;
          v = (if e = 0 then (f / 2 ^ p) * (2 / 2 ^ fp_bias f64)
               else (1 + f / 2 ^ p) * (2 ^ e / 2 ^ fp_bias f64))
      in if fp_signbit f64 w then - v else v)"

text \<open>Multiplied by a power of two the magnitude is a natural number, increasing with the pattern.\<close>

definition fp_scaled :: "nat \<Rightarrow> nat \<Rightarrow> nat" where
  "fp_scaled p n = (let e = n div 2 ^ p; f = n mod 2 ^ p in if e = 0 then 2 * f else (2 ^ p + f) * 2 ^ e)"

lemma fp_scaled_Suc: "fp_scaled p n < fp_scaled p (Suc n)"
proof -
  let ?e = "n div 2 ^ p" and ?f = "n mod 2 ^ p"
  have n: "n = ?e * 2 ^ p + ?f" by (rule div_mult_mod_eq [symmetric])
  have f: "?f < 2 ^ p" by simp
  show ?thesis
  proof (cases "Suc ?f = 2 ^ p")
    case True
    then have "Suc n = Suc ?e * 2 ^ p" using n by simp
    then have "Suc n div 2 ^ p = Suc ?e" "Suc n mod 2 ^ p = 0" by (metis div_mult_self_is_m zero_less_numeral zero_less_power, simp)
    moreover have "(2 ^ p + ?f) * 2 ^ ?e < 2 ^ p * 2 ^ Suc ?e" if "0 < ?e"
      using f by simp
    ultimately show ?thesis using f by (simp add: fp_scaled_def Let_def)
  next
    case False
    then have "Suc n div 2 ^ p = ?e" "Suc n mod 2 ^ p = Suc ?f"
      by (simp_all add: div_Suc mod_Suc)
    then show ?thesis by (simp add: fp_scaled_def Let_def)
  qed
qed

lemma fp_scaled_mono: "strict_mono (fp_scaled p)"
  by (simp add: strict_mono_Suc_iff fp_scaled_Suc)

lemma fp_scaled_less [simp]: "fp_scaled p x < fp_scaled p y \<longleftrightarrow> x < y"
  using strict_mono_less [OF fp_scaled_mono] by blast

lemma fp_scaled_eq [simp]: "fp_scaled p x = fp_scaled p y \<longleftrightarrow> x = y"
  using strict_mono_eq [OF fp_scaled_mono] by blast

lemma fp_value_scaled:
  "fp_value f64 w =
     of_int (if fp_signbit f64 w then - int (fp_scaled (fp_prec f64) (unat (fp_mag f64 w)))
       else int (fp_scaled (fp_prec f64) (unat (fp_mag f64 w)))) / 2 ^ (fp_bias f64 + fp_prec f64)"
  by (simp add: fp_value_def fp_scaled_def fp_exp_def fp_frac_def Let_def power_add field_simps
      del: power_numeral)

lemma fp_scaled_signed_less:
  "(if p then - int (fp_scaled k a) else int (fp_scaled k a)) < (if q then - int (fp_scaled k b) else int (fp_scaled k b))
    \<longleftrightarrow> (if p then - int a else int a) < (if q then - int b else int b)"
proof -
  have z: "fp_scaled k 0 = 0" by (simp add: fp_scaled_def)
  have "0 < x \<Longrightarrow> 0 < fp_scaled k x" for x
    using fp_scaled_less [of k 0 x] z by simp
  from this [of a] this [of b] show ?thesis
    by (cases "a = 0"; cases "b = 0"; cases p; cases q) (auto simp: z)
qed

lemma fp_value_key:
  "fp_value f64 a < fp_value f64 b \<longleftrightarrow> fp_key f64 a < fp_key f64 b"
  "fp_value f64 a = fp_value f64 b \<longleftrightarrow> fp_key f64 a = fp_key f64 b"
  "fp_value f64 a \<le> fp_value f64 b \<longleftrightarrow> fp_key f64 a \<le> fp_key f64 b"
proof -
  let ?n = "\<lambda>w. unat (fp_mag f64 w)" and ?s = "fp_scaled (fp_prec f64)"
  have lt: "fp_value f64 x < fp_value f64 y \<longleftrightarrow> fp_key f64 x < fp_key f64 y" for x y
  proof -
    have "fp_value f64 x < fp_value f64 y \<longleftrightarrow>
        (if fp_signbit f64 x then - int (?s (?n x)) else int (?s (?n x)))
        < (if fp_signbit f64 y then - int (?s (?n y)) else int (?s (?n y)))"
      unfolding fp_value_scaled divide_less_cancel of_int_less_iff by simp
    also have "\<dots> \<longleftrightarrow> fp_key f64 x < fp_key f64 y"
      unfolding fp_key_def by (rule fp_scaled_signed_less)
    finally show ?thesis .
  qed
  show "fp_value f64 a < fp_value f64 b \<longleftrightarrow> fp_key f64 a < fp_key f64 b" by (rule lt)
  show "fp_value f64 a = fp_value f64 b \<longleftrightarrow> fp_key f64 a = fp_key f64 b" using lt [of a b] lt [of b a] by linarith
  show "fp_value f64 a \<le> fp_value f64 b \<longleftrightarrow> fp_key f64 a \<le> fp_key f64 b" using lt [of b a] by linarith
qed

lemma u32_less_3:
  assumes "x < (3 :: u32)"
  obtains "x = 0" | "x = 1" | "x = 2"
proof -
  have "unat x < 3" using assms by (simp add: word_less_nat_alt)
  then have "unat x = unat (0 :: u32) \<or> unat x = unat (1 :: u32) \<or> unat x = unat (2 :: u32)" by auto
  then show thesis using that by (simp only: word_unat_eq_iff [symmetric]) blast
qed

text \<open>\<open>insn\<close> is an OP-FP instruction of function \<open>f5\<close> on doubles or floats, and may run.\<close>

definition op_fp_insn :: "rv_cpu \<Rightarrow> u32 \<Rightarrow> u32 \<Rightarrow> bool \<Rightarrow> bool" where
  "op_fp_insn c insn f5 f64 \<longleftrightarrow>
     RV_CHECK_XS (mstatus (csr c)) RV_STATUS_FS_BASE_BIT
     \<and> RV_INSN_FFMT insn = (if f64 then 1 else 0) \<and> RV_INSN_FUNCT5 insn = f5"

lemma op_fp_dispatch:
  assumes "op_fp_insn (get_cpu m h) insn f5 f64"
  shows "f5 = FUNCT5_EQ_LE_LT \<Longrightarrow> rv_float_op_fp fp env h insn m = op_fp_compare env h insn f64 m"
    and "f5 = FUNCT5_MIN_MAX \<Longrightarrow> rv_float_op_fp fp env h insn m = op_fp_min_max env h insn f64 m"
  using assms by (cases f64; simp add: rv_float_op_fp_def op_fp_insn_def rv_ffmt_of_def Let_def)+

text \<open>C24: floating-point comparison is comparison of numbers. FEQ, FLT and FLE write 1 exactly when
  neither operand is a NaN and the numbers the operands stand for compare so (an operand that is
  not NaN-boxed counts as NaN), and raise the invalid flag for a NaN, FEQ only for a signaling
  one.\<close>
theorem float_compare_values:
  fixes m :: "'d emu_machine" and h :: nat and insn :: u32 and f64 :: bool
  defines "c \<equiv> get_cpu m h"
  defines "x \<equiv> read_fp c f64 (RV_INSN_RS1 insn)" and "y \<equiv> read_fp c f64 (RV_INSN_RS2 insn)"
  assumes "op_fp_insn c insn FUNCT5_EQ_LE_LT f64" and "RV_INSN_FUNCT3 insn < 3"
  shows "rv_float_op_fp fp env h insn m =
    (let nan = (fp_isnan f64 x \<or> fp_isnan f64 y);
         rel = (if RV_INSN_FUNCT3 insn = 0 then fp_value f64 x \<le> fp_value f64 y
                else if RV_INSN_FUNCT3 insn = 1 then fp_value f64 x < fp_value f64 y
                else fp_value f64 x = fp_value f64 y);
         invalid = (if RV_INSN_FUNCT3 insn = 2 then rv_is_snan x f64 \<or> rv_is_snan y f64 else nan);
         d = rv_xreg_write c (RV_INSN_RD insn) (of_bool (\<not> nan \<and> rel))
     in Some (put_cpu h (if invalid then or_fcsr 0x10 d else d) m))"
proof -
  have "RV_INSN_FUNCT3 insn \<in> {0, 1, 2}"
    using assms(5) by (elim u32_less_3) simp_all
  then show ?thesis
    using op_fp_dispatch(1) [OF assms(4) [unfolded c_def] refl, of fp env]
    by (auto simp: op_fp_compare_def float_compare_def fp_eq_def fp_lt_def fp_le_def fp_value_key fp_ordered_def
        check_fflags_def Let_def c_def x_def y_def)
qed

text \<open>The minimum and the maximum of two numbers, with the negative zero below the positive one.\<close>

definition fp_before :: "bool \<Rightarrow> u64 \<Rightarrow> u64 \<Rightarrow> bool" where
  "fp_before f64 x y \<longleftrightarrow>
     fp_value f64 x < fp_value f64 y \<or> (fp_value f64 x = fp_value f64 y \<and> fp_signbit f64 x)"

definition min_max_spec :: "bool \<Rightarrow> bool \<Rightarrow> u64 \<Rightarrow> u64 \<Rightarrow> u64" where
  "min_max_spec is_min f64 x y =
     (if fp_isnan f64 x \<and> fp_isnan f64 y
      then if f64 then 0x7FF8000000000000 else 0xFFFFFFFF7FC00000
      else if fp_isnan f64 x then y else if fp_isnan f64 y then x
      else if fp_before f64 x y = is_min then x else y)"

definition fp_boxed :: "u64 \<Rightarrow> bool" where
  "fp_boxed w \<longleftrightarrow> drop_bit 32 w = 0xFFFFFFFF"

lemma mag_mask: "fp_mag f64 w = take_bit (if f64 then 63 else 31) w"
  by (simp add: fp_mag_def take_bit_eq_mask mask_eq_exp_minus_1)

lemma boxed_bits: "fp_boxed w \<longleftrightarrow> (\<forall>i < 32. bit w (i + 32))"
proof -
  have "fp_boxed w \<longleftrightarrow> drop_bit 32 w = (mask 32 :: u64)" by (simp add: fp_boxed_def mask_eq_exp_minus_1)
  also have "\<dots> \<longleftrightarrow> (\<forall>i < 64. bit (drop_bit 32 w) i = (i < 32))"
    by (auto simp: bit_eq_iff bit_mask_iff)
  also have "\<dots> \<longleftrightarrow> (\<forall>i < 32. bit w (i + 32))"
    by (auto simp: bit_drop_bit_eq add.commute dest: bit_imp_le_length)
  finally show ?thesis .
qed

lemma boxed_bit: "fp_boxed w \<Longrightarrow> 32 \<le> i \<Longrightarrow> i < 64 \<Longrightarrow> bit w i"
  by (auto simp: boxed_bits dest!: spec [of _ "i - 32"])

lemma read_fp_boxed: "fp_boxed (read_fp c False i)"
  by (simp add: read_fp_def rv_freg_read_f32_def fp_boxed_def RV_CANONICAL_NAN_F32_def Let_def)

lemma set_low32_bits: "set_low32 0xFFFFFFFFFFFFFFFF x = take_bit 32 x OR NOT (mask 32)"
proof -
  have "x AND 0xFFFFFFFF = take_bit 32 x" by (simp add: take_bit_eq_mask mask_eq_exp_minus_1)
  moreover have "(0xFFFFFFFF00000000 :: u64) = NOT (mask 32)" by (simp add: mask_eq_exp_minus_1)
  ultimately show ?thesis by (simp add: set_low32_def or.commute)
qed

lemma set_fp_boxed: "f64 \<or> fp_boxed x \<Longrightarrow> set_fp f64 0xFFFFFFFFFFFFFFFF x = x"
  by (auto simp: set_fp_def set_low32_bits intro!: bit_word_eqI) (auto simp: bit_simps boxed_bit)

lemma fp_eqI:
  assumes "f64 \<or> fp_boxed x \<and> fp_boxed y" and "fp_mag f64 x = fp_mag f64 y" and "fp_signbit f64 x = fp_signbit f64 y"
  shows "x = y"
proof (rule bit_word_eqI)
  fix i
  assume "i < LENGTH(64)"
  have "bit (take_bit (if f64 then 63 else 31) x) i = bit (take_bit (if f64 then 63 else 31) y) i"
    using assms(2) by (simp only: mag_mask)
  with assms(1,3) \<open>i < LENGTH(64)\<close> show "bit x i = bit y i"
    by (cases "i < (if f64 then 63 else 31)"; cases "i = (if f64 then 63 else 31)")
      (auto simp: bit_simps fp_signbit_def boxed_bit split: if_splits)
qed

lemma fp_iszero_mask: "fp_iszero f64 w \<longleftrightarrow> w AND (if f64 then 0x7FFFFFFFFFFFFFFF else 0x7FFFFFFF) = 0"
  by (simp add: fp_iszero_def fp_mag_def)

lemma fp_key_zero: "fp_key f64 w = 0 \<longleftrightarrow> fp_iszero f64 w"
  by (simp add: fp_key_def fp_iszero_def uint_0_iff)

lemma signed_eqD:
  "(if p then - a else a) = (if q then - b else b) \<Longrightarrow> 0 < a \<Longrightarrow> 0 \<le> b \<Longrightarrow> p = q \<and> a = b" for a b :: int
  by (auto split: if_splits)

lemma fp_key_uint: "fp_key f64 w = (if fp_signbit f64 w then - uint (fp_mag f64 w) else uint (fp_mag f64 w))"
  by (simp add: fp_key_def)

lemma fp_key_eqD:
  assumes "f64 \<or> fp_boxed x \<and> fp_boxed y" and "fp_key f64 x = fp_key f64 y" and "\<not> fp_iszero f64 x"
  shows "x = y"
proof -
  have pos: "0 < uint (fp_mag f64 x)" "0 \<le> uint (fp_mag f64 y)"
    using assms(3) by (simp_all add: fp_iszero_def less_le uint_0_iff)
  from signed_eqD [OF assms(2) [unfolded fp_key_uint] this]
  have "fp_signbit f64 x = fp_signbit f64 y" and "fp_mag f64 x = fp_mag f64 y"
    by (blast, blast intro: word_uint_eq_iff [THEN iffD2])
  then show ?thesis by (intro fp_eqI [OF assms(1)])
qed

definition fp_zero :: "bool \<Rightarrow> bool \<Rightarrow> u64" where
  "fp_zero f64 neg =
     (if f64 then if neg then 0x8000000000000000 else 0
      else if neg then 0xFFFFFFFF80000000 else 0xFFFFFFFF00000000)"

lemma fp_zeroD:
  assumes "f64 \<or> fp_boxed x" and "fp_iszero f64 x"
  shows "x = fp_zero f64 (fp_signbit f64 x)"
proof (rule fp_eqI)
  show "f64 \<or> fp_boxed x \<and> fp_boxed (fp_zero f64 (fp_signbit f64 x))"
    using assms(1) by (cases f64) (simp_all add: fp_boxed_def fp_zero_def)
  have "fp_mag f64 (fp_zero f64 b) = 0" for b by (simp add: fp_mag_def fp_zero_def)
  then show "fp_mag f64 x = fp_mag f64 (fp_zero f64 (fp_signbit f64 x))"
    using assms(2) by (simp only: fp_iszero_def)
  have "fp_signbit f64 (fp_zero f64 b) = b" for b by (simp add: fp_signbit_def fp_zero_def)
  then show "fp_signbit f64 x = fp_signbit f64 (fp_zero f64 (fp_signbit f64 x))" by (simp only:)
qed

lemma min_max_correct:
  assumes box: "f64 \<or> fp_boxed x \<and> fp_boxed y"
    and z: "\<not> (fp_iszero f64 x \<and> fp_iszero f64 y \<and> fp_signbit f64 x = fp_signbit f64 y)" and k: "k = 0 \<or> k = 1"
  shows "float_min_max k f64 x y = Some (min_max_spec (k = 0) f64 x y)"
proof (cases "fp_isnan f64 x \<or> fp_isnan f64 y")
  case True
  then show ?thesis
    by (cases "fp_isnan f64 x"; cases "fp_isnan f64 y"; cases f64)
      (simp_all add: float_min_max_def min_max_spec_def RV_CANONICAL_NAN_F64_def RV_CANONICAL_NAN_F32_def set_low32_def)
next
  case False
  show ?thesis
  proof (cases "fp_iszero f64 x \<and> fp_iszero f64 y")
    case True
    then have v: "fp_value f64 x = fp_value f64 y" by (simp add: fp_value_key flip: fp_key_zero)
    have "float_min_max k f64 x y = Some (fp_zero f64 (k = 0))"
      using True False by (cases f64) (simp_all add: float_min_max_def fp_iszero_mask set_low32_def fp_zero_def)
    moreover have "min_max_spec (k = 0) f64 x y = (if fp_signbit f64 x = (k = 0) then x else y)"
      using False v by (simp add: min_max_spec_def fp_before_def)
    moreover have "fp_zero f64 (fp_signbit f64 x) = x" "fp_zero f64 (fp_signbit f64 y) = y"
      using True box fp_zeroD [symmetric] by blast+
    moreover have "fp_signbit f64 y \<longleftrightarrow> \<not> fp_signbit f64 x" using z True by blast
    ultimately show ?thesis by (cases "fp_signbit f64 x = (k = 0)") auto
  next
    case nz: False
    have "x = y" if "fp_value f64 x = fp_value f64 y"
      using that nz box fp_key_eqD [of f64 x y] by (auto simp: fp_value_key fp_key_zero [symmetric])
    then have "(if fp_le f64 x y then x else y) = (if fp_before f64 x y then x else y)"
      "(if fp_le f64 x y then y else x) = (if fp_before f64 x y then y else x)"
      using False by (auto simp: fp_before_def fp_le_def fp_ordered_def fp_value_key)
    with False nz k box show ?thesis
      by (cases f64) (auto simp: float_min_max_def min_max_spec_def fp_iszero_mask set_fp_boxed)
  qed
qed


text \<open>The minimum of two positive zeros is the negative zero. The code answers any two zeros by
  the operation alone, so FMIN of +0 and +0 gives -0 and FMAX of -0 and -0 gives +0, which the
  architecture does not allow: neither operand has that value.\<close>
theorem min_of_positive_zeros_is_negative:
  "float_min_max 0 True 0 0 = Some 0x8000000000000000
   \<and> float_min_max 1 True 0x8000000000000000 0x8000000000000000 = Some 0
   \<and> float_min_max 0 False 0xFFFFFFFF00000000 0xFFFFFFFF00000000 = Some 0xFFFFFFFF80000000
   \<and> min_max_spec True True 0 0 = 0"
  by (simp add: float_min_max_def fp_isnan_def fp_mag_def fp_inf_def set_low32_def min_max_spec_def Let_def)

section \<open>Classification\<close>

abbreviation "fp_emax f64 \<equiv> (if f64 then 2047 else 255 :: nat)"

text \<open>The class number of the architecture's table, from the three fields.\<close>

definition fclass_spec :: "bool \<Rightarrow> u64 \<Rightarrow> nat" where
  "fclass_spec f64 w =
     (let s = fp_signbit f64 w; e = fp_exp f64 w; f = fp_frac f64 w
      in if e = fp_emax f64 then
           if f = 0 then if s then 0 else 7 else if f < 2 ^ (fp_prec f64 - 1) then 8 else 9
         else if e = 0 then
           if f = 0 then if s then 3 else 4 else if s then 2 else 5
         else if s then 1 else 6)"

lemma mag_less: "unat (fp_mag f64 w) < (fp_emax f64 + 1) * 2 ^ fp_prec f64"
  using take_bit_nat_less_exp [of 63 "unat w"] take_bit_nat_less_exp [of 31 "unat w"]
  by (simp add: mag_mask unsigned_take_bit_eq)

lemma masked_field_eq:
  fixes w v :: u64
  assumes "k + n \<le> 64" and "take_bit n v = v"
  shows "w AND push_bit k (mask n) = push_bit k v \<longleftrightarrow> unat w div 2 ^ k mod 2 ^ n = unat v"
proof -
  have "w AND push_bit k (mask n) = push_bit k (take_bit n (drop_bit k w))"
    by (rule bit_word_eqI) (auto simp: bit_simps)
  moreover have "drop_bit k (push_bit k (take_bit n z)) = take_bit n z" for z :: u64
    using assms(1) by (intro bit_word_eqI) (auto simp: bit_simps)
  ultimately have "w AND push_bit k (mask n) = push_bit k v \<longleftrightarrow> take_bit n (drop_bit k w) = v"
    using assms(2) by metis
  also have "\<dots> \<longleftrightarrow> unat w div 2 ^ k mod 2 ^ n = unat v"
    by (simp only: word_unat_eq_iff unat_bits_div_mod)
  finally show ?thesis .
qed

lemma mod_pow_div: "n mod 2 ^ (a + b) div 2 ^ a = n div 2 ^ a mod 2 ^ b" for n a b :: nat
  by (simp add: mod_mult2_eq power_add)

lemma snan_mag:
  "rv_is_snan w f64 \<longleftrightarrow> unat (fp_mag f64 w) div 2 ^ (fp_prec f64 - 1) = 2 * fp_emax f64
    \<and> unat (fp_mag f64 w) mod 2 ^ (fp_prec f64 - 1) \<noteq> 0"
proof -
  have "w AND 0x7FF8000000000000 = 0x7FF0000000000000 \<longleftrightarrow> unat w div 2 ^ 51 mod 2 ^ 12 = 4094"
    using masked_field_eq [where k = 51 and n = 12 and v = "0xFFE" and w = w] by (simp add: push_bit_eq_mult mask_eq_exp_minus_1)
  moreover have "w AND 0x0007FFFFFFFFFFFF = 0 \<longleftrightarrow> unat w mod 2 ^ 51 = 0"
    using masked_field_eq [where k = 0 and n = 51 and v = "0" and w = w] by (simp add: mask_eq_exp_minus_1)
  moreover have "w AND 0x7FC00000 = 0x7F800000 \<longleftrightarrow> unat w div 2 ^ 22 mod 2 ^ 9 = 510"
    using masked_field_eq [where k = 22 and n = 9 and v = "0x1FE" and w = w] by (simp add: push_bit_eq_mult mask_eq_exp_minus_1)
  moreover have "w AND 0x003FFFFF = 0 \<longleftrightarrow> unat w mod 2 ^ 22 = 0"
    using masked_field_eq [where k = 0 and n = 22 and v = "0" and w = w] by (simp add: mask_eq_exp_minus_1)
  moreover have "unat (fp_mag f64 w) = unat w mod 2 ^ (if f64 then 63 else 31)"
    by (simp only: mag_mask unat_bits_div_mod)
  moreover have "n mod 2 ^ 63 div 2 ^ 51 = n div 2 ^ 51 mod 2 ^ 12" "n mod 2 ^ 63 mod 2 ^ 51 = n mod 2 ^ 51"
    "n mod 2 ^ 31 div 2 ^ 22 = n div 2 ^ 22 mod 2 ^ 9" "n mod 2 ^ 31 mod 2 ^ 22 = n mod 2 ^ 22" for n :: nat
    using mod_pow_div [of n 51 12] mod_pow_div [of n 22 9] by (simp_all add: mod_mod_cancel)
  ultimately show ?thesis by (simp add: rv_is_snan_def)
qed

lemma exp_frac_compare:
  fixes e f M P :: nat
  assumes "f < P" and "e \<le> M"
  shows "M * P < e * P + f \<longleftrightarrow> e = M \<and> f \<noteq> 0" and "e * P + f = M * P \<longleftrightarrow> e = M \<and> f = 0"
    and "e * P + f < M * P \<longleftrightarrow> e \<noteq> M"
proof -
  have "e * P + f < M * P" if "e \<noteq> M"
  proof -
    have "e * P + f < Suc e * P" using assms(1) by simp
    also have "\<dots> \<le> M * P" using assms(2) that by (intro mult_le_mono1) simp
    finally show ?thesis .
  qed
  then show "M * P < e * P + f \<longleftrightarrow> e = M \<and> f \<noteq> 0" "e * P + f = M * P \<longleftrightarrow> e = M \<and> f = 0"
    "e * P + f < M * P \<longleftrightarrow> e \<noteq> M"
    by (cases "e = M"; auto)+
qed

lemma exp_frac_low:
  fixes e f P :: nat
  assumes "f < P"
  shows "e * P + f < P \<longleftrightarrow> e = 0" and "P \<le> e * P + f \<longleftrightarrow> e \<noteq> 0" and "e * P + f = 0 \<longleftrightarrow> e = 0 \<and> f = 0"
  using assms by (cases e; auto)+

lemma exp_frac_quiet:
  fixes e f Q M :: nat
  assumes "f < 2 * Q"
  shows "(e * (2 * Q) + f) div Q = 2 * M \<and> (e * (2 * Q) + f) mod Q \<noteq> 0 \<longleftrightarrow> e = M \<and> f \<noteq> 0 \<and> f < Q"
proof -
  have q: "0 < Q" using assms by simp
  have "(e * (2 * Q) + f) div Q = 2 * e + f div Q" "(e * (2 * Q) + f) mod Q = f mod Q"
    using q div_mult_self1 [of Q f "2 * e"] mod_mult_self1 [of f Q "2 * e"] by (simp_all add: algebra_simps)
  note dm = this
  show ?thesis
  proof (cases "f < Q")
    case True
    then show ?thesis by (simp only: dm) auto
  next
    case False
    have "f div Q < 2" using assms q by (simp add: div_less_iff_less_mult)
    moreover have "f div Q \<noteq> 0" using False q by (simp add: div_eq_0_iff)
    ultimately have "f div Q = 1" by simp
    then have "2 * e + f div Q \<noteq> 2 * M" by presburger
    with False show ?thesis by (simp only: dm) simp
  qed
qed

text \<open>C26: FCLASS names the class of the operand. Exactly one bit of the result is set, the one whose
  number the architecture's table gives to the operand's sign, exponent and fraction.\<close>
theorem fclass_one_hot:
  "fclass_bits f64 w = push_bit (fclass_spec f64 w) 1"
proof -
  define P where "P = (2 :: nat) ^ fp_prec f64"
  define Q where "Q = (2 :: nat) ^ (fp_prec f64 - 1)"
  define e where "e = fp_exp f64 w"
  define f where "f = fp_frac f64 w"
  have PQ: "P = 2 * Q" by (simp add: P_def Q_def)
  have mag: "unat (fp_mag f64 w) = e * P + f" and f: "f < P" and e: "e \<le> fp_emax f64"
    using mag_less [of f64 w]
    by (auto simp: P_def e_def f_def fp_exp_def fp_frac_def less_Suc_eq_le [symmetric] div_less_iff_less_mult)
  have u: "unat (fp_inf f64) = fp_emax f64 * P" "unat (fp_min_normal f64) = P"
    by (simp_all add: fp_inf_def fp_min_normal_def P_def)
  note arith = exp_frac_compare [OF f e] exp_frac_low [OF f, of e] exp_frac_quiet [OF f [unfolded PQ], folded PQ]
  have kinds:
    "fp_isnan f64 w \<longleftrightarrow> e = fp_emax f64 \<and> f \<noteq> 0" "fp_isinf f64 w \<longleftrightarrow> e = fp_emax f64 \<and> f = 0"
    "fp_iszero f64 w \<longleftrightarrow> e = 0 \<and> f = 0" "fp_issubnormal f64 w \<longleftrightarrow> e = 0 \<and> f \<noteq> 0"
    "fp_isnormal f64 w \<longleftrightarrow> e \<noteq> 0 \<and> e \<noteq> fp_emax f64"
    "rv_is_snan w f64 \<longleftrightarrow> e = fp_emax f64 \<and> f \<noteq> 0 \<and> f < Q"
    unfolding fp_isnan_def fp_isinf_def fp_iszero_def fp_issubnormal_def fp_isnormal_def snan_mag
      word_less_nat_alt word_le_nat_alt word_unat_eq_iff [of "fp_mag f64 w"] u unat_0 mag Q_def [symmetric] arith
    by auto
  show ?thesis
    unfolding fclass_bits_def kinds Let_def fclass_spec_def e_def [symmetric] f_def [symmetric] Q_def [symmetric]
    by (cases f64; cases "e = 0"; cases "f = 0"; cases "fp_signbit f64 w") simp_all
qed

section \<open>Conversion to integers\<close>

lemma scaled_div:
  fixes m e k :: nat
  shows "m * 2 ^ e div 2 ^ k = (if k \<le> e then m * 2 ^ (e - k) else m div 2 ^ (k - e))"
proof (cases "k \<le> e")
  case True
  then have "m * 2 ^ e = m * 2 ^ (e - k) * 2 ^ k" by (simp flip: power_add)
  then have "m * 2 ^ e div 2 ^ k = m * 2 ^ (e - k) * 2 ^ k div 2 ^ k" by (rule arg_cong)
  with True show ?thesis by simp
next
  case False
  then have "(2 :: nat) ^ k = 2 ^ e * 2 ^ (k - e)" by (simp flip: power_add)
  then have "m * 2 ^ e div 2 ^ k = m * 2 ^ e div (2 ^ e * 2 ^ (k - e))" by simp
  also have "\<dots> = m div 2 ^ (k - e)" by (simp add: div_mult2_eq)
  finally show ?thesis using False by simp
qed

lemma f64_trunc_scaled:
  "f64_trunc w = (if fp_signbit True w then - int (fp_scaled 52 (unat (fp_mag True w)) div 2 ^ K)
     else int (fp_scaled 52 (unat (fp_mag True w)) div 2 ^ K))" if K: "K = 1075" for K :: nat
proof -
  let ?n = "unat (fp_mag True w)"
  have "w AND 0xFFFFFFFFFFFFF = take_bit 52 w" by (simp add: take_bit_eq_mask mask_eq_exp_minus_1)
  moreover have "drop_bit 52 w AND 0x7FF = take_bit 11 (drop_bit 52 w)" by (simp add: take_bit_eq_mask mask_eq_exp_minus_1)
  moreover have "?n = unat w mod 2 ^ (52 + 11)" by (simp only: mag_mask unat_bits_div_mod if_True) simp
  ultimately have e: "unat (drop_bit 52 w AND 0x7FF) = ?n div 2 ^ 52" and f: "unat (w AND 0xFFFFFFFFFFFFF) = ?n mod 2 ^ 52"
    by (simp_all only: unat_bits_div_mod mod_pow_div) (simp add: mod_mod_cancel)
  have s: "bit w 63 = fp_signbit True w" by (simp add: fp_signbit_def)
  show ?thesis
  proof (cases "?n div 2 ^ 52 = 0")
    case True
    then have "fp_scaled 52 ?n = ?n mod 2 ^ 52 * 2 ^ 1" by (simp add: fp_scaled_def Let_def)
    then have "fp_scaled 52 ?n div 2 ^ K = ?n mod 2 ^ 52 div 2 ^ (K - 1)" using K by (simp only: scaled_div) simp
    then show ?thesis unfolding f64_trunc_def Let_def e f s K[symmetric] using True K by simp
  next
    case False
    then have "fp_scaled 52 ?n = (2 ^ 52 + ?n mod 2 ^ 52) * 2 ^ (?n div 2 ^ 52)" by (simp add: fp_scaled_def Let_def)
    then show ?thesis unfolding f64_trunc_def Let_def e f s K[symmetric] using False K by (simp only: scaled_div if_False) simp
  qed
qed

lemma fp_scaled_pow: "0 < e \<Longrightarrow> fp_scaled p (e * 2 ^ p) = 2 ^ (p + e)"
  by (simp add: fp_scaled_def power_add)

text \<open>Comparison with a power of two, seen on the truncated value.\<close>

lemma scaled_less_pow:
  "n < (1023 + k) * 2 ^ 52 \<longleftrightarrow> fp_scaled 52 n div 2 ^ K < 2 ^ k"
  "n \<le> (1023 + k) * 2 ^ 52 \<Longrightarrow> fp_scaled 52 n div 2 ^ K \<le> 2 ^ k"
  if K: "K = 1075" for K :: nat
proof -
  have p: "fp_scaled 52 ((1023 + k) * 2 ^ 52) = 2 ^ k * 2 ^ K"
    using fp_scaled_pow [of "1023 + k" 52] K by (simp add: power_add [symmetric] add.commute del: power_numeral)
  have "n < (1023 + k) * 2 ^ 52 \<longleftrightarrow> fp_scaled 52 n < 2 ^ k * 2 ^ K"
    by (simp only: p [symmetric] fp_scaled_less)
  also have "\<dots> \<longleftrightarrow> fp_scaled 52 n div 2 ^ K < 2 ^ k"
    by (rule less_mult_imp_div_less [THEN iffI]) (simp_all add: div_less_iff_less_mult)
  finally show "n < (1023 + k) * 2 ^ 52 \<longleftrightarrow> fp_scaled 52 n div 2 ^ K < 2 ^ k" .
  assume "n \<le> (1023 + k) * 2 ^ 52"
  then have "fp_scaled 52 n \<le> 2 ^ k * 2 ^ K"
    using p fp_scaled_less [of 52 "(1023 + k) * 2 ^ 52" n] by linarith
  then have "fp_scaled 52 n div 2 ^ K \<le> 2 ^ k * 2 ^ K div 2 ^ K" by (rule div_le_mono)
  then show "fp_scaled 52 n div 2 ^ K \<le> 2 ^ k" by simp
qed

fun int_bits :: "int_type \<Rightarrow> nat" where
  "int_bits U64 = 64" | "int_bits I64 = 63" | "int_bits U32 = 32" | "int_bits I32 = 31"

lemma ftox_limits:
  "ftox_max ty = 2 ^ int_bits ty - 1" "ftox_min ty = 0 \<or> ftox_min ty = - (2 ^ int_bits ty)"
  "fp_key True (ftox_hi ty) = int ((1023 + int_bits ty) * 2 ^ 52)"
  "fp_key True (ftox_lo ty) = (if ftox_min ty = 0 then 0 else - int ((1023 + int_bits ty) * 2 ^ 52))"
  "\<not> fp_isnan True (ftox_hi ty)" "\<not> fp_isnan True (ftox_lo ty)"
  by (cases ty; simp add: fp_key_def fp_signbit_def fp_mag_def fp_isnan_def fp_inf_def)+

lemma ftox_in_range:
  assumes "\<not> fp_isnan True rv"
  shows "(if \<not> fp_lt True rv (ftox_hi ty) \<or> \<not> fp_le True (ftox_lo ty) rv
      then if fp_lt True rv 0 then ftox_min ty else ftox_max ty else f64_trunc rv)
    = max (ftox_min ty) (min (ftox_max ty) (f64_trunc rv))"
proof -
  define H where "H = (1023 + int_bits ty) * (2 :: nat) ^ 52"
  define n where "n = unat (fp_mag True rv)"
  define T where "T = fp_scaled 52 n div 2 ^ 1075"
  define B where "B = (2 :: nat) ^ int_bits ty"
  note lim = ftox_limits [of ty, folded H_def]
  have Hpos: "0 < H" and Bpos: "0 < B" by (simp_all add: H_def B_def)
  have HT: "n < H \<longleftrightarrow> T < B" "n \<le> H \<Longrightarrow> T \<le> B"
    unfolding H_def T_def B_def by (rule scaled_less_pow [OF refl]; assumption)+
  have zero: "n = 0 \<Longrightarrow> T = 0" by (simp add: T_def fp_scaled_def)
  have tr: "f64_trunc rv = (if fp_signbit True rv then - int T else int T)"
    unfolding T_def n_def by (rule f64_trunc_scaled) simp
  have key: "fp_key True rv = (if fp_signbit True rv then - int n else int n)" by (simp add: fp_key_def n_def)
  have z: "\<not> fp_isnan True 0" "fp_key True 0 = 0" by (simp_all add: fp_isnan_def fp_mag_def fp_inf_def fp_key_def)
  have cmp: "fp_lt True rv (ftox_hi ty) \<longleftrightarrow> fp_key True rv < int H" "fp_lt True rv 0 \<longleftrightarrow> fp_key True rv < 0"
    "fp_le True (ftox_lo ty) rv \<longleftrightarrow> (if ftox_min ty = 0 then 0 else - int H) \<le> fp_key True rv"
    using assms z by (simp_all add: fp_lt_def fp_le_def fp_ordered_def lim)
  have mx: "ftox_max ty = int B - 1" and mn: "ftox_min ty = 0 \<or> ftox_min ty = - int B"
    using lim(1,2) by (simp_all add: B_def)
  show ?thesis
    unfolding cmp key tr mx using mn HT Hpos Bpos zero
    by (cases "fp_signbit True rv"; cases "n < H"; cases "n = 0"; cases "ftox_min ty = 0") auto
qed


section \<open>NaN boxing\<close>

text \<open>\<open>box_write c d\<close>: at most one floating-point register changed, to a NaN-boxed value.\<close>

definition box_write :: "rv_cpu \<Rightarrow> rv_cpu \<Rightarrow> bool" where
  "box_write c d \<longleftrightarrow> fregs d = fregs c \<or> (\<exists>i v. fp_boxed v \<and> fregs d = (fregs c)[i := v])"

lemma box_write_refl: "fregs d = fregs c \<Longrightarrow> box_write c d"
  by (simp add: box_write_def)

lemma box_write_freg: "fp_boxed v \<Longrightarrow> fregs d = fregs c \<Longrightarrow> box_write c (rv_freg_write d i v)"
  by (auto simp: box_write_def rv_freg_write_def)

lemma box_write_same: "fregs d' = fregs d \<Longrightarrow> box_write c d \<Longrightarrow> box_write c d'"
  by (simp add: box_write_def)

lemma fregs_frame [simp]:
  "fregs (or_fcsr x c) = fregs c" "fregs (check_fflags ex c) = fregs c"
  "fregs (gather_flags s r) = fregs (fst r)"
  by (simp_all add: or_fcsr_def check_fflags_def gather_flags_def Let_def split: prod.split)

lemma box_write_gather [simp]: "box_write c (gather_flags s r) = box_write c (fst r)"
  by (simp add: box_write_def)

lemmas drop_bitwise = drop_bit_and drop_bit_or drop_bit_xor

lemma boxed_low: "fp_boxed w \<Longrightarrow> fp_boxed (set_low32 w v)"
  by (simp add: fp_boxed_def set_low32_def drop_bitwise)

lemma boxed_set: "fp_boxed (set_fp False 0xFFFFFFFFFFFFFFFF v)"
  unfolding set_fp_def by (simp, rule boxed_low, simp add: fp_boxed_def)

lemma boxed_canon: "fp_boxed w \<Longrightarrow> fp_boxed (canon_nan False w)"
  by (simp add: canon_nan_def set_fp_def boxed_low)

lemma boxed_sgnj: "float_sgnj k False x y = Some v \<Longrightarrow> fp_boxed v"
  using boxed_set [of x]
  by (auto simp: float_sgnj_def Let_def fp_boxed_def drop_bitwise split: if_splits)

lemma boxed_min_max: "float_min_max k False x y = Some v \<Longrightarrow> fp_boxed x \<Longrightarrow> fp_boxed y \<Longrightarrow> fp_boxed v"
  using boxed_set
  by (auto simp: float_min_max_def Let_def set_fp_def split: if_splits)

lemma box_write_ftox: "box_write c (fst (rv_float_ftox fp rm c insn softfloat f64))"
proof -
  have "fregs (fst (snd (ftox_helper fp rm c f64 v ty))) = fregs c" for v ty
    using ftox_helper_cpu [of fp rm c f64 v ty] by auto
  then show ?thesis
    by (intro box_write_refl) (auto simp: rv_float_ftox_def Let_def case_prod_beta)
qed

lemma boxed_rounding:
  assumes "op_fp_rounding fp rm c insn softfloat False = Some r"
  shows "box_write c (fst r)"
  using assms
  by (auto simp: op_fp_rounding_def rv_float_add_def rv_float_sub_def rv_float_mul_def rv_float_div_def
      float_binop_def rv_float_sqrt_def rv_float_ftof_def rv_float_xtof_def rv_float_mvxf_fclass_def
      rv_float_mvfx_def Let_def box_write_freg boxed_canon boxed_set box_write_refl box_write_ftox
      split: if_splits prod.splits)

lemma boxed_fmadd: "box_write c (fst (float_fmadd fp rm c insn softfloat False))"
  by (auto simp: float_fmadd_def Let_def boxed_set case_prod_beta intro: box_write_freg)

lemma box_write_take_trap: "box_write c d \<Longrightarrow> box_write c (take_trap d t)"
  by (simp add: box_write_def take_trap_def trap_enter_s_def trap_enter_m_def Let_def)

lemma illegal_boxed:
  assumes "rv_do_iillegal env h insn m = Some m'" and "trap_hook m ! 2 = None" and "h < length (cpus m)"
    and "box_write c (get_cpu m h)"
  shows "box_write c (get_cpu m' h)"
  using assms box_write_take_trap
  by (auto simp: rv_do_iillegal_def rv_do_trap_def)


section \<open>A machine with floating-point values\<close>

text \<open>f1 holds 1 and f2 holds 2^64, as doubles; the host of the examples rounds doubles that are
  integers and knows no other operation.\<close>

definition fp_cpu :: rv_cpu where
  "fp_cpu = rv_freg_write (rv_freg_write (upd_csr (\<lambda>s. s\<lparr>mstatus := 0x2000\<rparr>) cpu_m)
     1 0x3FF0000000000000) 2 0x43F0000000000000"

definition fp_machine :: "unit emu_machine" where
  "fp_machine = demo_machine\<lparr>cpus := [fp_cpu]\<rparr>"

definition fp_demo :: fpu where
  "fp_demo = \<lparr>host = (\<lambda>_ _ op. (case op of FP_RINT x \<Rightarrow> x | _ \<Rightarrow> 0, {})), soft = (\<lambda>_ _ _. (0, 0)),
     exact_math = False\<rparr>"

lemma fp_cpu_simps [simp]:
  "get_cpu fp_machine 0 = fp_cpu" "length (cpus fp_machine) = 1" "trap_hook fp_machine = replicate 32 None"
  "mstatus (csr fp_cpu) = 0x2000" "rv_freg_read fp_cpu 1 = 0x3FF0000000000000" "rv_freg_read fp_cpu 2 = 0x43F0000000000000"
  by (simp_all add: fp_machine_def fp_cpu_def rv_freg_read_def rv_freg_write_def cpu_m_alt)

text \<open>\<open>flt.d x5, f1, f2\<close>, \<open>fmin.d f5, f1, f2\<close>, \<open>fcvt.w.d x5, f2\<close> and \<open>fmv.w.x f5, x1\<close>.\<close>

lemma float_compare_values_witness:
  "rv_float_op_fp fp_demo demo_env 0 0xA22092D3 fp_machine = Some (put_cpu 0 (rv_xreg_write fp_cpu 5 1) fp_machine)"
  using float_compare_values [of fp_machine 0 "0xA22092D3" True fp_demo demo_env]
  by (simp add: op_fp_insn_def rv_field_defs RV_CHECK_XS_def read_fp_def fp_isnan_def fp_mag_def fp_inf_def
      fp_value_def fp_exp_def fp_frac_def fp_signbit_def Let_def)




end
