(* ===== verification/RV_Decompress.thy ===== *)
theory RV_Decompress
  imports RV_Insn
begin

text \<open>
  The compressed-instruction expander of \<open>cpu/rv_decompress.c\<close>: one function per
  quadrant, \<open>None\<close> where the C function returns false (a reserved encoding). The 16-bit
  input is promoted to 32 bits before its bits are read, as C's integer promotion does.
\<close>

section \<open>Expansion\<close>

definition CREG :: "u32 \<Rightarrow> u32" where
  "CREG x = 8 + x"

text \<open>The sign extension \<open>(x << k) >> k\<close> of an \<open>int32_t\<close>.\<close>

definition sext_from :: "nat \<Rightarrow> u32 \<Rightarrow> u32" where
  "sext_from k x = signed_drop_bit k (push_bit k x)"

definition decompress_q0 :: "u32 \<Rightarrow> u32 option" where
  "decompress_q0 i =
     (let funct3 = drop_bit 13 i AND 0x7;
          rs1p = CREG (drop_bit 7 i AND 0x7);
          rdp = CREG (drop_bit 2 i AND 0x7);
          uimm_w = push_bit 3 (drop_bit 10 i AND 0x7) OR push_bit 2 (drop_bit 6 i AND 0x1)
                     OR push_bit 6 (drop_bit 5 i AND 0x1);
          uimm_d = push_bit 3 (drop_bit 10 i AND 0x7) OR push_bit 6 (drop_bit 5 i AND 0x3)
      in if funct3 = 0 then
           let nzuimm = push_bit 4 (drop_bit 11 i AND 0x3) OR push_bit 6 (drop_bit 7 i AND 0xf)
                          OR push_bit 2 (drop_bit 6 i AND 0x1) OR push_bit 3 (drop_bit 5 i AND 0x1)
           in if nzuimm = 0 then None
              else Some (rv_enc_i nzuimm 2 0 rdp (OP RV_OP_MAJ_OP_IMM))
         else if funct3 = 1 then Some (rv_enc_i uimm_d rs1p 3 rdp (OP RV_OP_MAJ_LOAD_FP))
         else if funct3 = 2 then Some (rv_enc_i uimm_w rs1p 2 rdp (OP RV_OP_MAJ_LOAD))
         else if funct3 = 3 then Some (rv_enc_i uimm_d rs1p 3 rdp (OP RV_OP_MAJ_LOAD))
         else if funct3 = 4 then None
         else if funct3 = 5 then Some (rv_enc_s uimm_d rdp rs1p 3 (OP RV_OP_MAJ_STORE_FP))
         else if funct3 = 6 then Some (rv_enc_s uimm_w rdp rs1p 2 (OP RV_OP_MAJ_STORE))
         else if funct3 = 7 then Some (rv_enc_s uimm_d rdp rs1p 3 (OP RV_OP_MAJ_STORE))
         else None)"

text \<open>The arithmetic group of quadrant 1 (\<open>case 4\<close>).\<close>

definition decompress_q1_alu :: "u32 \<Rightarrow> u32 option" where
  "decompress_q1_alu i =
     (let funct2 = drop_bit 10 i AND 0x3;
          rdp = CREG (drop_bit 7 i AND 0x7);
          shamt = (drop_bit 7 i AND 0x20) OR (drop_bit 2 i AND 0x1f)
      in if funct2 = 0 then Some (rv_enc_i (shamt AND 0x3f) rdp 5 rdp (OP RV_OP_MAJ_OP_IMM))
         else if funct2 = 1 then
           Some (rv_enc_i (push_bit 10 1 OR (shamt AND 0x3f)) rdp 5 rdp (OP RV_OP_MAJ_OP_IMM))
         else if funct2 = 2 then
           Some (rv_enc_i (sext_from 26 shamt) rdp 7 rdp (OP RV_OP_MAJ_OP_IMM))
         else if funct2 = 3 then
           let rs2p = CREG (drop_bit 2 i AND 0x7);
               op2 = drop_bit 5 i AND 0x3;
               is_w = drop_bit 12 i AND 0x1 \<noteq> 0
           in if \<not> is_w then
                if op2 = 0 then Some (rv_enc_r 0x20 rs2p rdp 0 rdp (OP RV_OP_MAJ_OP))
                else if op2 = 1 then Some (rv_enc_r 0x00 rs2p rdp 4 rdp (OP RV_OP_MAJ_OP))
                else if op2 = 2 then Some (rv_enc_r 0x00 rs2p rdp 6 rdp (OP RV_OP_MAJ_OP))
                else if op2 = 3 then Some (rv_enc_r 0x00 rs2p rdp 7 rdp (OP RV_OP_MAJ_OP))
                else None
              else if op2 = 0 then Some (rv_enc_r 0x20 rs2p rdp 0 rdp (OP RV_OP_MAJ_OP_32))
              else if op2 = 1 then Some (rv_enc_r 0x00 rs2p rdp 0 rdp (OP RV_OP_MAJ_OP_32))
              else None
         else None)"

definition decompress_q1 :: "u32 \<Rightarrow> u32 option" where
  "decompress_q1 i =
     (let funct3 = drop_bit 13 i AND 0x7;
          rd = drop_bit 7 i AND 0x1f;
          imm6 = sext_from 26 ((drop_bit 7 i AND 0x20) OR (drop_bit 2 i AND 0x1f))
      in if funct3 = 0 then Some (rv_enc_i imm6 rd 0 rd (OP RV_OP_MAJ_OP_IMM))
         else if funct3 = 1 then
           if rd = 0 then None else Some (rv_enc_i imm6 rd 0 rd (OP RV_OP_MAJ_OP_IMM_32))
         else if funct3 = 2 then Some (rv_enc_i imm6 0 0 rd (OP RV_OP_MAJ_OP_IMM))
         else if funct3 = 3 then
           if rd = 2 then
             let nzimm = sext_from 22
                   (push_bit 9 (drop_bit 12 i AND 0x1) OR push_bit 4 (drop_bit 6 i AND 0x1)
                     OR push_bit 6 (drop_bit 5 i AND 0x1) OR push_bit 7 (drop_bit 3 i AND 0x3)
                     OR push_bit 5 (drop_bit 2 i AND 0x1))
             in if nzimm = 0 then None
                else Some (rv_enc_i nzimm 2 0 2 (OP RV_OP_MAJ_OP_IMM))
           else if rd \<noteq> 0 then
             let nzimm = sext_from 26
                   (push_bit 5 (drop_bit 12 i AND 0x1) OR (drop_bit 2 i AND 0x1f))
             in if nzimm = 0 then None else Some (rv_enc_u nzimm rd (OP RV_OP_MAJ_LUI))
           else None
         else if funct3 = 4 then decompress_q1_alu i
         else if funct3 = 5 then
           let offset = sext_from 20
                 (push_bit 11 (drop_bit 12 i AND 0x1) OR push_bit 4 (drop_bit 11 i AND 0x1)
                   OR push_bit 8 (drop_bit 9 i AND 0x3) OR push_bit 10 (drop_bit 8 i AND 0x1)
                   OR push_bit 6 (drop_bit 7 i AND 0x1) OR push_bit 7 (drop_bit 6 i AND 0x1)
                   OR push_bit 1 (drop_bit 3 i AND 0x7) OR push_bit 5 (drop_bit 2 i AND 0x1))
           in Some (rv_enc_j offset 0 (OP RV_OP_MAJ_JAL))
         else if funct3 = 6 \<or> funct3 = 7 then
           let rs1p = CREG (drop_bit 7 i AND 0x7);
               offset = sext_from 23
                 (push_bit 8 (drop_bit 12 i AND 0x1) OR push_bit 3 (drop_bit 10 i AND 0x3)
                   OR push_bit 6 (drop_bit 5 i AND 0x3) OR push_bit 1 (drop_bit 3 i AND 0x3)
                   OR push_bit 5 (drop_bit 2 i AND 0x1))
           in Some (rv_enc_b offset 0 rs1p (if funct3 = 6 then 0 else 1) (OP RV_OP_MAJ_BRANCH))
         else None)"

definition decompress_q2 :: "u32 \<Rightarrow> u32 option" where
  "decompress_q2 i =
     (let funct3 = drop_bit 13 i AND 0x7;
          rd = drop_bit 7 i AND 0x1f;
          rs2 = drop_bit 2 i AND 0x1f;
          uimm_ld = push_bit 5 (drop_bit 12 i AND 0x1) OR push_bit 3 (drop_bit 5 i AND 0x3)
                      OR push_bit 6 (drop_bit 2 i AND 0x7);
          uimm_sd = push_bit 3 (drop_bit 10 i AND 0x7) OR push_bit 6 (drop_bit 7 i AND 0x7)
      in if funct3 = 0 then
           let shamt = (drop_bit 7 i AND 0x20) OR (drop_bit 2 i AND 0x1f)
           in if rd = 0 then None
              else Some (rv_enc_i (shamt AND 0x3f) rd 1 rd (OP RV_OP_MAJ_OP_IMM))
         else if funct3 = 1 then Some (rv_enc_i uimm_ld 2 3 rd (OP RV_OP_MAJ_LOAD_FP))
         else if funct3 = 2 then
           if rd = 0 then None
           else let uimm = push_bit 5 (drop_bit 12 i AND 0x1) OR push_bit 2 (drop_bit 4 i AND 0x7)
                             OR push_bit 6 (drop_bit 2 i AND 0x3)
                in Some (rv_enc_i uimm 2 2 rd (OP RV_OP_MAJ_LOAD))
         else if funct3 = 3 then
           if rd = 0 then None else Some (rv_enc_i uimm_ld 2 3 rd (OP RV_OP_MAJ_LOAD))
         else if funct3 = 4 then
           let bit12 = drop_bit 12 i AND 0x1 \<noteq> 0
           in if \<not> bit12 then
                if rs2 = 0 then
                  if rd = 0 then None else Some (rv_enc_i 0 rd 0 0 (OP RV_OP_MAJ_JALR))
                else Some (rv_enc_r 0 rs2 0 0 rd (OP RV_OP_MAJ_OP))
              else if rs2 = 0 \<and> rd = 0 then Some (push_bit 20 1 OR OP RV_OP_MAJ_SYSTEM)
              else if rs2 = 0 then Some (rv_enc_i 0 rd 0 1 (OP RV_OP_MAJ_JALR))
              else Some (rv_enc_r 0 rs2 rd 0 rd (OP RV_OP_MAJ_OP))
         else if funct3 = 5 then Some (rv_enc_s uimm_sd rs2 2 3 (OP RV_OP_MAJ_STORE_FP))
         else if funct3 = 6 then
           let uimm = push_bit 2 (drop_bit 9 i AND 0xf) OR push_bit 6 (drop_bit 7 i AND 0x3)
           in Some (rv_enc_s uimm rs2 2 2 (OP RV_OP_MAJ_STORE))
         else if funct3 = 7 then Some (rv_enc_s uimm_sd rs2 2 3 (OP RV_OP_MAJ_STORE))
         else None)"

definition rv_decompress :: "u16 \<Rightarrow> u32 option" where
  "rv_decompress c =
     (let i = ucast c
      in if i AND 0x3 = 0 then decompress_q0 i
         else if i AND 0x3 = 1 then decompress_q1 i
         else if i AND 0x3 = 2 then decompress_q2 i
         else None)"

lemmas decompress_defs =
  rv_decompress_def decompress_q0_def decompress_q1_def decompress_q1_alu_def decompress_q2_def

section \<open>What an expansion is\<close>

lemma take_bit_OP [simp]: "take_bit 7 (OP m) = OP m"
  by (cases m) (simp_all add: OP_def)

text \<open>Every encoder leaves its opcode argument in the low seven bits.\<close>

lemma rv_enc_opcode [simp]:
  "take_bit 7 (rv_enc_r f7 rs2 rs1 f3 rd (OP m)) = OP m"
  "take_bit 7 (rv_enc_i imm rs1 f3 rd (OP m)) = OP m"
  "take_bit 7 (rv_enc_s imm rs2 rs1 f3 (OP m)) = OP m"
  "take_bit 7 (rv_enc_u imm rd (OP m)) = OP m"
  "take_bit 7 (rv_enc_b imm rs2 rs1 f3 (OP m)) = OP m"
  "take_bit 7 (rv_enc_j imm rd (OP m)) = OP m"
  by (simp_all add: rv_enc_defs c_field)

lemma op_maj_of_low_bits:
  assumes "take_bit 7 w = OP m"
  shows "RV_INSN_OP_MAJ w = rv_op_maj_code m"
proof -
  have "take_bit 5 (drop_bit 2 w) = take_bit 5 (drop_bit 2 (take_bit 7 w))"
    by (rule bit_word_eqI) (auto simp: bit_simps)
  then show ?thesis
    using OP_MAJ_OP [of m] by (simp add: rv_field_defs c_field assms)
qed

text \<open>The major opcodes an expansion can have: all of them are dispatched.\<close>

definition rvc_targets :: "rv_op_maj list" where
  "rvc_targets =
     [RV_OP_MAJ_LOAD, RV_OP_MAJ_LOAD_FP, RV_OP_MAJ_OP_IMM, RV_OP_MAJ_OP_IMM_32,
      RV_OP_MAJ_STORE, RV_OP_MAJ_STORE_FP, RV_OP_MAJ_OP, RV_OP_MAJ_LUI, RV_OP_MAJ_OP_32,
      RV_OP_MAJ_BRANCH, RV_OP_MAJ_JALR, RV_OP_MAJ_JAL, RV_OP_MAJ_SYSTEM]"

lemma decompress_low_bits:
  assumes "rv_decompress c = Some w"
  shows "\<exists>m \<in> set rvc_targets. take_bit 7 w = OP m"
  using assms
  by (auto simp: decompress_defs Let_def rvc_targets_def split: if_splits)

end
