(* ===== verification/RV_Rvc_Spec.thy ===== *)
theory RV_Rvc_Spec
  imports RV_Decompress
begin

text \<open>
  The compressed instructions as the architecture lists them, and the theorem that the expander of
  \<open>cpu/rv_decompress.c\<close> accepts exactly their encodings and gives their expansions. An operand has
  the width of its field, an immediate is kept without the low bits that are always zero. The
  encoder places bits, as the tables of the manual do; the expander gathers them.
\<close>

section \<open>Words as lists of bits\<close>

text \<open>The least significant bit first.\<close>

definition of_bits :: "bool list \<Rightarrow> 'a::len word" where
  "of_bits bs = horner_sum of_bool 2 bs"

lemma bit_of_bits [simp]: "bit (of_bits bs :: 'a::len word) n \<longleftrightarrow> n < LENGTH('a) \<and> n < length bs \<and> bs ! n"
  by (auto simp: of_bits_def bit_horner_sum_bit_word_iff)

lemma of_bits_rules:
  "take_bit n (of_bits bs :: 'a::len word) = of_bits (take n bs)"
  "push_bit n (of_bits bs :: 'a word) = of_bits (take LENGTH('a) (replicate n False @ bs))"
  "length bs \<le> LENGTH('a) \<Longrightarrow> drop_bit n (of_bits bs :: 'a word) = of_bits (drop n bs)"
  "length bs \<le> LENGTH('b::len) \<Longrightarrow> length bs \<le> LENGTH('a) \<Longrightarrow> ucast (of_bits bs :: 'b word) = (of_bits bs :: 'a word)"
  by (rule bit_word_eqI; auto simp: bit_simps nth_append)+

lemma nth_sign_extended:
  "bs \<noteq> [] \<Longrightarrow> n < length bs + k \<Longrightarrow> (bs @ replicate k (last bs)) ! n = bs ! min n (length bs - 1)"
  by (auto simp: nth_append last_conv_nth min_def intro!: arg_cong [of _ _ "(!) bs"])

lemma of_bits_signed:
  assumes "length bs = LENGTH('b::len)" and "LENGTH('b) \<le> LENGTH('a)"
  shows "scast (of_bits bs :: 'b word) = (of_bits (bs @ replicate (LENGTH('a) - LENGTH('b)) (last bs)) :: 'a::len word)"
proof (rule bit_word_eqI)
  fix n
  assume n: "n < LENGTH('a)"
  have "bs \<noteq> []" using assms(1) by auto
  then show "bit (scast (of_bits bs :: 'b word) :: 'a word) n
      = bit (of_bits (bs @ replicate (LENGTH('a) - LENGTH('b)) (last bs)) :: 'a word) n"
    using assms n nth_sign_extended [of bs n "LENGTH('a) - LENGTH('b)"]
    by (cases "n = LENGTH('b) - 1") (auto simp: bit_simps min_def)
qed

lemma sext_from_bits:
  assumes "length bs + k = 32" and "bs \<noteq> []"
  shows "sext_from k (of_bits bs) = of_bits (bs @ replicate k (last bs))"
proof (rule bit_word_eqI)
  fix n
  assume n: "n < LENGTH(32)"
  have "0 < length bs" using assms(2) by simp
  then have k: "k \<le> 31" using assms(1) by linarith
  with assms(1) \<open>0 < length bs\<close> have "min (n + k) 31 - k = min n (length bs - 1)" "k \<le> min (n + k) 31"
    by (auto simp: min_def)
  moreover have "bit (signed_drop_bit k (push_bit k w)) n = bit w (min (n + k) 31 - k)" if "k \<le> min (n + k) 31" for w :: u32
    using that n by (cases "n + k \<le> 31") (auto simp add: bit_signed_drop_bit_iff bit_push_bit_iff min_def not_le)
  ultimately show "bit (sext_from k (of_bits bs)) n = bit (of_bits (bs @ replicate k (last bs)) :: u32) n"
    using n assms nth_sign_extended [of bs n k] \<open>0 < length bs\<close>
    by (simp add: sext_from_def min.strict_coboundedI2)
qed

fun or_bits :: "bool list \<Rightarrow> bool list \<Rightarrow> bool list" where
  "or_bits (a # as) (b # bs) = (a \<or> b) # or_bits as bs"
| "or_bits [] bs = bs"
| "or_bits as [] = as"

lemma or_bits_nth: "n < length as \<or> n < length bs \<Longrightarrow>
    or_bits as bs ! n = (n < length as \<and> as ! n \<or> n < length bs \<and> bs ! n)"
  by (induction as bs arbitrary: n rule: or_bits.induct) (auto simp: nth_Cons split: nat.splits)

lemma length_or_bits [simp]: "length (or_bits as bs) = max (length as) (length bs)"
  by (induction as bs rule: or_bits.induct) auto

lemma of_bits_or: "of_bits as OR of_bits bs = (of_bits (or_bits as bs) :: 'a::len word)"
  by (rule bit_word_eqI) (auto simp: bit_simps or_bits_nth less_max_iff_disj)

lemma of_bits_eq:
  assumes "length as = length bs" and "length bs \<le> LENGTH('a)"
  shows "(of_bits as :: 'a::len word) = of_bits bs \<longleftrightarrow> as = bs"
proof
  assume eq: "(of_bits as :: 'a word) = of_bits bs"
  show "as = bs"
  proof (rule nth_equalityI [OF assms(1)])
    fix i
    assume "i < length as"
    then show "as ! i = bs ! i"
      using assms bit_of_bits [of as i, where 'a = 'a] bit_of_bits [of bs i, where 'a = 'a] eq by simp
  qed
qed simp

lemma of_bits_zero: "length bs \<le> LENGTH('a) \<Longrightarrow> (of_bits bs :: 'a::len word) = 0 \<longleftrightarrow> list_all Not bs"
  using of_bits_eq [of bs "replicate (length bs) False", where 'a = 'a]
  by (auto simp: list_eq_iff_nth_eq list_all_length bit_eq_iff)

section \<open>The instructions\<close>

type_synonym creg = "3 word"
type_synonym xreg = "5 word"

datatype rvc =
    C_ADDI4SPN creg "8 word" | C_FLD creg creg "5 word" | C_LW creg creg "5 word" | C_LD creg creg "5 word"
  | C_FSD creg creg "5 word" | C_SW creg creg "5 word" | C_SD creg creg "5 word"
  | C_ADDI xreg "6 word" | C_ADDIW xreg "6 word" | C_LI xreg "6 word" | C_ADDI16SP "6 word" | C_LUI xreg "6 word"
  | C_SRLI creg "6 word" | C_SRAI creg "6 word" | C_ANDI creg "6 word"
  | C_SUB creg creg | C_XOR creg creg | C_OR creg creg | C_AND creg creg | C_SUBW creg creg | C_ADDW creg creg
  | C_J "11 word" | C_BEQZ creg "8 word" | C_BNEZ creg "8 word"
  | C_SLLI xreg "6 word" | C_FLDSP xreg "6 word" | C_LWSP xreg "6 word" | C_LDSP xreg "6 word"
  | C_JR xreg | C_MV xreg xreg | C_EBREAK | C_JALR xreg | C_ADD xreg xreg
  | C_FSDSP xreg "6 word" | C_SWSP xreg "6 word" | C_SDSP xreg "6 word"

text \<open>The operands that are reserved, or that name another instruction.\<close>

fun rvc_valid :: "rvc \<Rightarrow> bool" where
  "rvc_valid (C_ADDI4SPN rd u) = (u \<noteq> 0)"
| "rvc_valid (C_ADDIW rd n) = (rd \<noteq> 0)"
| "rvc_valid (C_ADDI16SP n) = (n \<noteq> 0)"
| "rvc_valid (C_LUI rd n) = (rd \<noteq> 0 \<and> rd \<noteq> 2 \<and> n \<noteq> 0)"
| "rvc_valid (C_SLLI rd s) = (rd \<noteq> 0)"
| "rvc_valid (C_LWSP rd u) = (rd \<noteq> 0)"
| "rvc_valid (C_LDSP rd u) = (rd \<noteq> 0)"
| "rvc_valid (C_JR r) = (r \<noteq> 0)"
| "rvc_valid (C_MV rd r) = (r \<noteq> 0)"
| "rvc_valid (C_JALR r) = (r \<noteq> 0)"
| "rvc_valid (C_ADD rd r) = (r \<noteq> 0)"
| "rvc_valid _ = True"

text \<open>The bits of an operand, by their position in the scaled immediate; \<open>k\<close> is the scale.\<close>

definition imm_bits :: "nat \<Rightarrow> 'a::len word \<Rightarrow> nat list \<Rightarrow> bool list" where
  "imm_bits k w ps = map (\<lambda>p. bit w (p - k)) ps"

abbreviation reg3 :: "creg \<Rightarrow> bool list" where "reg3 r \<equiv> imm_bits 0 r [0, 1, 2]"
abbreviation reg5 :: "xreg \<Rightarrow> bool list" where "reg5 r \<equiv> imm_bits 0 r [0, 1, 2, 3, 4]"
abbreviation F3 :: "nat \<Rightarrow> bool list" where "F3 n \<equiv> [odd n, odd (n div 2), odd (n div 4)]"
abbreviation F2 :: "nat \<Rightarrow> bool list" where "F2 n \<equiv> [odd n, odd (n div 2)]"

text \<open>The encodings, from bit 0 to bit 15.\<close>

fun rvc_bits :: "rvc \<Rightarrow> bool list" where
  "rvc_bits (C_ADDI4SPN rd u) = F2 0 @ reg3 rd @ imm_bits 2 u [3, 2, 6, 7, 8, 9, 4, 5] @ F3 0"
| "rvc_bits (C_FLD rd rs1 u) = F2 0 @ reg3 rd @ imm_bits 3 u [6, 7] @ reg3 rs1 @ imm_bits 3 u [3, 4, 5] @ F3 1"
| "rvc_bits (C_LW rd rs1 u) = F2 0 @ reg3 rd @ imm_bits 2 u [6, 2] @ reg3 rs1 @ imm_bits 2 u [3, 4, 5] @ F3 2"
| "rvc_bits (C_LD rd rs1 u) = F2 0 @ reg3 rd @ imm_bits 3 u [6, 7] @ reg3 rs1 @ imm_bits 3 u [3, 4, 5] @ F3 3"
| "rvc_bits (C_FSD rs2 rs1 u) = F2 0 @ reg3 rs2 @ imm_bits 3 u [6, 7] @ reg3 rs1 @ imm_bits 3 u [3, 4, 5] @ F3 5"
| "rvc_bits (C_SW rs2 rs1 u) = F2 0 @ reg3 rs2 @ imm_bits 2 u [6, 2] @ reg3 rs1 @ imm_bits 2 u [3, 4, 5] @ F3 6"
| "rvc_bits (C_SD rs2 rs1 u) = F2 0 @ reg3 rs2 @ imm_bits 3 u [6, 7] @ reg3 rs1 @ imm_bits 3 u [3, 4, 5] @ F3 7"
| "rvc_bits (C_ADDI rd n) = F2 1 @ imm_bits 0 n [0, 1, 2, 3, 4] @ reg5 rd @ imm_bits 0 n [5] @ F3 0"
| "rvc_bits (C_ADDIW rd n) = F2 1 @ imm_bits 0 n [0, 1, 2, 3, 4] @ reg5 rd @ imm_bits 0 n [5] @ F3 1"
| "rvc_bits (C_LI rd n) = F2 1 @ imm_bits 0 n [0, 1, 2, 3, 4] @ reg5 rd @ imm_bits 0 n [5] @ F3 2"
| "rvc_bits (C_ADDI16SP n) = F2 1 @ imm_bits 4 n [5, 7, 8, 6, 4] @ reg5 2 @ imm_bits 4 n [9] @ F3 3"
| "rvc_bits (C_LUI rd n) = F2 1 @ imm_bits 12 n [12, 13, 14, 15, 16] @ reg5 rd @ imm_bits 12 n [17] @ F3 3"
| "rvc_bits (C_SRLI rd s) = F2 1 @ imm_bits 0 s [0, 1, 2, 3, 4] @ reg3 rd @ F2 0 @ imm_bits 0 s [5] @ F3 4"
| "rvc_bits (C_SRAI rd s) = F2 1 @ imm_bits 0 s [0, 1, 2, 3, 4] @ reg3 rd @ F2 1 @ imm_bits 0 s [5] @ F3 4"
| "rvc_bits (C_ANDI rd n) = F2 1 @ imm_bits 0 n [0, 1, 2, 3, 4] @ reg3 rd @ F2 2 @ imm_bits 0 n [5] @ F3 4"
| "rvc_bits (C_SUB rd rs2) = F2 1 @ reg3 rs2 @ F2 0 @ reg3 rd @ F2 3 @ [False] @ F3 4"
| "rvc_bits (C_XOR rd rs2) = F2 1 @ reg3 rs2 @ F2 1 @ reg3 rd @ F2 3 @ [False] @ F3 4"
| "rvc_bits (C_OR rd rs2) = F2 1 @ reg3 rs2 @ F2 2 @ reg3 rd @ F2 3 @ [False] @ F3 4"
| "rvc_bits (C_AND rd rs2) = F2 1 @ reg3 rs2 @ F2 3 @ reg3 rd @ F2 3 @ [False] @ F3 4"
| "rvc_bits (C_SUBW rd rs2) = F2 1 @ reg3 rs2 @ F2 0 @ reg3 rd @ F2 3 @ [True] @ F3 4"
| "rvc_bits (C_ADDW rd rs2) = F2 1 @ reg3 rs2 @ F2 1 @ reg3 rd @ F2 3 @ [True] @ F3 4"
| "rvc_bits (C_J t) = F2 1 @ imm_bits 1 t [5, 1, 2, 3, 7, 6, 10, 8, 9, 4, 11] @ F3 5"
| "rvc_bits (C_BEQZ rs1 t) = F2 1 @ imm_bits 1 t [5, 1, 2, 6, 7] @ reg3 rs1 @ imm_bits 1 t [3, 4, 8] @ F3 6"
| "rvc_bits (C_BNEZ rs1 t) = F2 1 @ imm_bits 1 t [5, 1, 2, 6, 7] @ reg3 rs1 @ imm_bits 1 t [3, 4, 8] @ F3 7"
| "rvc_bits (C_SLLI rd s) = F2 2 @ imm_bits 0 s [0, 1, 2, 3, 4] @ reg5 rd @ imm_bits 0 s [5] @ F3 0"
| "rvc_bits (C_FLDSP rd u) = F2 2 @ imm_bits 3 u [6, 7, 8, 3, 4] @ reg5 rd @ imm_bits 3 u [5] @ F3 1"
| "rvc_bits (C_LWSP rd u) = F2 2 @ imm_bits 2 u [6, 7, 2, 3, 4] @ reg5 rd @ imm_bits 2 u [5] @ F3 2"
| "rvc_bits (C_LDSP rd u) = F2 2 @ imm_bits 3 u [6, 7, 8, 3, 4] @ reg5 rd @ imm_bits 3 u [5] @ F3 3"
| "rvc_bits (C_JR rs1) = F2 2 @ reg5 0 @ reg5 rs1 @ [False] @ F3 4"
| "rvc_bits (C_MV rd rs2) = F2 2 @ reg5 rs2 @ reg5 rd @ [False] @ F3 4"
| "rvc_bits C_EBREAK = F2 2 @ reg5 0 @ reg5 0 @ [True] @ F3 4"
| "rvc_bits (C_JALR rs1) = F2 2 @ reg5 0 @ reg5 rs1 @ [True] @ F3 4"
| "rvc_bits (C_ADD rd rs2) = F2 2 @ reg5 rs2 @ reg5 rd @ [True] @ F3 4"
| "rvc_bits (C_FSDSP rs2 u) = F2 2 @ reg5 rs2 @ imm_bits 3 u [6, 7, 8, 3, 4, 5] @ F3 5"
| "rvc_bits (C_SWSP rs2 u) = F2 2 @ reg5 rs2 @ imm_bits 2 u [6, 7, 2, 3, 4, 5] @ F3 6"
| "rvc_bits (C_SDSP rs2 u) = F2 2 @ reg5 rs2 @ imm_bits 3 u [6, 7, 8, 3, 4, 5] @ F3 7"

definition rvc_encode :: "rvc \<Rightarrow> u16" where
  "rvc_encode i = of_bits (rvc_bits i)"

text \<open>The full instructions they stand for: \<open>cx\<close> is a compressed register, \<open>ui\<close> and \<open>si\<close> an unsigned and
  a signed immediate of the given scale.\<close>

abbreviation cx :: "creg \<Rightarrow> u32" where "cx r \<equiv> 8 + ucast r"
abbreviation ui :: "nat \<Rightarrow> 'a::len word \<Rightarrow> u32" where "ui k w \<equiv> push_bit k (ucast w)"
abbreviation si :: "nat \<Rightarrow> 'a::len word \<Rightarrow> u32" where "si k w \<equiv> push_bit k (scast w)"

fun rvc_expand :: "rvc \<Rightarrow> u32" where
  "rvc_expand (C_ADDI4SPN rd n) = rv_enc_i (ui 2 n) 2 0 (cx rd) (OP RV_OP_MAJ_OP_IMM)"
| "rvc_expand (C_FLD rd rs1 n) = rv_enc_i (ui 3 n) (cx rs1) 3 (cx rd) (OP RV_OP_MAJ_LOAD_FP)"
| "rvc_expand (C_LW rd rs1 n) = rv_enc_i (ui 2 n) (cx rs1) 2 (cx rd) (OP RV_OP_MAJ_LOAD)"
| "rvc_expand (C_LD rd rs1 n) = rv_enc_i (ui 3 n) (cx rs1) 3 (cx rd) (OP RV_OP_MAJ_LOAD)"
| "rvc_expand (C_FSD rs2 rs1 n) = rv_enc_s (ui 3 n) (cx rs2) (cx rs1) 3 (OP RV_OP_MAJ_STORE_FP)"
| "rvc_expand (C_SW rs2 rs1 n) = rv_enc_s (ui 2 n) (cx rs2) (cx rs1) 2 (OP RV_OP_MAJ_STORE)"
| "rvc_expand (C_SD rs2 rs1 n) = rv_enc_s (ui 3 n) (cx rs2) (cx rs1) 3 (OP RV_OP_MAJ_STORE)"
| "rvc_expand (C_ADDI rd n) = rv_enc_i (si 0 n) (ucast rd) 0 (ucast rd) (OP RV_OP_MAJ_OP_IMM)"
| "rvc_expand (C_ADDIW rd n) = rv_enc_i (si 0 n) (ucast rd) 0 (ucast rd) (OP RV_OP_MAJ_OP_IMM_32)"
| "rvc_expand (C_LI rd n) = rv_enc_i (si 0 n) 0 0 (ucast rd) (OP RV_OP_MAJ_OP_IMM)"
| "rvc_expand (C_ADDI16SP n) = rv_enc_i (si 4 n) 2 0 2 (OP RV_OP_MAJ_OP_IMM)"
| "rvc_expand (C_LUI rd n) = rv_enc_u (si 0 n) (ucast rd) (OP RV_OP_MAJ_LUI)"
| "rvc_expand (C_SRLI rd n) = rv_enc_i (ui 0 n) (cx rd) 5 (cx rd) (OP RV_OP_MAJ_OP_IMM)"
| "rvc_expand (C_SRAI rd n) = rv_enc_i (0x400 OR ui 0 n) (cx rd) 5 (cx rd) (OP RV_OP_MAJ_OP_IMM)"
| "rvc_expand (C_ANDI rd n) = rv_enc_i (si 0 n) (cx rd) 7 (cx rd) (OP RV_OP_MAJ_OP_IMM)"
| "rvc_expand (C_SUB rd rs2) = rv_enc_r 0x20 (cx rs2) (cx rd) 0 (cx rd) (OP RV_OP_MAJ_OP)"
| "rvc_expand (C_XOR rd rs2) = rv_enc_r 0 (cx rs2) (cx rd) 4 (cx rd) (OP RV_OP_MAJ_OP)"
| "rvc_expand (C_OR rd rs2) = rv_enc_r 0 (cx rs2) (cx rd) 6 (cx rd) (OP RV_OP_MAJ_OP)"
| "rvc_expand (C_AND rd rs2) = rv_enc_r 0 (cx rs2) (cx rd) 7 (cx rd) (OP RV_OP_MAJ_OP)"
| "rvc_expand (C_SUBW rd rs2) = rv_enc_r 0x20 (cx rs2) (cx rd) 0 (cx rd) (OP RV_OP_MAJ_OP_32)"
| "rvc_expand (C_ADDW rd rs2) = rv_enc_r 0 (cx rs2) (cx rd) 0 (cx rd) (OP RV_OP_MAJ_OP_32)"
| "rvc_expand (C_J t) = rv_enc_j (si 1 t) 0 (OP RV_OP_MAJ_JAL)"
| "rvc_expand (C_BEQZ rs1 t) = rv_enc_b (si 1 t) 0 (cx rs1) 0 (OP RV_OP_MAJ_BRANCH)"
| "rvc_expand (C_BNEZ rs1 t) = rv_enc_b (si 1 t) 0 (cx rs1) 1 (OP RV_OP_MAJ_BRANCH)"
| "rvc_expand (C_SLLI rd n) = rv_enc_i (ui 0 n) (ucast rd) 1 (ucast rd) (OP RV_OP_MAJ_OP_IMM)"
| "rvc_expand (C_FLDSP rd n) = rv_enc_i (ui 3 n) 2 3 (ucast rd) (OP RV_OP_MAJ_LOAD_FP)"
| "rvc_expand (C_LWSP rd n) = rv_enc_i (ui 2 n) 2 2 (ucast rd) (OP RV_OP_MAJ_LOAD)"
| "rvc_expand (C_LDSP rd n) = rv_enc_i (ui 3 n) 2 3 (ucast rd) (OP RV_OP_MAJ_LOAD)"
| "rvc_expand (C_JR rs1) = rv_enc_i 0 (ucast rs1) 0 0 (OP RV_OP_MAJ_JALR)"
| "rvc_expand (C_MV rd rs2) = rv_enc_r 0 (ucast rs2) 0 0 (ucast rd) (OP RV_OP_MAJ_OP)"
| "rvc_expand C_EBREAK = rv_enc_i 1 0 0 0 (OP RV_OP_MAJ_SYSTEM)"
| "rvc_expand (C_JALR rs1) = rv_enc_i 0 (ucast rs1) 0 1 (OP RV_OP_MAJ_JALR)"
| "rvc_expand (C_ADD rd rs2) = rv_enc_r 0 (ucast rs2) (ucast rd) 0 (ucast rd) (OP RV_OP_MAJ_OP)"
| "rvc_expand (C_FSDSP rs2 n) = rv_enc_s (ui 3 n) (ucast rs2) 2 3 (OP RV_OP_MAJ_STORE_FP)"
| "rvc_expand (C_SWSP rs2 n) = rv_enc_s (ui 2 n) (ucast rs2) 2 2 (OP RV_OP_MAJ_STORE)"
| "rvc_expand (C_SDSP rs2 n) = rv_enc_s (ui 3 n) (ucast rs2) 2 3 (OP RV_OP_MAJ_STORE)"

section \<open>Symbolic evaluation\<close>

lemma ucast_bits:
  assumes "LENGTH('b) \<le> LENGTH('a)"
  shows "ucast (w :: 'b::len word) = (of_bits (map (bit w) [0..<LENGTH('b)]) :: 'a::len word)"
proof (rule bit_word_eqI)
  fix n
  assume "n < LENGTH('a)"
  then show "bit (ucast w :: 'a word) n = bit (of_bits (map (bit w) [0..<LENGTH('b)]) :: 'a word) n"
    using bit_imp_le_length [of w n] by (cases "n < LENGTH('b)") (auto simp: bit_simps)
qed

lemma scast_bits:
  assumes "LENGTH('b) \<le> LENGTH('a)"
  shows "scast (w :: 'b::len word) =
     (of_bits (map (bit w) [0..<LENGTH('b)] @ replicate (LENGTH('a) - LENGTH('b)) (bit w (LENGTH('b) - 1))) :: 'a::len word)"
proof (rule bit_word_eqI)
  fix n
  assume "n < LENGTH('a)"
  then show "bit (scast w :: 'a word) n
      = bit (of_bits (map (bit w) [0..<LENGTH('b)] @ replicate (LENGTH('a) - LENGTH('b)) (bit w (LENGTH('b) - 1))) :: 'a word) n"
    using assms by (cases "n < LENGTH('b)"; cases "n = LENGTH('b) - 1") (auto simp: bit_simps nth_append min_def)
qed

lemma word_bits_iff: "w = v \<longleftrightarrow> list_all (\<lambda>n. bit w n = bit v n) [0..<LENGTH('a)]" for w v :: "'a::len word"
  by (auto simp: list_all_iff intro: bit_word_eqI)

text \<open>An operand in the width of a full instruction.\<close>

lemma operand_bits:
  "(ucast r3 :: u32) = of_bits [bit r3 0, bit r3 1, bit r3 2]"
  "(ucast r5 :: u32) = of_bits [bit r5 0, bit r5 1, bit r5 2, bit r5 3, bit r5 4]"
  "(ucast n6 :: u32) = of_bits [bit n6 0, bit n6 1, bit n6 2, bit n6 3, bit n6 4, bit n6 5]"
  "(ucast n8 :: u32) = of_bits [bit n8 0, bit n8 1, bit n8 2, bit n8 3, bit n8 4, bit n8 5, bit n8 6, bit n8 7]"
  for r3 :: "3 word" and r5 :: "5 word" and n6 :: "6 word" and n8 :: "8 word"
  by (simp_all add: ucast_bits upt_rec eval_nat_numeral)

lemma signed_bits:
  "(scast n6 :: u32) = of_bits ([bit n6 0, bit n6 1, bit n6 2, bit n6 3, bit n6 4, bit n6 5] @ replicate 26 (bit n6 5))"
  "(scast n8 :: u32) = of_bits ([bit n8 0, bit n8 1, bit n8 2, bit n8 3, bit n8 4, bit n8 5, bit n8 6, bit n8 7]
     @ replicate 24 (bit n8 7))"
  "(scast n11 :: u32) = of_bits ([bit n11 0, bit n11 1, bit n11 2, bit n11 3, bit n11 4, bit n11 5, bit n11 6, bit n11 7,
     bit n11 8, bit n11 9, bit n11 10] @ replicate 21 (bit n11 10))"
  for n6 :: "6 word" and n8 :: "8 word" and n11 :: "11 word"
  by (simp_all add: scast_bits upt_rec eval_nat_numeral)

lemma operand_zero:
  "r5 = 0 \<longleftrightarrow> \<not> bit r5 0 \<and> \<not> bit r5 1 \<and> \<not> bit r5 2 \<and> \<not> bit r5 3 \<and> \<not> bit r5 4"
  "r5 = 2 \<longleftrightarrow> \<not> bit r5 0 \<and> bit r5 1 \<and> \<not> bit r5 2 \<and> \<not> bit r5 3 \<and> \<not> bit r5 4"
  "n6 = 0 \<longleftrightarrow> \<not> bit n6 0 \<and> \<not> bit n6 1 \<and> \<not> bit n6 2 \<and> \<not> bit n6 3 \<and> \<not> bit n6 4 \<and> \<not> bit n6 5"
  "n8 = 0 \<longleftrightarrow> \<not> bit n8 0 \<and> \<not> bit n8 1 \<and> \<not> bit n8 2 \<and> \<not> bit n8 3 \<and> \<not> bit n8 4 \<and> \<not> bit n8 5 \<and> \<not> bit n8 6 \<and> \<not> bit n8 7"
  for r5 :: "5 word" and n6 :: "6 word" and n8 :: "8 word"
  unfolding word_bits_iff by (simp_all add: upt_rec eval_nat_numeral)

text \<open>The fields the expander tests.\<close>

lemma field_values:
  "(of_bits [a, b] :: u32) = 0 \<longleftrightarrow> \<not> a \<and> \<not> b" "(of_bits [a, b] :: u32) = 1 \<longleftrightarrow> a \<and> \<not> b"
  "(of_bits [a, b] :: u32) = 2 \<longleftrightarrow> \<not> a \<and> b" "(of_bits [a, b] :: u32) = 3 \<longleftrightarrow> a \<and> b"
  "(of_bits [a, b, c] :: u32) = 0 \<longleftrightarrow> \<not> a \<and> \<not> b \<and> \<not> c" "(of_bits [a, b, c] :: u32) = 1 \<longleftrightarrow> a \<and> \<not> b \<and> \<not> c"
  "(of_bits [a, b, c] :: u32) = 2 \<longleftrightarrow> \<not> a \<and> b \<and> \<not> c" "(of_bits [a, b, c] :: u32) = 3 \<longleftrightarrow> a \<and> b \<and> \<not> c"
  "(of_bits [a, b, c] :: u32) = 4 \<longleftrightarrow> \<not> a \<and> \<not> b \<and> c" "(of_bits [a, b, c] :: u32) = 5 \<longleftrightarrow> a \<and> \<not> b \<and> c"
  "(of_bits [a, b, c] :: u32) = 6 \<longleftrightarrow> \<not> a \<and> b \<and> c" "(of_bits [a, b, c] :: u32) = 7 \<longleftrightarrow> a \<and> b \<and> c"
  "(of_bits [a, b, c, d, e] :: u32) = 2 \<longleftrightarrow> \<not> a \<and> b \<and> \<not> c \<and> \<not> d \<and> \<not> e"
  by (cases a; cases b; cases c; simp add: of_bits_def)+

lemma mask_32_bits: "(of_bits (a # b # c # d # e # f # bs) :: u32) AND 0x20 = of_bits [False, False, False, False, False, f]"
  by (rule bit_word_eqI) (auto simp: bit_simps nth_Cons split: nat.splits)

lemma CREG_bits: "8 + (of_bits [a, b, c] :: u32) = of_bits [a, b, c, True]"
  by (cases a; cases b; cases c; simp add: of_bits_def)

lemma replicate_eval: "replicate (numeral k) b = b # replicate (pred_numeral k) b"
  by (simp add: numeral_eq_Suc)

lemmas rvc_eval = Let_def replicate_eval
  rvc_encode_def imm_bits_def decompress_defs CREG_def c_field of_bits_rules of_bits_or of_bits_zero sext_from_bits
  operand_bits signed_bits operand_zero field_values mask_32_bits CREG_bits

section \<open>Every valid instruction expands\<close>

lemma decompress_encode: "rvc_valid i \<Longrightarrow> rv_decompress (rvc_encode i) = Some (rvc_expand i)"
  by (cases i) (simp_all add: rvc_eval, auto simp: rv_enc_i_def OP_def)

section \<open>Every expanded halfword is an instruction\<close>

text \<open>An operand, from the positions of its bits in the halfword.\<close>

definition pick :: "u16 \<Rightarrow> nat list \<Rightarrow> 'a::len word" where
  "pick c ks = of_bits (map (bit c) ks)"

text \<open>The instruction a halfword of each quadrant can only be, by its bits 15 to 13.\<close>

definition by_funct3 :: "u16 \<Rightarrow> rvc \<Rightarrow> rvc \<Rightarrow> rvc \<Rightarrow> rvc \<Rightarrow> rvc \<Rightarrow> rvc \<Rightarrow> rvc \<Rightarrow> rvc \<Rightarrow> rvc" where
  "by_funct3 c i0 i1 i2 i3 i4 i5 i6 i7 =
     (if bit c 15 then if bit c 14 then if bit c 13 then i7 else i6 else if bit c 13 then i5 else i4
      else if bit c 14 then if bit c 13 then i3 else i2 else if bit c 13 then i1 else i0)"

definition rvc_parse_q0 :: "u16 \<Rightarrow> rvc" where
  "rvc_parse_q0 c =
     (let r = pick c [2, 3, 4]; s = pick c [7, 8, 9]; w = pick c [6, 10, 11, 12, 5]; d = pick c [10, 11, 12, 5, 6]
      in by_funct3 c (C_ADDI4SPN r (pick c [6, 5, 11, 12, 7, 8, 9, 10])) (C_FLD r s d) (C_LW r s w) (C_LD r s d)
           C_EBREAK (C_FSD r s d) (C_SW r s w) (C_SD r s d))"

definition rvc_parse_alu :: "u16 \<Rightarrow> rvc" where
  "rvc_parse_alu c =
     (let r = pick c [7, 8, 9]; s = pick c [2, 3, 4]; n = pick c [2, 3, 4, 5, 6, 12]
      in if bit c 11 then
           if bit c 10 then
             if bit c 12 then if bit c 5 then C_ADDW r s else C_SUBW r s
             else if bit c 6 then if bit c 5 then C_AND r s else C_OR r s
             else if bit c 5 then C_XOR r s else C_SUB r s
           else C_ANDI r n
         else if bit c 10 then C_SRAI r n else C_SRLI r n)"

definition rvc_parse_q1 :: "u16 \<Rightarrow> rvc" where
  "rvc_parse_q1 c =
     (let r = pick c [7, 8, 9, 10, 11]; n = pick c [2, 3, 4, 5, 6, 12];
          s = pick c [7, 8, 9]; t = pick c [3, 4, 10, 11, 2, 5, 6, 12]
      in by_funct3 c (C_ADDI r n) (C_ADDIW r n) (C_LI r n)
           (if r = 2 then C_ADDI16SP (pick c [6, 2, 5, 3, 4, 12]) else C_LUI r n)
           (rvc_parse_alu c) (C_J (pick c [3, 4, 5, 11, 2, 7, 6, 9, 10, 8, 12])) (C_BEQZ s t) (C_BNEZ s t))"

definition rvc_parse_q2 :: "u16 \<Rightarrow> rvc" where
  "rvc_parse_q2 c =
     (let r = pick c [7, 8, 9, 10, 11]; s = pick c [2, 3, 4, 5, 6];
          u = pick c [5, 6, 12, 2, 3, 4]; d = pick c [10, 11, 12, 7, 8, 9]
      in by_funct3 c (C_SLLI r (pick c [2, 3, 4, 5, 6, 12])) (C_FLDSP r u) (C_LWSP r (pick c [4, 5, 6, 12, 2, 3])) (C_LDSP r u)
           (if bit c 12 then if s \<noteq> 0 then C_ADD r s else if r \<noteq> 0 then C_JALR r else C_EBREAK
            else if s \<noteq> 0 then C_MV r s else C_JR r)
           (C_FSDSP s d) (C_SWSP s (pick c [9, 10, 11, 12, 7, 8])) (C_SDSP s d))"

lemma halfword_bits:
  "(ucast (c :: u16) :: u32) = of_bits [bit c 0, bit c 1, bit c 2, bit c 3, bit c 4, bit c 5, bit c 6, bit c 7,
     bit c 8, bit c 9, bit c 10, bit c 11, bit c 12, bit c 13, bit c 14, bit c 15]"
  by (simp add: ucast_bits upt_rec eval_nat_numeral)

lemma halfword_eq:
  "of_bits bs = (c :: u16) \<longleftrightarrow> list_all (\<lambda>n. (n < length bs \<and> bs ! n) = bit c n)
     [0, 1, 2, 3, 4, 5, 6, 7, 8, 9, 10, 11, 12, 13, 14, 15]"
proof -
  have "[0..<LENGTH(16)] = [0, 1, 2, 3, 4, 5, 6, 7, 8, 9, 10, 11, 12, 13, 14, 15]"
    by (simp add: upt_rec)
  then show ?thesis unfolding word_bits_iff by simp
qed

lemmas parse_eval = rvc_eval halfword_bits halfword_eq pick_def

lemma parse_q0:
  assumes "\<not> bit c 0" and "\<not> bit c 1" and "rv_decompress c \<noteq> None"
  shows "rvc_valid (rvc_parse_q0 c) \<and> rvc_encode (rvc_parse_q0 c) = c"
  using assms by (cases "bit c 13"; cases "bit c 14"; cases "bit c 15";
    simp add: rvc_parse_q0_def by_funct3_def parse_eval split: if_splits)

lemma parse_alu:
  assumes "bit c 0" and "\<not> bit c 1" and "bit c 15" and "\<not> bit c 14" and "\<not> bit c 13" and "rv_decompress c \<noteq> None"
  shows "rvc_valid (rvc_parse_alu c) \<and> rvc_encode (rvc_parse_alu c) = c"
  using assms by (cases "bit c 11"; cases "bit c 10"; cases "bit c 12"; cases "bit c 5"; cases "bit c 6";
    simp add: rvc_parse_alu_def parse_eval)

lemma parse_q1:
  assumes "bit c 0" and "\<not> bit c 1" and "rv_decompress c \<noteq> None"
  shows "rvc_valid (rvc_parse_q1 c) \<and> rvc_encode (rvc_parse_q1 c) = c"
proof (cases "bit c 15 \<and> \<not> bit c 14 \<and> \<not> bit c 13")
  case True
  then have "rvc_parse_q1 c = rvc_parse_alu c" by (simp add: rvc_parse_q1_def by_funct3_def Let_def)
  with True assms parse_alu [of c] show ?thesis by simp
next
  case False
  then show ?thesis using assms by (cases "bit c 13"; cases "bit c 14"; cases "bit c 15";
    (simp add: rvc_parse_q1_def by_funct3_def parse_eval split: if_splits)?; blast?)
qed

lemma parse_q2:
  assumes "\<not> bit c 0" and "bit c 1" and "rv_decompress c \<noteq> None"
  shows "rvc_valid (rvc_parse_q2 c) \<and> rvc_encode (rvc_parse_q2 c) = c"
  using assms by (cases "bit c 13"; cases "bit c 14"; cases "bit c 15";
    simp add: rvc_parse_q2_def by_funct3_def parse_eval split: if_splits)

lemma decompress_parses:
  assumes "rv_decompress c \<noteq> None"
  obtains i where "rvc_valid i" and "rvc_encode i = c"
proof -
  from assms have "\<not> (bit c 0 \<and> bit c 1)"
    by (auto simp: rv_decompress_def parse_eval)
  with assms parse_q0 [of c] parse_q1 [of c] parse_q2 [of c] that show thesis by blast
qed


end
