(* ===== verification/RV_Tlb_Coherence.thy ===== *)
theory RV_Tlb_Coherence
  imports RV_Paging RV_Wf
begin

text \<open>
  The TLB as a cache of the page table. An entry is sound for an address if the reference walk
  of the machine's present tables maps the address to the physical address the entry gives; a
  TLB is coherent if what it would answer is sound. A flush makes it coherent, and every
  \<open>rv_paging_lookup\<close>, hit or miss, answers soundly and keeps it so. All this is for the addresses
  of one half of the address space: \<open>RV_TLB_VPN_MASK\<close> leaves out bit 38, so the two halves of
  Sv39 share their entries.
\<close>

section \<open>Coherence\<close>

definition entry_sound :: "'d emu_machine \<Rightarrow> rv_cpu \<Rightarrow> u64 \<Rightarrow> rv_tlb_entry \<Rightarrow> bool" where
  "entry_sound m c va e \<longleftrightarrow>
     (case sv39_walk m c (unat va div 4096) (sv39_root c) [2, 1, 0] of
        Sv39_Leaf l a p \<Rightarrow> ppn_of p mod 512 ^ l = 0 \<and> unat (entry_paddr e va) = sv39_paddr l p va
      | _ \<Rightarrow> False)"

definition tlb_coherent :: "bool \<Rightarrow> 'd emu_machine \<Rightarrow> nat \<Rightarrow> bool" where
  "tlb_coherent upper m h \<longleftrightarrow>
     (\<forall>va col. bit va 38 = upper \<longrightarrow> col < 16 \<longrightarrow> tlb_is_valid (get_cpu m h) (tlb_row va) col \<longrightarrow>
        tlb_match (get_cpu m h) va (tlb_entry_at (get_cpu m h) (tlb_row va) col) \<longrightarrow>
        entry_sound m (get_cpu m h) va (tlb_entry_at (get_cpu m h) (tlb_row va) col))"

lemma entry_sound_leaf:
  "entry_sound m c va e \<longleftrightarrow>
     (\<exists>l a p. sv39_walk m c (unat va div 4096) (sv39_root c) [2, 1, 0] = Sv39_Leaf l a p
        \<and> ppn_of p mod 512 ^ l = 0 \<and> unat (entry_paddr e va) = sv39_paddr l p va)"
  by (cases "sv39_walk m c (unat va div 4096) (sv39_root c) [2, 1, 0]")
    (simp_all add: entry_sound_def del: sv39_walk.simps)

section \<open>One page, one answer\<close>

definition page_of :: "u64 \<Rightarrow> nat" where
  "page_of va = unat va div 4096 mod 2 ^ 27"

lemma page_of_word: "page_of va = unat (take_bit 27 (drop_bit 12 va))"
  by (simp only: page_of_def unat_bits_div_mod) simp

lemma same_page:
  assumes "va AND RV_TLB_VPN_MASK = va' AND RV_TLB_VPN_MASK" and "bit va 38 = bit va' 38"
  shows "page_of va = page_of va'"
proof -
  have "bit va n = bit va' n" if "12 \<le> n" "n < 39" for n
  proof (cases "n = 38")
    case False
    have "bit (va AND RV_TLB_VPN_MASK) n = bit (va' AND RV_TLB_VPN_MASK) n" by (simp only: assms(1))
    with that False show ?thesis by (simp add: bit_simps mask_bits)
  qed (use assms(2) in simp)
  then have "take_bit 27 (drop_bit 12 va) = take_bit 27 (drop_bit 12 va')"
    by (intro bit_word_eqI) (auto simp: bit_simps)
  then show ?thesis by (simp only: page_of_word)
qed

lemma mod_div_mod:
  fixes v :: nat
  assumes "a * b * c = n"
  shows "v mod n div a mod b = v div a mod b"
proof (cases "a = 0")
  case False
  have "v mod n = a * (v div a mod (b * c)) + v mod a"
    by (simp only: assms [symmetric] mult.assoc mod_mult2_eq [of v a])
  with False show ?thesis by (simp add: mod_mod_cancel)
qed (use assms in simp)

lemma walk_index:
  fixes v :: nat
  assumes "l \<le> 2"
  shows "(v mod 2 ^ 27) div 512 ^ l mod 512 = v div 512 ^ l mod 512"
proof (rule mod_div_mod)
  have "l = 0 \<or> l = 1 \<or> l = 2" using assms by auto
  then show "512 ^ l * 512 * 512 ^ (2 - l) = (2 :: nat) ^ 27" by auto
qed

lemma sv39_walk_page:
  assumes "\<forall>l\<in>set ls. l \<le> 2"
  shows "sv39_walk m c (v mod 2 ^ 27) base ls = sv39_walk m c v base ls"
  using assms by (induction ls arbitrary: base) (simp_all add: walk_index Let_def del: power_numeral)

lemma sv39_walk_same_page:
  assumes "page_of va = page_of va'"
  shows "sv39_walk m c (unat va div 4096) base [2, 1, 0] = sv39_walk m c (unat va' div 4096) base [2, 1, 0]"
  using sv39_walk_page [of "[2, 1, 0]" m c "unat va div 4096" base]
    sv39_walk_page [of "[2, 1, 0]" m c "unat va' div 4096" base] assms
  by (simp add: page_of_def del: sv39_walk.simps)

lemma entry_paddr_page: "unat (entry_paddr e va) = 4096 * ppn_of (pte e) + unat va mod 4096"
proof -
  have tb: "va mod RV_CPU_PAGE_SIZE = take_bit 12 va" by (simp add: take_bit_eq_mod)
  have "entry_paddr e va = push_bit 12 (pte_ppn (pte e)) + take_bit 12 va"
    unfolding entry_paddr_def tb by (subst disjunctive_add [symmetric]) (auto simp: bit_simps)
  moreover have "unat (push_bit 12 (pte_ppn (pte e))) = 4096 * ppn_of (pte e)"
    using ppn_of_less [of "pte e"] by (simp add: push_bit_eq_mult unat_word_ariths unat_pte_ppn)
  moreover have "unat (take_bit 12 va) = unat va mod 4096"
    by (simp only: unat_bits_div_mod) simp
  ultimately show ?thesis
    using ppn_of_less [of "pte e"] by (simp add: unat_word_ariths)
qed

lemma sv39_paddr_page:
  assumes "l \<le> 2"
  shows "sv39_paddr l p va = 4096 * (ppn_of p + page_of va mod 512 ^ l) + unat va mod 4096"
proof -
  have "(512 :: nat) ^ l dvd 2 ^ 27"
    using assms le_imp_power_dvd [of "9 * l" 27 "2 :: nat"] by (simp add: power_mult)
  then have "page_of va mod 512 ^ l = unat va div 4096 mod 512 ^ l"
    by (simp only: page_of_def mod_mod_cancel)
  then show ?thesis by (simp add: sv39_paddr_def mod_mult2_eq distrib_left)
qed

text \<open>So whether an entry is sound depends on the page only, and for an entry of a page only on its PTE.\<close>

lemma entry_sound_iff:
  "entry_sound m c va e \<longleftrightarrow>
     (case sv39_walk m c (unat va div 4096) (sv39_root c) [2, 1, 0] of
        Sv39_Leaf l a p \<Rightarrow> ppn_of p mod 512 ^ l = 0 \<and> ppn_of (pte e) = ppn_of p + page_of va mod 512 ^ l
      | _ \<Rightarrow> False)"
proof (cases "sv39_walk m c (unat va div 4096) (sv39_root c) [2, 1, 0]")
  case (Sv39_Leaf l a p)
  with sv39_walk_leaf [OF Sv39_Leaf] have "l \<le> 2" by auto
  with Sv39_Leaf show ?thesis
    by (auto simp: entry_sound_def entry_paddr_page sv39_paddr_page simp del: sv39_walk.simps)
qed (simp_all add: entry_sound_def del: sv39_walk.simps)

lemma entry_sound_same_page:
  assumes "page_of va = page_of va'"
  shows "entry_sound m c va e = entry_sound m c va' e"
  unfolding entry_sound_iff sv39_walk_same_page [OF assms] assms ..

section \<open>What does not change a translation\<close>

lemma sv39_walk_csr:
  assumes "csr c' = csr c"
  shows "sv39_walk m c' vpn base ls = sv39_walk m c vpn base ls"
proof (induction ls arbitrary: base)
  case (Cons l ls)
  have "rv_pmp_check c' a n b = rv_pmp_check c a n b" for a n b
    using assms by (simp add: rv_pmp_check_def)
  then show ?case by (simp only: sv39_walk.simps Cons)
qed simp

lemma entry_sound_csr: "csr c' = csr c \<Longrightarrow> entry_sound m c' va e = entry_sound m c va e"
  by (simp add: entry_sound_iff sv39_root_def sv39_walk_csr [of c'] del: sv39_walk.simps)

lemma sv39_walk_put_cpu [simp]:
  "sv39_walk (put_cpu h x m) c vpn base ls = sv39_walk m c vpn base ls"
  by (induction ls arbitrary: base)
    (simp_all add: Let_def pte_at_def ram_bytes_def ram_off_def in_ram_def)

lemma entry_sound_put_cpu [simp]: "entry_sound (put_cpu h x m) c va e = entry_sound m c va e"
  by (simp add: entry_sound_iff del: sv39_walk.simps)

text \<open>
  The walk's own store, the accessed and dirty flags of a leaf, only shows in the flags of that leaf:
  page-table entries are aligned, so another entry of a table is not touched.
\<close>

definition with_flags :: "u64 \<Rightarrow> u64 \<Rightarrow> sv39_result \<Rightarrow> sv39_result" where
  "with_flags a fl r =
     (case r of Sv39_Leaf l a' p \<Rightarrow> Sv39_Leaf l a' (if a' = a then p OR fl else p) | _ \<Rightarrow> r)"

definition pte_addr :: "nat \<Rightarrow> nat \<Rightarrow> nat \<Rightarrow> u64" where
  "pte_addr v base l = of_nat (base + 8 * (v div 512 ^ l mod 512))"

lemma sv39_walk_Cons:
  "sv39_walk m c v base (l # ls) =
     (if \<not> bit (rv_pmp_check c (pte_addr v base l) 8 False) RV_PMPCFG_R_BIT then Sv39_Denied
      else if \<not> in_ram m (pte_addr v base l) 8 then Sv39_Outside
      else if even (unat (pte_at m (pte_addr v base l))) then Sv39_Fault
      else if \<exists>i\<in>{1..4}. bit (pte_at m (pte_addr v base l)) i
      then Sv39_Leaf l (pte_addr v base l) (pte_at m (pte_addr v base l))
      else sv39_walk m c v (4096 * ppn_of (pte_at m (pte_addr v base l))) ls)"
  by (simp only: sv39_walk.simps Let_def pte_addr_def)

declare sv39_walk.simps(2) [simp del]

definition table_base :: "nat \<Rightarrow> bool" where
  "table_base base \<longleftrightarrow> base mod 4096 = 0 \<and> base < 2 ^ 56"

lemma table_base_ppn [simp]: "table_base (4096 * ppn_of q)"
  using ppn_of_less [of q] by (simp add: table_base_def)

lemma table_base_root [simp]: "table_base (sv39_root c)"
  by (simp add: table_base_def sv39_root_def)

lemma pte_addr_aligned:
  assumes "table_base base"
  shows "unat (pte_addr v base l) mod 8 = 0"
proof -
  define k where "k = v div 512 ^ l mod 512"
  have "k < 512" by (simp add: k_def)
  moreover have "base + 8 * k < 2 ^ 64" using assms \<open>k < 512\<close> by (simp add: table_base_def)
  then have "unat (of_nat (base + 8 * k) :: u64) = base + 8 * k"
    by (simp only: unat_of_nat) simp
  moreover have "(base + 8 * k) mod 8 = 0"
  proof -
    have "(8 :: nat) dvd 4096" by simp
    moreover have "4096 dvd base" using assms by (simp add: table_base_def mod_eq_0_iff_dvd)
    ultimately have "8 dvd base" by (rule dvd_trans)
    then show ?thesis by simp
  qed
  ultimately show ?thesis by (simp only: pte_addr_def k_def [symmetric])
qed

lemma sv39_walk_leaf_aligned:
  assumes "sv39_walk m c v base ls = Sv39_Leaf l a p" and "table_base base"
  shows "unat a mod 8 = 0"
  using assms
proof (induction ls arbitrary: base)
  case (Cons k ls)
  from Cons.prems(1) Cons.IH [OF _ table_base_ppn] pte_addr_aligned [OF Cons.prems(2), of v k] show ?case
    unfolding sv39_walk_Cons by (auto split: if_splits)
qed simp

lemma sv39_walk_leaf_rwx: "sv39_walk m c v base ls = Sv39_Leaf l a p \<Longrightarrow> \<exists>i\<in>{1..4}. bit p i"
  by (induction ls arbitrary: base) (auto simp: sv39_walk_Cons split: if_splits)

lemma pte_at_store:
  assumes "in_ram m a 8" and "in_ram m b 8" and "unat a mod 8 = 0" and "unat b mod 8 = 0"
  shows "pte_at (ram_store a (le_bytes 8 q) m) b = (if b = a then q else pte_at m b)"
proof (cases "b = a")
  case False
  then have "unat a \<noteq> unat b" by (simp only: word_unat_eq_iff [symmetric] not_sym)
  with assms(3,4) have "unat b + 8 \<le> unat a \<or> unat a + 8 \<le> unat b" by presburger
  then have "ram_bytes (ram_store a (le_bytes 8 q) m) b 8 = ram_bytes m b 8"
    using assms(1,2) by (intro ram_bytes_store_other) (auto simp: in_ram_def simp del: le_bytes.simps)
  with False show ?thesis by (simp add: pte_at_def)
qed (simp add: pte_at_def ram_bytes_store del: le_bytes.simps)

lemma setfl_leaf:
  "odd (unat (p OR pte_setfl mode)) \<longleftrightarrow> odd (unat p)"
  "(\<exists>i\<in>{1..4}. bit (p OR pte_setfl mode) i) \<longleftrightarrow> (\<exists>i\<in>{1..4}. bit p i)"
  "ppn_of (p OR pte_setfl mode) = ppn_of p"
proof -
  have v: "odd (unat q) \<longleftrightarrow> bit q 0" for q :: u64
    using bit_unsigned_iff [of q 0, where ?'a = nat] by (simp add: bit_0)
  show "odd (unat (p OR pte_setfl mode)) \<longleftrightarrow> odd (unat p)"
    unfolding v by (auto simp: bit_simps dest: setfl_low)
  show "(\<exists>i\<in>{1..4}. bit (p OR pte_setfl mode) i) \<longleftrightarrow> (\<exists>i\<in>{1..4}. bit p i)"
    by (auto simp: bit_simps dest: setfl_low)
  show "ppn_of (p OR pte_setfl mode) = ppn_of p"
    by (simp only: unat_pte_ppn [symmetric] pte_ppn_setfl)
qed

lemma sv39_walk_setfl:
  assumes a: "in_ram m a 8" "unat a mod 8 = 0" and p: "pte_at m a = p" "odd (unat p)" "\<exists>i\<in>{1..4}. bit p i"
    and "table_base base"
  shows "sv39_walk (ram_store a (le_bytes 8 (p OR pte_setfl mode)) m) c v base ls
    = with_flags a (pte_setfl mode) (sv39_walk m c v base ls)"
  using assms(6-)
proof (induction ls arbitrary: base)
  case Nil
  then show ?case by (simp add: with_flags_def)
next
  case (Cons l ls)
  let ?b = "pte_addr v base l"
  note ih = Cons.IH [OF table_base_ppn]
  show ?case
  proof (cases "in_ram m ?b 8")
    case True
    note st = pte_at_store [OF a(1) True a(2) pte_addr_aligned [OF Cons.prems]]
    show ?thesis
      unfolding sv39_walk_Cons ram_store_fields st ih
      using p setfl_leaf(1,2) [of p mode] by (cases "?b = a") (auto simp: with_flags_def)
  qed (simp add: sv39_walk_Cons with_flags_def)
qed


lemma with_flags_outside [simp]: "with_flags a fl r = Sv39_Outside \<longleftrightarrow> r = Sv39_Outside"
  by (cases r) (auto simp: with_flags_def)

lemma entry_sound_setfl:
  assumes "sv39_walk m c (unat va div 4096) (sv39_root c) [2, 1, 0] = Sv39_Leaf l a p"
  shows "entry_sound (ram_store a (le_bytes 8 (p OR pte_setfl mode)) m) c' va' e = entry_sound m c' va' e"
proof -
  from sv39_walk_leaf [OF assms] have leaf: "in_ram m a 8" "pte_at m a = p" "odd (unat p)" by auto
  have rwx: "\<exists>i\<in>{1..4}. bit p i" by (rule sv39_walk_leaf_rwx [OF assms])
  note w = sv39_walk_setfl [OF leaf(1) sv39_walk_leaf_aligned [OF assms table_base_root] leaf(2,3) rwx table_base_root]
  show ?thesis
    unfolding entry_sound_iff w
    by (cases "sv39_walk m c' (unat va' div 4096) (sv39_root c') [2, 1, 0]") (auto simp: with_flags_def setfl_leaf)
qed

section \<open>The walk's answer\<close>

text \<open>What a successful raw lookup returns: an entry for the page of \<open>va\<close>, sound, in the machine as it
  was but for the flags of a leaf.\<close>

lemma raw_lookup_sound:
  assumes wf: "wf_machine m"
    and inside: "sv39_walk m (get_cpu m h) (unat va div 4096) (sv39_root (get_cpu m h)) [2, 1, 0] \<noteq> Sv39_Outside"
    and ok: "rv_paging_raw_lookup env h va out mode m = Some (res, e, m')"
  shows "m' = m \<or> (\<exists>l a p. m' = ram_store a (le_bytes 8 (p OR pte_setfl mode)) m
      \<and> sv39_walk m (get_cpu m h) (unat va div 4096) (sv39_root (get_cpu m h)) [2, 1, 0] = Sv39_Leaf l a p)"
    and "res = RV_MEM_OK \<Longrightarrow> entry_sound m (get_cpu m h) va e \<and> vma e AND RV_TLB_VPN_MASK = va AND RV_TLB_VPN_MASK"
proof -
  let ?c = "get_cpu m h"
  define w where "w = sv39_walk m ?c (unat va div 4096) (sv39_root ?c) [2, 1, 0]"
  have root: "unat (satp (csr ?c) AND RV_SATP_PPN_MASK) < 2 ^ 44"
    using satp_root [of ?c] by (simp add: sv39_root_def)
  have "sv39_walk m ?c (unat va div 4096) (4096 * unat (satp (csr ?c) AND RV_SATP_PPN_MASK)) [2, 1, 0] = w"
    by (simp only: satp_root w_def)
  note walk = paging_walk_reference [OF wf root this inside [folded w_def], of env out mode "satp_asid ?c"]
  note raw = ok [unfolded rv_paging_raw_lookup_def Let_def walk]
  have leaf: "(m' = m \<or> (\<exists>l a p. m' = ram_store a (le_bytes 8 (p OR pte_setfl mode)) m \<and> w = Sv39_Leaf l a p))
    \<and> (res = RV_MEM_OK \<longrightarrow> (\<exists>l a p. w = Sv39_Leaf l a p \<and> ppn_of p mod 512 ^ l = 0
           \<and> unat (entry_paddr e va) = sv39_paddr l p va)
         \<and> vma e AND RV_TLB_VPN_MASK = va AND RV_TLB_VPN_MASK)"
  proof (cases w)
    case (Sv39_Leaf l a p)
    from sv39_walk_leaf [OF Sv39_Leaf [unfolded w_def]] have l: "l \<le> 2" and ram: "in_ram m a 8" by auto
    have vpn: "(push_bit 48 x OR (va AND RV_TLB_VPN_MASK) OR ucast (b :: u8)) AND RV_TLB_VPN_MASK
        = va AND RV_TLB_VPN_MASK" for x b
      by (rule bit_word_eqI) (auto simp: bit_simps mask_bits dest: bit_imp_le_length)
    note addr = leaf_entry_paddr [OF l, where p = p and va = va and mode = mode]
    show ?thesis
      using raw unfolding Sv39_Leaf sv39_result.case paging_leaf_reference [OF wf ram l] Let_def
      by (auto simp: vpn addr simp del: le_bytes.simps split: if_splits)
  qed (use raw in auto)
  from leaf show "m' = m \<or> (\<exists>l a p. m' = ram_store a (le_bytes 8 (p OR pte_setfl mode)) m
      \<and> sv39_walk m ?c (unat va div 4096) (sv39_root ?c) [2, 1, 0] = Sv39_Leaf l a p)"
    by (simp only: w_def)
  show "entry_sound m ?c va e \<and> vma e AND RV_TLB_VPN_MASK = va AND RV_TLB_VPN_MASK" if "res = RV_MEM_OK"
    using leaf that unfolding entry_sound_def by (auto simp: w_def)
qed

section \<open>What keeps a TLB coherent\<close>

text \<open>
  An insertion may go astray, even into another row (\<open>next_column\<close> is not bounded by the number of
  columns), but a valid entry afterwards is the new one or was valid there before.
\<close>

lemma tlb_fill_valid:
  assumes "tlb_fill row e c = Some c'" and wf: "wf_tlb (tlb c)" and "row < 16"
    and "r < 16" and "j < 16" and "tlb_is_valid c' r j"
  shows "tlb_entry_at c' r j = e \<or> (tlb_is_valid c r j \<and> tlb_entry_at c' r j = tlb_entry_at c r j)"
proof (cases "find (\<lambda>col. \<not> tlb_is_valid c row col) [0..<RV_TLB_COLUMNS]")
  case None
  then have c': "tlb_entries (tlb c') = (tlb_entries (tlb c))[row * 16 + unat (next_column (tlb c)) := e]"
    "tlb_valid (tlb c') = tlb_valid (tlb c)"
    and i: "row * 16 + unat (next_column (tlb c)) < 256"
    using assms(1) by (auto simp: tlb_fill_def Let_def tlb_put_entry_def split: if_splits)
  show ?thesis
    using assms(6) i wf by (auto simp: tlb_is_valid_def tlb_entry_at_def c' wf_tlb_def nth_list_update)
next
  case (Some k)
  then have k: "k < 16" by (auto simp: find_Some_iff)
  have c': "c' = tlb_set_valid row k (tlb_put_entry (row * 16 + k) e c)"
    using assms(1) Some by (simp add: tlb_fill_def)
  have w: "wf_tlb (tlb (tlb_put_entry (row * 16 + k) e c))" using wf by (simp add: wf_tlb_def)
  show ?thesis
    using assms(6) unfolding c' tlb_set_valid_frame(1,2) [OF w assms(3) k assms(4,5)]
      tlb_entry_at_put [OF wf assms(3) k assms(4,5)] by auto
qed

lemma tlb_fill_csr: "tlb_fill row e c = Some c' \<Longrightarrow> csr c' = csr c"
  by (auto simp: tlb_fill_def Let_def tlb_put_entry_def tlb_set_valid_def split: option.splits if_splits)

lemma tlb_match_csr: "csr c' = csr c \<Longrightarrow> tlb_match c' va e = tlb_match c va e"
  by (simp add: tlb_match_def satp_asid_def)

text \<open>The rule the operations share: the entries that are valid afterwards were so before, or are sound.\<close>

lemma tlb_coherent_step:
  assumes "tlb_coherent upper m h"
    and "csr (get_cpu m' h) = csr (get_cpu m h)"
    and "\<And>va e. entry_sound m' (get_cpu m h) va e = entry_sound m (get_cpu m h) va e"
    and "\<And>va j. bit va 38 = upper \<Longrightarrow> j < 16 \<Longrightarrow> tlb_is_valid (get_cpu m' h) (tlb_row va) j \<Longrightarrow>
      tlb_match (get_cpu m h) va (tlb_entry_at (get_cpu m' h) (tlb_row va) j) \<Longrightarrow>
      entry_sound m (get_cpu m h) va (tlb_entry_at (get_cpu m' h) (tlb_row va) j)
      \<or> tlb_is_valid (get_cpu m h) (tlb_row va) j
         \<and> tlb_entry_at (get_cpu m' h) (tlb_row va) j = tlb_entry_at (get_cpu m h) (tlb_row va) j"
  shows "tlb_coherent upper m' h"
  using assms(1,4) unfolding tlb_coherent_def
  by (simp only: tlb_match_csr [OF assms(2)] entry_sound_csr [OF assms(2)] assms(3)) metis

lemma tlb_coherent_clear:
  assumes "tlb_coherent upper m h" and "h < length (cpus m)" and "wf_tlb (tlb (get_cpu m h))"
  shows "tlb_coherent upper (put_cpu h (tlb_clear_valid row col (get_cpu m h)) m) h"
proof (rule tlb_coherent_step [OF assms(1)])
  fix va j
  assume "j < 16" "tlb_is_valid (get_cpu (put_cpu h (tlb_clear_valid row col (get_cpu m h)) m) h) (tlb_row va) j"
  then show "entry_sound m (get_cpu m h) va
        (tlb_entry_at (get_cpu (put_cpu h (tlb_clear_valid row col (get_cpu m h)) m) h) (tlb_row va) j)
      \<or> tlb_is_valid (get_cpu m h) (tlb_row va) j
         \<and> tlb_entry_at (get_cpu (put_cpu h (tlb_clear_valid row col (get_cpu m h)) m) h) (tlb_row va) j
           = tlb_entry_at (get_cpu m h) (tlb_row va) j"
    using assms(2,3)
    by (cases "row = tlb_row va")
      (auto simp: tlb_clear_valid_def tlb_is_valid_def tlb_entry_at_def wf_tlb_def bit_simps)
qed (use assms(2) in \<open>simp_all add: tlb_clear_valid_def\<close>)

lemma tlb_coherent_fill:
  assumes "tlb_coherent (bit va 38) m h" and h: "h < length (cpus m)" and wf: "wf_tlb (tlb (get_cpu m h))"
    and fill: "tlb_fill (tlb_row va) e (get_cpu m h) = Some c'"
    and e: "entry_sound m (get_cpu m h) va e" "vma e AND RV_TLB_VPN_MASK = va AND RV_TLB_VPN_MASK"
  shows "tlb_coherent (bit va 38) (put_cpu h c' m) h"
proof (rule tlb_coherent_step [OF assms(1)])
  fix va' j
  assume "bit va' 38 = bit va 38" "j < 16" "tlb_is_valid (get_cpu (put_cpu h c' m) h) (tlb_row va') j"
    and match: "tlb_match (get_cpu m h) va' (tlb_entry_at (get_cpu (put_cpu h c' m) h) (tlb_row va') j)"
  moreover have "entry_sound m (get_cpu m h) va' e" if "tlb_match (get_cpu m h) va' e"
  proof -
    have "page_of va = page_of va'"
      using that e(2) \<open>bit va' 38 = bit va 38\<close> by (intro same_page) (auto simp: tlb_match_def)
    with e(1) show ?thesis using entry_sound_same_page by blast
  qed
  ultimately show "entry_sound m (get_cpu m h) va' (tlb_entry_at (get_cpu (put_cpu h c' m) h) (tlb_row va') j)
      \<or> tlb_is_valid (get_cpu m h) (tlb_row va') j
         \<and> tlb_entry_at (get_cpu (put_cpu h c' m) h) (tlb_row va') j = tlb_entry_at (get_cpu m h) (tlb_row va') j"
    using tlb_fill_valid [OF fill wf tlb_row_less tlb_row_less] h by auto
qed (use h tlb_fill_csr [OF fill] in simp_all)

lemma tlb_coherent_raw:
  assumes "tlb_coherent upper m h" and "wf_machine m"
    and "sv39_walk m (get_cpu m h) (unat va div 4096) (sv39_root (get_cpu m h)) [2, 1, 0] \<noteq> Sv39_Outside"
    and "rv_paging_raw_lookup env h va out mode m = Some (res, e, m')"
  shows "tlb_coherent upper m' h"
  using raw_lookup_sound(1) [OF assms(2-)]
proof (elim disjE exE conjE)
  fix l a p
  assume m': "m' = ram_store a (le_bytes 8 (p OR pte_setfl mode)) m"
    and "sv39_walk m (get_cpu m h) (unat va div 4096) (sv39_root (get_cpu m h)) [2, 1, 0] = Sv39_Leaf l a p"
  from this(2) show ?thesis
    by (intro tlb_coherent_step [OF assms(1)]) (auto simp: m' entry_sound_setfl simp del: le_bytes.simps)
qed (use assms(1) in simp)

section \<open>Lookups\<close>

text \<open>\<open>m'\<close> has the tables and translation registers of \<open>m\<close>, as far as a translation can see.\<close>

definition same_translations :: "nat \<Rightarrow> 'd emu_machine \<Rightarrow> 'd emu_machine \<Rightarrow> bool" where
  "same_translations h m m' \<longleftrightarrow>
     wf_machine m' = wf_machine m \<and> length (cpus m') = length (cpus m)
     \<and> csr (get_cpu m' h) = csr (get_cpu m h)
     \<and> (\<forall>va e. entry_sound m' (get_cpu m' h) va e = entry_sound m (get_cpu m h) va e)
     \<and> (\<forall>va :: u64. sv39_walk m' (get_cpu m' h) (unat va div 4096) (sv39_root (get_cpu m' h)) [2, 1, 0] = Sv39_Outside
          \<longleftrightarrow> sv39_walk m (get_cpu m h) (unat va div 4096) (sv39_root (get_cpu m h)) [2, 1, 0] = Sv39_Outside)"

lemma same_translations_refl [simp]: "same_translations h m m"
  by (simp add: same_translations_def)

lemma same_translations_trans:
  "same_translations h m m' \<Longrightarrow> same_translations h m' m'' \<Longrightarrow> same_translations h m m''"
  by (simp add: same_translations_def)

lemma same_translations_put_cpu:
  assumes "h < length (cpus m)" and "wf_machine m" and "keeps (get_cpu m h) c'" and "csr c' = csr (get_cpu m h)"
  shows "same_translations h m (put_cpu h c' m)"
  using assms
  by (simp add: same_translations_def entry_sound_csr [OF assms(4)] sv39_walk_csr [OF assms(4)] sv39_root_def
      wf_put_cpu)

lemma same_translations_setfl:
  assumes "sv39_walk m (get_cpu m h) (unat va div 4096) (sv39_root (get_cpu m h)) [2, 1, 0] = Sv39_Leaf l a p"
  shows "same_translations h m (ram_store a (le_bytes 8 (p OR pte_setfl mode)) m)"
proof -
  from sv39_walk_leaf [OF assms] have leaf: "in_ram m a 8" "pte_at m a = p" "odd (unat p)" by auto
  note w = sv39_walk_setfl [OF leaf(1) sv39_walk_leaf_aligned [OF assms table_base_root] leaf(2,3)
      sv39_walk_leaf_rwx [OF assms] table_base_root]
  show ?thesis
    by (simp add: same_translations_def entry_sound_setfl [OF assms] w del: le_bytes.simps)
qed

lemma miss_step:
  assumes wf: "wf_machine m" and h: "h < length (cpus m)" and coh: "tlb_coherent (bit va 38) m h"
    and inside: "sv39_walk m (get_cpu m h) (unat va div 4096) (sv39_root (get_cpu m h)) [2, 1, 0] \<noteq> Sv39_Outside"
    and run: "paging_miss env h va out mode m = Some (res, e, m')"
  shows "(res = RV_MEM_OK \<longrightarrow> entry_sound m (get_cpu m h) va e) \<and> tlb_coherent (bit va 38) m' h
    \<and> same_translations h m m'"
proof -
  obtain m1 where raw: "rv_paging_raw_lookup env h va out mode m = Some (res, e, m1)"
    and rest: "m' = m1 \<or> res = RV_MEM_OK \<and>
      (\<exists>c'. tlb_fill (tlb_row va) e (get_cpu m1 h) = Some c' \<and> m' = put_cpu h c' m1)"
    using run unfolding paging_miss_def
    by (auto simp: Option.bind_eq_Some_conv split: if_splits)
  note sound = raw_lookup_sound [OF wf inside raw]
  have st: "same_translations h m m1" using sound(1) same_translations_setfl by auto
  have coh1: "tlb_coherent (bit va 38) m1 h" by (rule tlb_coherent_raw [OF coh wf inside raw])
  have m1: "wf_machine m1" "h < length (cpus m1)" "entry_sound m1 (get_cpu m1 h) va x = entry_sound m (get_cpu m h) va x" for x
    using st wf h by (simp_all add: same_translations_def)
  from rest show ?thesis
  proof (elim disjE exE conjE)
    fix c'
    assume res: "res = RV_MEM_OK" and fill: "tlb_fill (tlb_row va) e (get_cpu m1 h) = Some c'"
      and m': "m' = put_cpu h c' m1"
    have "wf_tlb (tlb (get_cpu m1 h))" using wf_machine_cpu [OF m1(1,2)] by (rule wf_cpuD)
    with tlb_coherent_fill [OF coh1 m1(2) _ fill] sound(2) [OF res] m1(3) m'
    have "tlb_coherent (bit va 38) m' h" by simp
    moreover have "same_translations h m m'"
      using same_translations_put_cpu [OF m1(2,1) keeps_tlb_fill [OF fill] tlb_fill_csr [OF fill]] st m'
      by (blast intro: same_translations_trans)
    ultimately show ?thesis using sound(2) by blast
  qed (use sound(2) st coh1 in blast)
qed

lemma lookup_step:
  assumes wf: "wf_machine m" and h: "h < length (cpus m)" and coh: "tlb_coherent (bit va 38) m h"
    and inside: "sv39_walk m (get_cpu m h) (unat va div 4096) (sv39_root (get_cpu m h)) [2, 1, 0] \<noteq> Sv39_Outside"
    and run: "rv_paging_lookup env h va out mode m = Some (res, e, m')"
  shows "(res = RV_MEM_OK \<longrightarrow> entry_sound m (get_cpu m h) va e) \<and> tlb_coherent (bit va 38) m' h
    \<and> same_translations h m m'"
proof (cases "tlb_search (get_cpu m h) va (pte_setfl mode) [0..<RV_TLB_COLUMNS]")
  case (Probe_Hit x)
  then obtain j where "j < 16" "tlb_is_valid (get_cpu m h) (tlb_row va) j"
    "tlb_match (get_cpu m h) va x" "x = tlb_entry_at (get_cpu m h) (tlb_row va) j"
    by (auto simp: tlb_search_cases find_Some_iff split: option.splits if_splits)
  with coh have "entry_sound m (get_cpu m h) va x" by (simp add: tlb_coherent_def)
  with run Probe_Hit coh show ?thesis by (auto simp: rv_paging_lookup_def)
next
  case (Probe_Stale col)
  let ?c = "tlb_clear_valid (tlb_row va) col (get_cpu m h)"
  have csr: "csr ?c = csr (get_cpu m h)" by (simp add: tlb_clear_valid_def)
  have wt: "wf_tlb (tlb (get_cpu m h))" using wf_machine_cpu [OF wf h] by (rule wf_cpuD)
  have st: "same_translations h m (put_cpu h ?c m)"
    by (rule same_translations_put_cpu [OF h wf keeps_tlb_clear csr])
  have "paging_miss env h va out mode (put_cpu h ?c m) = Some (res, e, m')"
    using run Probe_Stale by (simp add: rv_paging_lookup_def)
  from miss_step [OF _ _ tlb_coherent_clear [OF coh h wt] _ this] st wf h inside show ?thesis
    by (auto simp: same_translations_def)
next
  case Probe_Miss
  then show ?thesis using miss_step [OF wf h coh inside] run by (simp add: rv_paging_lookup_def)
qed


section \<open>Sequences of lookups\<close>

text \<open>The lookups of one core one after the other, with the answer to each.\<close>

fun paging_lookups ::
  "'d emu_env \<Rightarrow> nat \<Rightarrow> (u64 \<times> rv_access) list \<Rightarrow> 'd emu_machine \<Rightarrow>
   ((rv_mem_result \<times> rv_tlb_entry) list \<times> 'd emu_machine) option" where
  "paging_lookups env h [] m = Some ([], m)"
| "paging_lookups env h ((va, mode) # qs) m =
     do {
       (res, e, m) \<leftarrow> rv_paging_lookup env h va no_entry mode m;
       (rs, m) \<leftarrow> paging_lookups env h qs m;
       Some ((res, e) # rs, m)
     }"

lemma lookups_step:
  assumes "wf_machine m" and "h < length (cpus m)" and "tlb_coherent upper m h"
    and "\<forall>(va, mode)\<in>set qs. bit va 38 = upper
      \<and> sv39_walk m (get_cpu m h) (unat va div 4096) (sv39_root (get_cpu m h)) [2, 1, 0] \<noteq> Sv39_Outside"
    and "paging_lookups env h qs m = Some (rs, m')"
  shows "list_all2 (\<lambda>(va, mode) (res, e). res = RV_MEM_OK \<longrightarrow> entry_sound m (get_cpu m h) va e) qs rs
    \<and> tlb_coherent upper m' h \<and> same_translations h m m'"
  using assms
proof (induction qs arbitrary: m rs)
  case (Cons q qs)
  obtain va mode where q: "q = (va, mode)" by fastforce
  with Cons.prems(5) obtain res e m1 rs' where run: "rv_paging_lookup env h va no_entry mode m = Some (res, e, m1)"
    and rest: "paging_lookups env h qs m1 = Some (rs', m')" and rs: "rs = (res, e) # rs'"
    by (auto simp: Option.bind_eq_Some_conv)
  from Cons.prems(4) q have va: "bit va 38 = upper"
    "sv39_walk m (get_cpu m h) (unat va div 4096) (sv39_root (get_cpu m h)) [2, 1, 0] \<noteq> Sv39_Outside" by auto
  from lookup_step [OF Cons.prems(1,2) _ va(2) run] Cons.prems(3) va(1)
  have one: "res = RV_MEM_OK \<longrightarrow> entry_sound m (get_cpu m h) va e" "tlb_coherent upper m1 h"
    "same_translations h m m1" by auto
  have m1: "wf_machine m1" "h < length (cpus m1)"
    "\<forall>(va, mode)\<in>set qs. bit va 38 = upper
      \<and> sv39_walk m1 (get_cpu m1 h) (unat va div 4096) (sv39_root (get_cpu m1 h)) [2, 1, 0] \<noteq> Sv39_Outside"
    using one(3) Cons.prems(1,2,4) by (auto simp: same_translations_def)
  from Cons.IH [OF m1(1,2) one(2) m1(3) rest] one show ?case
    by (auto simp: q rs same_translations_def)
qed auto

lemma keeps_flush: "keeps c (rv_flush_tlb c)"
  using flush.inval_frame by (rule keeps_tlb_frame)

lemma tlb_coherent_flush:
  assumes "wf_machine m" and "h < length (cpus m)"
  shows "tlb_coherent upper (put_cpu h (rv_flush_tlb (get_cpu m h)) m) h"
proof -
  have "wf_tlb (tlb (get_cpu m h))" using wf_machine_cpu [OF assms] by (rule wf_cpuD)
  then show ?thesis
    using assms(2) flush.valid_after [of "get_cpu m h"] by (simp add: tlb_coherent_def wf_tlb_def)
qed


lemma length_fold_zero [simp]: "length (fold (\<lambda>row v. v[row := (0 :: u16)]) rows v) = length v"
  by (induction rows arbitrary: v) auto

lemma flush_empty:
  assumes "tlb_valid (tlb c) = replicate 16 0"
  shows "rv_flush_tlb c = c"
proof -
  have "tlb_valid (tlb (rv_flush_tlb c)) = replicate 16 0"
    unfolding rv_flush_tlb_def flush_valid assms
    by (rule nth_equalityI) (simp_all add: nth_fold_zero del: upt_conv_Cons)
  then show ?thesis
    using flush_frame [of c] assms unfolding tlb_frame_def by auto
qed

text \<open>The machine with the identity map: the first lookup walks, the second finds what it inserted.\<close>

abbreviation "pt_entry \<equiv> \<lparr>vma = 0x1007, pte = 0x4CF\<rparr>"

lemma pt_first_lookup:
  "rv_paging_lookup demo_env 0 0x1040 no_entry RV_ACCESS_STORE pt_machine
     = Some (RV_MEM_OK, pt_entry, put_cpu 0 (tlb_set_valid 1 0 (tlb_put_entry 16 pt_entry cpu_pt))
               (ram_store 0x1000 (le_bytes 8 0xCF) pt_machine))"
proof -
  have row: "tlb_row 0x1040 = 1" by (simp add: tlb_row_def)
  have inv: "\<not> tlb_is_valid cpu_pt 1 j" for j by (simp add: tlb_is_valid_def)
  have miss: "tlb_search cpu_pt 0x1040 fl [0..<16] = Probe_Miss" for fl
    using inv by (simp add: tlb_search_cases row find_None_iff split: option.splits)
  have fill: "tlb_fill (tlb_row 0x1040) pt_entry cpu_pt = Some (tlb_set_valid 1 0 (tlb_put_entry 16 pt_entry cpu_pt))"
    using inv by (simp add: tlb_fill_def row upt_conv_Cons)
  have ram: "in_ram pt_machine 0x1000 8" by (simp add: in_ram_def)
  have "sv39_walk pt_machine (get_cpu pt_machine 0) (unat (0x1040 :: u64) div 4096)
      (4096 * unat (1 :: u64)) [2, 1, 0] = Sv39_Leaf 2 0x1000 0x0F"
    using pt_walk satp_root [of cpu_pt] by (simp del: sv39_walk.simps)
  moreover have "unat (1 :: u64) < 2 ^ 44" "Sv39_Leaf 2 0x1000 0x0F \<noteq> Sv39_Outside" by simp_all
  ultimately have walk: "paging_walk demo_env 0 0x1040 no_entry RV_ACCESS_STORE asid 1 [2, 1, 0] pt_machine
      = paging_leaf demo_env 0 0x1040 no_entry RV_ACCESS_STORE asid 2 0x1000
          (rv_pmp_check (get_cpu pt_machine 0) 0x1000 8 False) 0x0F pt_machine" for asid
    using paging_walk_reference [OF wf_pt_machine] by (simp del: sv39_walk.simps paging_walk.simps)
  have satp: "satp (csr (get_cpu pt_machine 0)) AND RV_SATP_PPN_MASK = 1" "satp_asid (get_cpu pt_machine 0) = 0"
    by (simp_all add: satp_asid_def)
  have raw: "rv_paging_raw_lookup demo_env 0 0x1040 no_entry RV_ACCESS_STORE pt_machine
      = Some (RV_MEM_OK, pt_entry, ram_store 0x1000 (le_bytes 8 0xCF) pt_machine)"
    unfolding rv_paging_raw_lookup_def Let_def satp walk
    by (simp add: paging_leaf_reference [OF wf_pt_machine ram] Let_def ppn_of_def
        sv39_permits_def pmp_cpu_pt pmp_permits_def pte_setfl_value take_bit_eq_mod del: le_bytes.simps)
  show ?thesis
    by (simp add: rv_paging_lookup_def miss paging_miss_def raw fill del: le_bytes.simps)
qed


lemma pt_second_lookup:
  assumes "get_cpu m 0 = tlb_set_valid 1 0 (tlb_put_entry 16 pt_entry cpu_pt)"
  shows "rv_paging_lookup demo_env 0 0x1048 no_entry RV_ACCESS_LOAD m = Some (RV_MEM_OK, pt_entry, m)"
proof -
  let ?c = "tlb_set_valid 1 0 (tlb_put_entry 16 pt_entry cpu_pt)"
  have row: "tlb_row 0x1048 = 1" by (simp add: tlb_row_def)
  have "tlb_is_valid ?c 1 0" "tlb_entry_at ?c 1 0 = pt_entry"
    by (simp_all add: tlb_set_valid_def tlb_put_entry_def tlb_is_valid_def tlb_entry_at_def)
  moreover have "tlb_match ?c 0x1048 pt_entry"
    by (simp add: tlb_match_def satp_asid_def vma_asid_def tlb_set_valid_def)
  ultimately show ?thesis
    using assms by (simp add: rv_paging_lookup_def upt_conv_Cons row pte_setfl_def)
qed


section \<open>The two halves of the address space\<close>

text \<open>The address with the same low 38 bits in the other half: bit 38 and its sign extension flipped.\<close>

definition other_half :: "u64 \<Rightarrow> u64" where
  "other_half va = va XOR push_bit 38 (mask 26)"

lemma bit_other_half: "n < 64 \<Longrightarrow> bit (other_half va) n \<longleftrightarrow> (if n < 38 then bit va n else \<not> bit va n)"
  by (auto simp: other_half_def bit_simps)

lemma canon_bits: "signed_drop_bit 25 (push_bit 25 va) = va \<longleftrightarrow> (\<forall>n\<in>{38..<64}. bit va n = bit va 38)"
  for va :: u64
proof -
  have b: "bit (signed_drop_bit 25 (push_bit 25 va)) n = (if n < 39 then bit va n else bit va 38)" if "n < 64" for n
    using that by (auto simp: bit_simps)
  show ?thesis
  proof
    assume eq: "signed_drop_bit 25 (push_bit 25 va) = va"
    show "\<forall>n\<in>{38..<64}. bit va n = bit va 38"
    proof
      fix n :: nat
      assume "n \<in> {38..<64}"
      with b [of n] show "bit va n = bit va 38" unfolding eq by (cases "n = 38") auto
    qed
  next
    assume all: "\<forall>n\<in>{38..<64}. bit va n = bit va 38"
    show "signed_drop_bit 25 (push_bit 25 va) = va"
    proof (rule bit_word_eqI)
      fix n assume n: "n < LENGTH(64)"
      show "bit (signed_drop_bit 25 (push_bit 25 va)) n = bit va n"
        using b [of n] bspec [OF all, of n] n by (cases "n < 39") simp_all
    qed
  qed
qed

text \<open>
  \<open>RV_TLB_VPN_MASK\<close> has 26 bits and a page number has 27: an address and the address of the other half
  with the same low bits are canonical together, fall in one row and find the same entry, though the
  page table maps them through different entries of its root.
\<close>

lemma tlb_halves_alias:
  "rv_is_canon_vaddr c (other_half va) = rv_is_canon_vaddr c va"
  "tlb_row (other_half va) = tlb_row va"
  "tlb_search c (other_half va) fl cols = tlb_search c va fl cols"
proof -
  show "rv_is_canon_vaddr c (other_half va) = rv_is_canon_vaddr c va"
    by (simp add: rv_is_canon_vaddr_def canon_bits bit_other_half)
  have row: "tlb_row v = unat (take_bit 4 (drop_bit 12 v))" for v
    by (simp only: tlb_row_def unat_bits_div_mod) (simp add: unat_div unat_mod)
  have "take_bit 4 (drop_bit 12 (other_half va)) = take_bit 4 (drop_bit 12 va)"
    by (rule bit_word_eqI) (auto simp: bit_simps bit_other_half)
  then show "tlb_row (other_half va) = tlb_row va" by (simp only: row)
  moreover have "other_half va AND RV_TLB_VPN_MASK = va AND RV_TLB_VPN_MASK"
    by (rule bit_word_eqI) (auto simp: bit_simps mask_bits bit_other_half)
  then have "tlb_match c (other_half va) e = tlb_match c va e" for e by (simp only: tlb_match_def)
  ultimately show "tlb_search c (other_half va) fl cols = tlb_search c va fl cols"
    by (induction cols) (simp_all add: Let_def)
qed

end
