(* ===== verification/RV_Atomics.thy ===== *)
theory RV_Atomics
  imports RV_Base
begin

text \<open>
  The A extension, \<open>cpu/rv_impl/atomics.c\<close>. Everything between the lock and the unlock of
  \<open>atomic_lock\<close> is one handler, and a handler is one step of the machine, so the lock itself has
  no counterpart here.
\<close>

section \<open>The code\<close>

definition AMO_FUNCT5 :: "u32 \<Rightarrow> u32" where
  "AMO_FUNCT5 insn = drop_bit 27 insn AND 0x1f"

abbreviation "AMO_LR \<equiv> (0x02 :: u8)"
abbreviation "AMO_SC \<equiv> (0x03 :: u8)"
abbreviation "AMO_SWAP \<equiv> (0x01 :: u8)"
abbreviation "AMO_ADD \<equiv> (0x00 :: u8)"
abbreviation "AMO_XOR \<equiv> (0x04 :: u8)"
abbreviation "AMO_OR \<equiv> (0x08 :: u8)"
abbreviation "AMO_AND \<equiv> (0x0C :: u8)"
abbreviation "AMO_MIN \<equiv> (0x10 :: u8)"
abbreviation "AMO_MAX \<equiv> (0x14 :: u8)"
abbreviation "AMO_MINU \<equiv> (0x18 :: u8)"
abbreviation "AMO_MAXU \<equiv> (0x1C :: u8)"

text \<open>The two widths of a load and of a store.\<close>

definition atomic_load ::
  "'d emu_env \<Rightarrow> nat \<Rightarrow> u64 \<Rightarrow> bool \<Rightarrow> rv_access \<Rightarrow> 'd emu_machine \<Rightarrow>
   (rv_mem_result \<times> u64 \<times> 'd emu_machine) option" where
  "atomic_load env h addr is_32 mode m =
     (if is_32 then
        do {
          (r, data, m) \<leftarrow> rv_access_virt env h addr (le_bytes 4 0) 2 mode m;
          Some (r, sext32 (le_word data), m)
        }
      else
        do {
          (r, data, m) \<leftarrow> rv_access_virt env h addr (le_bytes 8 0) 3 mode m;
          Some (r, le_word data, m)
        })"

definition atomic_store ::
  "'d emu_env \<Rightarrow> nat \<Rightarrow> u64 \<Rightarrow> bool \<Rightarrow> u64 \<Rightarrow> 'd emu_machine \<Rightarrow>
   (rv_mem_result \<times> u8 list \<times> 'd emu_machine) option" where
  "atomic_store env h addr is_32 v m =
     (if is_32 then rv_access_virt env h addr (le_bytes 4 (ucast (ucast v :: u32))) 2 RV_ACCESS_STORE m
      else rv_access_virt env h addr (le_bytes 8 v) 3 RV_ACCESS_STORE m)"

definition set_reservation :: "nat \<Rightarrow> rv_reservation \<Rightarrow> 'd emu_machine \<Rightarrow> 'd emu_machine" where
  "set_reservation i r m = m\<lparr>reservations := (reservations m)[i := r]\<rparr>"

definition rv_atomic_lr ::
  "'d emu_env \<Rightarrow> nat \<Rightarrow> u32 \<Rightarrow> bool \<Rightarrow> u64 \<Rightarrow> nat \<Rightarrow> 'd emu_machine \<Rightarrow> 'd emu_machine option" where
  "rv_atomic_lr env h insn is_32 addr hart m =
     (if RV_INSN_RS2 insn \<noteq> 0 then rv_do_iillegal env h insn m
      else
        do {
          (r, val, m) \<leftarrow> atomic_load env h addr is_32 RV_ACCESS_LOAD m;
          (if r \<noteq> RV_MEM_OK then mem_trap env h r RV_ACCESS_LOAD addr m
           else do {
             guard_ub (hart < length (reservations m));
             (let m = set_reservation hart \<lparr>res_addr = addr, res_valid = True\<rparr> m
              in Some (put_cpu h (rv_xreg_write (get_cpu m h) (RV_INSN_RD insn) val) m))
           })
        })"

definition rv_atomic_sc ::
  "'d emu_env \<Rightarrow> nat \<Rightarrow> u32 \<Rightarrow> bool \<Rightarrow> u64 \<Rightarrow> nat \<Rightarrow> 'd emu_machine \<Rightarrow> 'd emu_machine option" where
  "rv_atomic_sc env h insn is_32 addr hart m =
     do {
       guard_ub (hart < length (reservations m));
       (let rs2val = rv_xreg_read (get_cpu m h) (RV_INSN_RS2 insn);
            res = reservations m ! hart;
            success = (res_valid res \<and> res_addr res = addr)
        in if success then
             do {
               (r, _, m) \<leftarrow> atomic_store env h addr is_32 rs2val m;
               (if r \<noteq> RV_MEM_OK then mem_trap env h r RV_ACCESS_STORE addr m
                else
                  let m = set_reservation hart ((reservations m ! hart)\<lparr>res_valid := False\<rparr>) m
                  in Some (put_cpu h (rv_xreg_write (get_cpu m h) (RV_INSN_RD insn) 0) m))
             }
           else Some (put_cpu h (rv_xreg_write (get_cpu m h) (RV_INSN_RD insn) 1) m))
     }"

text \<open>The switch over the read-modify-write operations; \<open>None\<close> is its default branch.\<close>

definition amo_result :: "bool \<Rightarrow> u8 \<Rightarrow> u64 \<Rightarrow> u64 \<Rightarrow> u64 option" where
  "amo_result is_32 funct5 old rs2val =
     (let lhs = (if is_32 then ucast (ucast old :: u32) else old);
          rhs = (if is_32 then ucast (ucast rs2val :: u32) else rs2val);
          lhs_s = (if is_32 then sext32 old else old);
          rhs_s = (if is_32 then sext32 rs2val else rs2val)
      in if funct5 = AMO_SWAP then Some rhs
         else if funct5 = AMO_ADD then Some (lhs + rhs)
         else if funct5 = AMO_XOR then Some (lhs XOR rhs)
         else if funct5 = AMO_OR then Some (lhs OR rhs)
         else if funct5 = AMO_AND then Some (lhs AND rhs)
         else if funct5 = AMO_MIN then Some (if lhs_s <s rhs_s then lhs else rhs)
         else if funct5 = AMO_MAX then Some (if rhs_s <s lhs_s then lhs else rhs)
         else if funct5 = AMO_MINU then Some (if lhs < rhs then lhs else rhs)
         else if funct5 = AMO_MAXU then Some (if lhs > rhs then lhs else rhs)
         else None)"

text \<open>The loop over the reservations after a read-modify-write.\<close>

definition inval_reservations :: "u64 \<Rightarrow> 'd emu_machine \<Rightarrow> 'd emu_machine" where
  "inval_reservations addr m =
     m\<lparr>reservations := map (\<lambda>r. if res_valid r \<and> res_addr r = addr then r\<lparr>res_valid := False\<rparr> else r)
       (reservations m)\<rparr>"

definition rv_atomic_rmw ::
  "'d emu_env \<Rightarrow> nat \<Rightarrow> u32 \<Rightarrow> u8 \<Rightarrow> bool \<Rightarrow> u64 \<Rightarrow> 'd emu_machine \<Rightarrow> 'd emu_machine option" where
  "rv_atomic_rmw env h insn funct5 is_32 addr m =
     (let rs2val = rv_xreg_read (get_cpu m h) (RV_INSN_RS2 insn)
      in do {
           (r, old, m) \<leftarrow> atomic_load env h addr is_32 RV_ACCESS_AMO m;
           (if r \<noteq> RV_MEM_OK then mem_trap env h r RV_ACCESS_AMO addr m
            else
              case amo_result is_32 funct5 old rs2val of
                None \<Rightarrow> rv_do_iillegal env h insn m
              | Some newval \<Rightarrow>
                  do {
                    (r, _, m) \<leftarrow> atomic_store env h addr is_32 newval m;
                    (if r \<noteq> RV_MEM_OK then mem_trap env h r RV_ACCESS_STORE addr m
                     else
                       let m = inval_reservations addr m
                       in Some (put_cpu h (rv_xreg_write (get_cpu m h) (RV_INSN_RD insn) old) m))
                  })
         })"

definition rv_atomic_op :: "'d emu_env \<Rightarrow> nat \<Rightarrow> u32 \<Rightarrow> 'd emu_machine \<Rightarrow> 'd emu_machine option" where
  "rv_atomic_op env h insn m =
     (let cpu = get_cpu m h;
          funct3 = ucast (RV_INSN_FUNCT3 insn) :: u8;
          funct5 = ucast (AMO_FUNCT5 insn) :: u8;
          is_32 = (funct3 = 2);
          addr = rv_xreg_read cpu (RV_INSN_RS1 insn);
          align_mask = (if is_32 then 3 else 7);
          hart = unat (mhartid (csr cpu))
      in if funct3 \<noteq> 2 \<and> funct3 \<noteq> 3 then rv_do_iillegal env h insn m
         else if addr AND align_mask \<noteq> 0 then
           rv_do_trap env h
             \<lparr>trap_epc = epc cpu, trap_tval = addr,
              trap_cause = rv_cause_code (if funct5 = AMO_LR then RV_CAUSE_LALIGN else RV_CAUSE_SALIGN)\<rparr> m
         else if funct5 = AMO_LR then rv_atomic_lr env h insn is_32 addr hart m
         else if funct5 = AMO_SC then rv_atomic_sc env h insn is_32 addr hart m
         else rv_atomic_rmw env h insn funct5 is_32 addr m)"

section \<open>The invariant\<close>

lemma stays_reservations [stays_rules]:
  "wf_next m x \<Longrightarrow> wf_next m (set_reservation i r x)"
  "wf_next m x \<Longrightarrow> wf_next m (inval_reservations a x)"
  by (auto simp: wf_next_def set_reservation_def inval_reservations_def intro: wf_machine_reservations)

context emu_callbacks
begin

lemma stays_atomic_load [stays_rules]: "wf_next m x \<Longrightarrow> stays3 m (atomic_load env h a w mode x)"
  unfolding atomic_load_def by (intro stays_rules)

lemma stays_atomic_store [stays_rules]: "wf_next m x \<Longrightarrow> stays3 m (atomic_store env h a w v x)"
  unfolding atomic_store_def by (intro stays_rules)

lemma stays_atomic_op [stays_rules]: "wf_next m x \<Longrightarrow> stays m (rv_atomic_op env h insn x)"
  unfolding rv_atomic_op_def rv_atomic_lr_def rv_atomic_sc_def rv_atomic_rmw_def Let_def
  by (intro stays_rules keeps_xreg_write)

end

section \<open>Atomics on RAM\<close>

text \<open>
  A naturally aligned word in RAM that the core may read and write without translation: the case
  in which an atomic instruction neither traps nor reaches a device.
\<close>

definition width :: "bool \<Rightarrow> nat" where
  "width is_32 = (if is_32 then 4 else 8)"

definition atomic_target :: "'d emu_machine \<Rightarrow> nat \<Rightarrow> u64 \<Rightarrow> bool \<Rightarrow> bool" where
  "atomic_target m h a is_32 \<longleftrightarrow>
     wf_machine m \<and> h < length (cpus m) \<and> mem_privilege (get_cpu m h) = 3
     \<and> in_ram m a (width is_32) \<and> a AND (if is_32 then 3 else 7) = 0
     \<and> (\<forall>mode. mode \<noteq> RV_ACCESS_INSN \<longrightarrow>
           do_pmp_check (get_cpu m h) a (of_nat (width is_32)) mode = RV_MEM_OK)"

definition mem_value :: "'d emu_machine \<Rightarrow> u64 \<Rightarrow> bool \<Rightarrow> u64" where
  "mem_value m a is_32 =
     (if is_32 then sext32 (le_word (ram_bytes m a 4)) else le_word (ram_bytes m a 8))"

lemma le_bytes_trunc: "le_bytes 4 (ucast (ucast v :: u32)) = le_bytes 4 (v :: u64)"
proof (rule nth_equalityI)
  fix i
  assume i: "i < length (le_bytes 4 (ucast (ucast v :: u32)))"
  then show "le_bytes 4 (ucast (ucast v :: u32)) ! i = le_bytes 4 v ! i"
    by (subst (1 2) nth_le_bytes, simp, simp, intro bit_word_eqI) (auto simp: bit_simps)
qed simp

lemma atomic_target_phys:
  assumes "atomic_target m h a is_32" and "mode \<noteq> RV_ACCESS_INSN" and "length data = width is_32"
  shows "rv_access_virt env h a data (if is_32 then 2 else 3) mode m =
    (if mode = RV_ACCESS_STORE then Some (RV_MEM_OK, data, ram_store a data m)
     else Some (RV_MEM_OK, ram_bytes m a (width is_32), m))"
proof -
  have "unat (if is_32 then 2 else 3 :: u8) = (if is_32 then 2 else 3)" by simp
  then show ?thesis
    using assms phys_ram_access [of m "if is_32 then 2 else 3" a data env h mode False]
    by (cases is_32) (simp_all add: atomic_target_def access_virt_bare pmp_refuses_def width_def)
qed

lemma atomic_load_ram:
  assumes "atomic_target m h a is_32" and "mode = RV_ACCESS_LOAD \<or> mode = RV_ACCESS_AMO"
  shows "atomic_load env h a is_32 mode m = Some (RV_MEM_OK, mem_value m a is_32, m)"
  using atomic_target_phys [OF assms(1), of mode "le_bytes (width is_32) 0" env] assms(2)
  by (cases is_32) (auto simp: atomic_load_def mem_value_def width_def simp del: le_bytes.simps)

lemma atomic_store_ram:
  assumes "atomic_target m h a is_32"
  shows "atomic_store env h a is_32 v m =
    Some (RV_MEM_OK, le_bytes (width is_32) v, ram_store a (le_bytes (width is_32) v) m)"
  using atomic_target_phys [OF assms, of RV_ACCESS_STORE "le_bytes (width is_32) v" env]
  by (cases is_32) (auto simp: atomic_store_def width_def le_bytes_trunc simp del: le_bytes.simps)

section \<open>Read-modify-write\<close>

text \<open>The operations on words of the access's width.\<close>

definition amo_spec :: "u8 \<Rightarrow> 'a::len word \<Rightarrow> 'a word \<Rightarrow> 'a word" where
  "amo_spec f a b =
     (if f = AMO_SWAP then b else if f = AMO_ADD then a + b else if f = AMO_XOR then a XOR b
      else if f = AMO_OR then a OR b else if f = AMO_AND then a AND b
      else if f = AMO_MIN then if b \<le>s a then b else a
      else if f = AMO_MAX then if a \<le>s b then b else a
      else if f = AMO_MINU then min a b else max a b)"

definition amo_codes :: "u8 set" where
  "amo_codes = {AMO_SWAP, AMO_ADD, AMO_XOR, AMO_OR, AMO_AND, AMO_MIN, AMO_MAX, AMO_MINU, AMO_MAXU}"

lemma compare_less:
  "min a b = (if a < b then a else b)" "max a b = (if b < a then a else b)"
  "c \<le>s d \<longleftrightarrow> \<not> d <s c"
  for a b c d :: "'a::len word"
  by (auto simp: min_def max_def word_sless_alt word_sle_eq)

lemma le_bytes_ucast: "(ucast v :: u32) = w \<Longrightarrow> le_bytes 4 v = le_bytes 4 (ucast w)"
  using le_bytes_trunc [of v] by simp

lemma amo_result_spec:
  assumes "f \<in> amo_codes"
  obtains v where "amo_result is_32 f old x = Some v"
    and "le_bytes (width is_32) v =
      le_bytes (width is_32) (if is_32 then ucast (amo_spec f (ucast old :: u32) (ucast x)) else amo_spec f old x)"
proof (cases is_32)
  case False
  have "amo_result is_32 f old x = Some (amo_spec f old x)"
    using assms False
    by (auto simp: amo_codes_def amo_result_def amo_spec_def Let_def compare_less)
  with False show thesis using that by simp
next
  case True
  have "\<exists>v. amo_result True f old x = Some v \<and> (ucast v :: u32) = amo_spec f (ucast old) (ucast x)"
    using assms unfolding amo_codes_def
    by (elim insertE emptyE; simp add: amo_result_def amo_spec_def compare_less alu_32_compare
        ucast_32_arith ucast_32_bitwise ucast_of_ucast_32)
  then obtain v where v: "amo_result True f old x = Some v"
      "(ucast v :: u32) = amo_spec f (ucast old) (ucast x)" by blast
  show thesis
    by (rule that [of v]) (use True v le_bytes_ucast [OF v(2)] in \<open>simp_all add: width_def del: le_bytes.simps\<close>)
qed

definition insn_is_32 :: "u32 \<Rightarrow> bool" where
  "insn_is_32 insn \<longleftrightarrow> (ucast (RV_INSN_FUNCT3 insn) :: u8) = 2"

text \<open>\<open>insn\<close> is the atomic instruction of core \<open>h\<close> with function code \<open>f\<close> on address \<open>a\<close>.\<close>

definition atomic_insn :: "'d emu_machine \<Rightarrow> nat \<Rightarrow> u32 \<Rightarrow> u8 \<Rightarrow> u64 \<Rightarrow> bool" where
  "atomic_insn m h insn f a \<longleftrightarrow>
     atomic_target m h a (insn_is_32 insn) \<and> (ucast (RV_INSN_FUNCT3 insn) :: u8) \<in> {2, 3}
     \<and> ucast (AMO_FUNCT5 insn) = f \<and> rv_xreg_read (get_cpu m h) (RV_INSN_RS1 insn) = a"

abbreviation "rd_write m h insn v \<equiv> put_cpu h (rv_xreg_write (get_cpu m h) (RV_INSN_RD insn) v)"

lemma amo_step_spec:
  fixes m :: "'d emu_machine" and insn :: u32 and h :: nat
  defines "w \<equiv> insn_is_32 insn" and "x \<equiv> rv_xreg_read (get_cpu m h) (RV_INSN_RS2 insn)"
  assumes "atomic_insn m h insn f a" and "f \<in> amo_codes"
  shows "rv_atomic_op env h insn m =
    (let old = mem_value m a w;
         new = (if w then ucast (amo_spec f (ucast old :: u32) (ucast x)) else amo_spec f old x)
     in Some (rd_write m h insn old (inval_reservations a (ram_store a (le_bytes (width w) new) m))))"
proof -
  have tgt: "atomic_target m h a w" and f3: "(ucast (RV_INSN_FUNCT3 insn) :: u8) \<in> {2, 3}"
    and f5: "ucast (AMO_FUNCT5 insn) = f" and a: "rv_xreg_read (get_cpu m h) (RV_INSN_RS1 insn) = a"
    using assms(3) by (simp_all add: atomic_insn_def w_def)
  obtain v where v: "amo_result w f (mem_value m a w) x = Some v"
    and le: "le_bytes (width w) v = le_bytes (width w)
      (if w then ucast (amo_spec f (ucast (mem_value m a w) :: u32) (ucast x)) else amo_spec f (mem_value m a w) x)"
    using amo_result_spec [OF assms(4)] by blast
  have f: "f \<noteq> AMO_LR" "f \<noteq> AMO_SC" using assms(4) by (auto simp: amo_codes_def)
  have al: "a AND (if w then 3 else 7) = 0" using tgt by (simp add: atomic_target_def)
  have "rv_atomic_op env h insn m = rv_atomic_rmw env h insn f w a m"
    using f3 f al unfolding rv_atomic_op_def Let_def a f5
    by (auto simp: w_def insn_is_32_def)
  also have "\<dots> = Some (rd_write m h insn (mem_value m a w)
      (inval_reservations a (ram_store a (le_bytes (width w) v) m)))"
    using atomic_load_ram [OF tgt, of RV_ACCESS_AMO env] atomic_store_ram [OF tgt, of env v] v
    by (simp add: rv_atomic_rmw_def x_def Let_def inval_reservations_def del: le_bytes.simps)
  finally show ?thesis by (simp only: le Let_def)
qed

lemma amo_step:
  assumes "atomic_insn m h insn f a" and "f \<in> amo_codes"
  obtains v bs where "rv_atomic_op env h insn m =
    Some (rd_write m h insn v (inval_reservations a (ram_store a bs m)))"
  using that amo_step_spec [OF assms, of env] by (simp only: Let_def)


section \<open>Reservations\<close>

definition reserved :: "'d emu_machine \<Rightarrow> nat \<Rightarrow> u64 \<Rightarrow> bool" where
  "reserved m i a \<longleftrightarrow> res_valid (reservations m ! i) \<and> res_addr (reservations m ! i) = a"

lemma atomic_op_cases:
  assumes "atomic_insn m h insn f a"
  shows "f = AMO_LR \<Longrightarrow> rv_atomic_op env h insn m = rv_atomic_lr env h insn (insn_is_32 insn) a h m"
    and "f = AMO_SC \<Longrightarrow> rv_atomic_op env h insn m = rv_atomic_sc env h insn (insn_is_32 insn) a h m"
proof -
  have "a AND (if insn_is_32 insn then 3 else 7) = 0" "unat (mhartid (csr (get_cpu m h))) = h"
    using assms wf_machine_hartid by (auto simp: atomic_insn_def atomic_target_def)
  with assms show
    "f = AMO_LR \<Longrightarrow> rv_atomic_op env h insn m = rv_atomic_lr env h insn (insn_is_32 insn) a h m"
    "f = AMO_SC \<Longrightarrow> rv_atomic_op env h insn m = rv_atomic_sc env h insn (insn_is_32 insn) a h m"
    by (auto simp: rv_atomic_op_def Let_def insn_is_32_def atomic_insn_def)
qed

lemma lr_effect:
  assumes "atomic_insn m h insn AMO_LR a" and "RV_INSN_RS2 insn = 0"
  shows "rv_atomic_op env h insn m =
    Some (rd_write m h insn (mem_value m a (insn_is_32 insn))
      (set_reservation h \<lparr>res_addr = a, res_valid = True\<rparr> m))"
proof -
  have "h < length (reservations m)" using assms(1) by (simp add: atomic_insn_def atomic_target_def wf_machine_def)
  then show ?thesis
    using atomic_op_cases(1) [OF assms(1) refl, of env] assms
      atomic_load_ram [of m h a "insn_is_32 insn" RV_ACCESS_LOAD env]
    by (simp add: rv_atomic_lr_def Let_def set_reservation_def atomic_insn_def)
qed

lemma sc_effect:
  assumes "atomic_insn m h insn AMO_SC a"
  shows "rv_atomic_op env h insn m =
    (if reserved m h a then
       Some (rd_write m h insn 0
         (set_reservation h \<lparr>res_addr = a, res_valid = False\<rparr>
           (ram_store a (le_bytes (width (insn_is_32 insn)) (rv_xreg_read (get_cpu m h) (RV_INSN_RS2 insn))) m)))
     else Some (rd_write m h insn 1 m))"
proof -
  have len: "h < length (reservations m)" using assms by (simp add: atomic_insn_def atomic_target_def wf_machine_def)
  have r: "r\<lparr>res_valid := False\<rparr> = \<lparr>res_addr = res_addr r, res_valid = False\<rparr>" for r by (cases r) simp
  have tgt: "atomic_target m h a (insn_is_32 insn)" using assms by (simp add: atomic_insn_def)
  show ?thesis
    unfolding atomic_op_cases(2) [OF assms refl] rv_atomic_sc_def
    using len atomic_store_ram [OF tgt, of env "rv_xreg_read (get_cpu m h) (RV_INSN_RS2 insn)"]
    by (auto simp: reserved_def r Let_def set_reservation_def simp del: le_bytes.simps)
qed

text \<open>What an atomic instruction of one core leaves to the next one.\<close>

lemma do_pmp_check_xreg [simp]:
  "do_pmp_check (rv_xreg_write c i v) a n mode = do_pmp_check c a n mode"
  by (simp add: do_pmp_check_def rv_pmp_check_def)

lemma set_reservation_fields [simp]:
  "cpus (set_reservation i r m) = cpus m" "in_ram (set_reservation i r m) a n = in_ram m a n"
  "reservations (set_reservation i r m) = (reservations m)[i := r]" "ram (set_reservation i r m) = ram m"
  "ram_start (set_reservation i r m) = ram_start m" "ram_alloc (set_reservation i r m) = ram_alloc m"
  by (simp_all add: set_reservation_def in_ram_def)

lemma inval_reservations_fields [simp]:
  "cpus (inval_reservations b m) = cpus m" "in_ram (inval_reservations b m) a n = in_ram m a n"
  "ram (inval_reservations b m) = ram m" "ram_start (inval_reservations b m) = ram_start m"
  "length (reservations (inval_reservations b m)) = length (reservations m)"
  by (simp_all add: inval_reservations_def in_ram_def)

lemma in_ram_put_cpu [simp]: "in_ram (put_cpu h c m) a n = in_ram m a n"
  by (simp add: in_ram_def)

lemma wf_set_reservation [simp]: "wf_machine m \<Longrightarrow> wf_machine (set_reservation i r m)"
  using stays_reservations(1) [OF wf_next_refl] by (rule wf_nextD)

lemma wf_inval_reservations [simp]: "wf_machine m \<Longrightarrow> wf_machine (inval_reservations b m)"
  using stays_reservations(2) [OF wf_next_refl] by (rule wf_nextD)

lemma atomic_insn_frame:
  assumes "atomic_insn m h insn f a"
  shows "atomic_insn (ram_store b bs m) h insn f a"
    and "atomic_insn (set_reservation i r m) h insn f a"
    and "atomic_insn (inval_reservations b m) h insn f a"
  using assms by (simp_all add: atomic_insn_def atomic_target_def)

lemma atomic_insn_rd_write:
  assumes "atomic_insn m h insn f a" and "h \<noteq> g \<or> j \<noteq> RV_INSN_RS1 insn" and "unat j < 32"
  shows "atomic_insn (put_cpu g (rv_xreg_write (get_cpu m g) j v) m) h insn f a"
proof -
  let ?m = "put_cpu g (rv_xreg_write (get_cpu m g) j v) m"
  have wf: "wf_machine m" and h: "h < length (cpus m)"
    using assms(1) by (simp_all add: atomic_insn_def atomic_target_def)
  from wf_put_cpu [OF wf keeps_xreg_write] have wf': "wf_machine ?m" .
  have same: "mem_privilege (get_cpu ?m h) = mem_privilege (get_cpu m h)"
    "do_pmp_check (get_cpu ?m h) b n mode = do_pmp_check (get_cpu m h) b n mode" for b n mode
    using h by (cases "g = h"; simp)+
  have "rv_xreg_read (get_cpu ?m h) (RV_INSN_RS1 insn) = rv_xreg_read (get_cpu m h) (RV_INSN_RS1 insn)"
    using h assms(2,3) wf_cpuD(1) [OF wf_machine_cpu [OF wf h]] by (cases "g = h") (auto simp: xreg_read_write)
  with assms(1) wf' same show ?thesis by (simp add: atomic_insn_def atomic_target_def)
qed

lemma reserved_rd_write [simp]: "reserved (put_cpu g c m) i a = reserved m i a"
  by (simp add: reserved_def)

lemma machine_update_order:
  "ram_store a bs (put_cpu h c m) = put_cpu h c (ram_store a bs m)"
  "set_reservation i r (put_cpu h c m) = put_cpu h c (set_reservation i r m)"
  "ram_store a bs (set_reservation i r m) = set_reservation i r (ram_store a bs m)"
  "set_reservation i r (set_reservation i q m) = set_reservation i r m"
  by (simp_all add: ram_store_def put_cpu_def ram_off_def set_reservation_def cong: if_cong)

lemma reserved_after:
  assumes "i < length (reservations m)"
  shows "reserved (set_reservation j r m) i a = (if i = j then res_valid r \<and> res_addr r = a else reserved m i a)"
    and "reserved (inval_reservations b m) i a = (reserved m i a \<and> a \<noteq> b)"
    and "reserved (ram_store b bs m) i a = reserved m i a"
  using assms by (auto simp: reserved_def inval_reservations_def)

text \<open>C18: a reservation makes the store-conditional succeed. After LR, an SC of the same core to the
  same address stores its operand, writes 0 to its destination and ends the reservation.\<close>
theorem lr_sc_pair:
  fixes m :: "'d emu_machine"
  assumes "atomic_insn m h lr AMO_LR a" and "RV_INSN_RS2 lr = 0" and "atomic_insn m h sc AMO_SC a"
    and "RV_INSN_RD lr \<noteq> RV_INSN_RS1 sc" and "RV_INSN_RD lr \<noteq> RV_INSN_RS2 sc"
  shows "Option.bind (rv_atomic_op env h lr m) (rv_atomic_op env h sc) =
    Some (put_cpu h (rv_xreg_write (rv_xreg_write (get_cpu m h) (RV_INSN_RD lr)
          (mem_value m a (insn_is_32 lr))) (RV_INSN_RD sc) 0)
      (set_reservation h \<lparr>res_addr = a, res_valid = False\<rparr>
        (ram_store a (le_bytes (width (insn_is_32 sc)) (rv_xreg_read (get_cpu m h) (RV_INSN_RS2 sc))) m)))"
proof -
  let ?m = "rd_write m h lr (mem_value m a (insn_is_32 lr)) (set_reservation h \<lparr>res_addr = a, res_valid = True\<rparr> m)"
  have h: "h < length (cpus m)" "h < length (reservations m)" "length (xregs (get_cpu m h)) = 32"
    using assms(1) wf_cpuD(1) wf_machine_cpu by (auto simp: atomic_insn_def atomic_target_def wf_machine_def)
  have "atomic_insn ?m h sc AMO_SC a"
    using atomic_insn_rd_write [OF atomic_insn_frame(2) [OF assms(3)]] assms(4) by simp
  moreover have "reserved ?m h a" using h by (simp add: reserved_after)
  ultimately have "rv_atomic_op env h sc ?m = Some (rd_write ?m h sc 0 (set_reservation h
      \<lparr>res_addr = a, res_valid = False\<rparr> (ram_store a (le_bytes (width (insn_is_32 sc))
        (rv_xreg_read (get_cpu ?m h) (RV_INSN_RS2 sc))) ?m)))"
    using sc_effect by metis
  then show ?thesis
    using lr_effect [OF assms(1,2), of env] h assms(5)
    by (simp add: xreg_read_write machine_update_order)
qed

text \<open>C19: another core's read-modify-write breaks a reservation. When it comes between LR and SC
  on the same address, the SC stores nothing and writes 1 to its destination.\<close>
theorem amo_breaks_reservation:
  fixes m :: "'d emu_machine"
  assumes "atomic_insn m h lr AMO_LR a" and "RV_INSN_RS2 lr = 0" and "atomic_insn m h sc AMO_SC a"
    and "RV_INSN_RD lr \<noteq> RV_INSN_RS1 sc" and "h \<noteq> g"
    and "atomic_insn m g amo f a" and "f \<in> amo_codes"
  shows "\<exists>m1 m2. rv_atomic_op env h lr m = Some m1 \<and> rv_atomic_op env g amo m1 = Some m2
    \<and> rv_atomic_op env h sc m2 = Some (rd_write m2 h sc 1 m2)"
proof -
  let ?m1 = "rd_write m h lr (mem_value m a (insn_is_32 lr)) (set_reservation h \<lparr>res_addr = a, res_valid = True\<rparr> m)"
  have sc: "atomic_insn ?m1 h sc AMO_SC a"
    using atomic_insn_rd_write [OF atomic_insn_frame(2) [OF assms(3)]] assms(4) by simp
  have amo: "atomic_insn ?m1 g amo f a"
    using atomic_insn_rd_write [OF atomic_insn_frame(2) [OF assms(6)]] assms(5) by simp
  obtain bs v where m2: "rv_atomic_op env g amo ?m1 =
      Some (rd_write ?m1 g amo v (inval_reservations a (ram_store a bs ?m1)))" (is "_ = Some ?m2")
    using amo_step [OF amo assms(7), of env] by blast
  have "atomic_insn ?m2 h sc AMO_SC a"
    using atomic_insn_rd_write [OF atomic_insn_frame(3) [OF atomic_insn_frame(1) [OF sc]],
        where g = g and j = "RV_INSN_RD amo" and v = v] assms(5)
    by simp
  moreover have "\<not> reserved ?m2 h a"
    using assms(1) by (simp add: reserved_after atomic_insn_def atomic_target_def wf_machine_def)
  ultimately have "rv_atomic_op env h sc ?m2 = Some (rd_write ?m2 h sc 1 ?m2)"
    using sc_effect by metis
  with lr_effect [OF assms(1,2), of env] m2 show ?thesis by blast
qed

text \<open>C22: a store-conditional does not end the other cores' reservations. When two cores hold a
  reservation of the same address, both of their SCs store and report success, so the second one
  overwrites the first although the memory changed since its LR: of the stores only the
  read-modify-write instructions walk the reservations.\<close>
theorem both_conditionals_succeed:
  fixes m :: "'d emu_machine"
  assumes "atomic_insn m h sc AMO_SC a" and "atomic_insn m g sc' AMO_SC a" and "h \<noteq> g"
    and "reserved m h a" and "reserved m g a"
  shows "\<exists>m1. rv_atomic_op env h sc m = Some (rd_write m h sc 0 m1) \<and> reserved m1 g a
    \<and> rv_atomic_op env g sc' (rd_write m h sc 0 m1) = Some (put_cpu g
        (rv_xreg_write (get_cpu m g) (RV_INSN_RD sc') 0)
        (set_reservation g \<lparr>res_addr = a, res_valid = False\<rparr> (ram_store a
          (le_bytes (width (insn_is_32 sc')) (rv_xreg_read (get_cpu m g) (RV_INSN_RS2 sc')))
          (rd_write m h sc 0 m1))))"
proof -
  let ?m1 = "set_reservation h \<lparr>res_addr = a, res_valid = False\<rparr> (ram_store a
    (le_bytes (width (insn_is_32 sc)) (rv_xreg_read (get_cpu m h) (RV_INSN_RS2 sc))) m)"
  let ?m = "rd_write m h sc 0 ?m1"
  have len: "g < length (reservations m)"
    using assms(2) by (simp add: atomic_insn_def atomic_target_def wf_machine_def)
  then have res: "reserved ?m1 g a" "reserved ?m g a" using assms(3,5) by (simp_all add: reserved_after)
  have "atomic_insn ?m g sc' AMO_SC a"
    using atomic_insn_rd_write [OF atomic_insn_frame(2) [OF atomic_insn_frame(1) [OF assms(2)]]] assms(3)
    by simp
  with res(2) have "rv_atomic_op env g sc' ?m = Some (rd_write ?m g sc' 0 (set_reservation g
      \<lparr>res_addr = a, res_valid = False\<rparr> (ram_store a (le_bytes (width (insn_is_32 sc'))
        (rv_xreg_read (get_cpu ?m g) (RV_INSN_RS2 sc'))) ?m)))"
    using sc_effect by metis
  with sc_effect [OF assms(1), of env] assms(3,4) res(1) show ?thesis
    by (intro exI [of _ ?m1]) simp
qed

section \<open>Two cores\<close>

text \<open>Two cores in machine mode whose x2 points to RAM and x1 holds 7; \<open>b\<close> says whether both
  hold a reservation of that address.\<close>

definition duo_cpu :: "u64 \<Rightarrow> rv_cpu" where
  "duo_cpu i = rv_xreg_write (rv_xreg_write (upd_csr (\<lambda>s. s\<lparr>mhartid := i\<rparr>) cpu_m) 1 7) 2 0x1000"

definition duo_machine :: "bool \<Rightarrow> unit emu_machine" where
  "duo_machine b = demo_machine\<lparr>cpus := [duo_cpu 0, duo_cpu 1],
     reservations := replicate 2 \<lparr>res_addr = 0x1000, res_valid = b\<rparr>\<rparr>"

lemma wf_duo_cpu: "wf_cpu (duo_cpu i)"
proof -
  have "wf_cpu (upd_csr (\<lambda>s. s\<lparr>mhartid := i\<rparr>) cpu_m)"
    using wf_cpu_m by (auto simp: wf_cpu_def wf_csr_def rv_sync_mem_privilege_def pmpcfg_unpacked_def)
  then show ?thesis by (simp add: duo_cpu_def wf_xreg_write)
qed

lemma duo_cpu_fields [simp]:
  "mhartid (csr (duo_cpu i)) = i" "mem_privilege (duo_cpu i) = 3" "privilege (duo_cpu i) = 3"
  "rv_xreg_read (duo_cpu i) 1 = 7" "rv_xreg_read (duo_cpu i) 2 = 0x1000" "\<not> clint_timer_armed (duo_cpu i)"
  by (simp_all add: duo_cpu_def xreg_read_write cpu_m_alt)

lemma duo_machine_cpus [simp]:
  "get_cpu (duo_machine b) 0 = duo_cpu 0" "get_cpu (duo_machine b) (Suc 0) = duo_cpu 1"
  "length (reservations (duo_machine b)) = 2"
  by (simp_all add: duo_machine_def)

lemma duo_pmp: "rv_pmp_check (duo_cpu i) a n True = 7"
proof -
  have "pmp_deciding (csr (duo_cpu i)) a b True [0..<64] = None" for b
    by (auto simp: pmp_deciding_def find_None_iff pmp_active_def pmpcfg_unpacked_def duo_cpu_def cpu_m_alt)
  then show ?thesis by (simp add: rv_pmp_check_def pmp_scan_find)
qed

lemma wf_duo_machine: "wf_machine (duo_machine b)"
  by (simp add: wf_machine_def duo_machine_def wf_duo_cpu upt_rec)

lemma duo_target:
  assumes "h < 2"
  shows "atomic_target (duo_machine b) h 0x1000 True"
proof -
  have c: "get_cpu (duo_machine b) h = duo_cpu (of_nat h)"
    using assms by (auto simp: duo_machine_def less_2_cases_iff)
  have "do_pmp_check (duo_cpu i) a n mode = RV_MEM_OK" for i a n mode
    by (cases mode) (simp_all add: do_pmp_check_def duo_pmp)
  moreover have "in_ram (duo_machine b) 0x1000 4"
    unfolding in_ram_def by (simp add: duo_machine_def)
  ultimately show ?thesis
    using assms wf_duo_machine by (simp add: atomic_target_def c width_def) (simp add: duo_machine_def)
qed

text \<open>\<open>lr.w x5, (x2)\<close>, \<open>sc.w x6, x1, (x2)\<close> and \<open>amoadd.w x5, x1, (x2)\<close>.\<close>

lemma duo_insns:
  assumes "h < 2"
  shows "atomic_insn (duo_machine b) h 0x100122AF AMO_LR 0x1000"
    and "atomic_insn (duo_machine b) h 0x1811232F AMO_SC 0x1000"
    and "atomic_insn (duo_machine b) h 0x001122AF AMO_ADD 0x1000"
proof -
  have "rv_xreg_read (get_cpu (duo_machine b) h) 2 = 0x1000"
    using assms by (auto simp: duo_machine_def less_2_cases_iff)
  with duo_target [OF assms, of b]
  show "atomic_insn (duo_machine b) h 0x100122AF AMO_LR 0x1000"
    and "atomic_insn (duo_machine b) h 0x1811232F AMO_SC 0x1000"
    and "atomic_insn (duo_machine b) h 0x001122AF AMO_ADD 0x1000"
    by (simp_all add: atomic_insn_def insn_is_32_def AMO_FUNCT5_def rv_field_defs)
qed

lemma duo_mem [simp]: "mem_value (duo_machine b) a True = 0"
  by (simp add: mem_value_def ram_bytes_def duo_machine_def numeral_eq_Suc sext32_def)

lemma duo_is_32 [simp]: "insn_is_32 0x001122AF" "insn_is_32 0x100122AF" "insn_is_32 0x1811232F"
  by (simp_all add: insn_is_32_def rv_field_defs)


lemma lr_sc_pair_witness:
  "Option.bind (rv_atomic_op demo_env 0 0x100122AF (duo_machine False)) (rv_atomic_op demo_env 0 0x1811232F) =
     Some (put_cpu 0 (rv_xreg_write (rv_xreg_write (duo_cpu 0) 5 0) 6 0)
       (set_reservation 0 \<lparr>res_addr = 0x1000, res_valid = False\<rparr>
         (ram_store 0x1000 (le_bytes 4 7) (duo_machine False))))"
  using lr_sc_pair [OF duo_insns(1) [of 0 False] _ duo_insns(2) [of 0 False], of demo_env]
  by (simp add: rv_field_defs width_def del: le_bytes.simps)

lemma amo_breaks_reservation_witness:
  "\<exists>m1 m2. rv_atomic_op demo_env 0 0x100122AF (duo_machine False) = Some m1
    \<and> rv_atomic_op demo_env 1 0x001122AF m1 = Some m2
    \<and> rv_atomic_op demo_env 0 0x1811232F m2 = Some (put_cpu 0 (rv_xreg_write (get_cpu m2 0) 6 1) m2)"
  using amo_breaks_reservation [OF duo_insns(1) [of 0 False] _ duo_insns(2) [of 0 False] _ _ duo_insns(3) [of 1], of demo_env]
  by (simp add: rv_field_defs amo_codes_def)

lemma both_conditionals_succeed_witness:
  "\<exists>m1. rv_atomic_op demo_env 0 0x1811232F (duo_machine True)
      = Some (put_cpu 0 (rv_xreg_write (duo_cpu 0) 6 0) m1) \<and> reserved m1 1 0x1000"
proof -
  have "reserved (duo_machine True) 0 0x1000" "reserved (duo_machine True) 1 0x1000"
    by (simp_all add: reserved_def duo_machine_def)
  with both_conditionals_succeed [OF duo_insns(2) [of 0 True] duo_insns(2) [of 1 True], of demo_env]
  show ?thesis by (simp add: rv_field_defs) blast
qed

end
