(* ===== verification/RV_Cpu.thy ===== *)
theory RV_Cpu
  imports RV_Atomics RV_Decompress RV_Float
begin

text \<open>
  One instruction of a core, \<open>cpu/rv_cpu.c\<close>: dispatch to the handlers, fetch, expansion of
  compressed instructions, and the interrupt check that ends a step.
\<close>

section \<open>The code\<close>

definition rv_forcefeed_insn ::
  "fpu \<Rightarrow> 'd emu_env \<Rightarrow> nat \<Rightarrow> u32 \<Rightarrow> 'd emu_machine \<Rightarrow> 'd emu_machine option" where
  "rv_forcefeed_insn fp env h insn m =
     (case rv_op_maj_of (RV_INSN_OP_MAJ insn) of
        Some RV_OP_MAJ_OP \<Rightarrow> rv_base_op env h insn m
      | Some RV_OP_MAJ_OP_IMM \<Rightarrow> rv_base_op env h insn m
      | Some RV_OP_MAJ_OP_32 \<Rightarrow> rv_base_op env h insn m
      | Some RV_OP_MAJ_OP_IMM_32 \<Rightarrow> rv_base_op env h insn m
      | Some RV_OP_MAJ_LOAD \<Rightarrow> rv_base_load env h insn m
      | Some RV_OP_MAJ_LOAD_FP \<Rightarrow> rv_base_load env h insn m
      | Some RV_OP_MAJ_STORE \<Rightarrow> rv_base_store env h insn m
      | Some RV_OP_MAJ_STORE_FP \<Rightarrow> rv_base_store env h insn m
      | Some RV_OP_MAJ_JAL \<Rightarrow> rv_base_jal env h insn m
      | Some RV_OP_MAJ_JALR \<Rightarrow> rv_base_jalr env h insn m
      | Some RV_OP_MAJ_LUI \<Rightarrow> rv_base_lui env h insn m
      | Some RV_OP_MAJ_AUIPC \<Rightarrow> rv_base_lui env h insn m
      | Some RV_OP_MAJ_SYSTEM \<Rightarrow> rv_base_system env h insn m
      | Some RV_OP_MAJ_BRANCH \<Rightarrow> rv_base_branch env h insn m
      | Some RV_OP_MAJ_MISC_MEM \<Rightarrow> rv_base_miscmem env h insn m
      | Some RV_OP_MAJ_AMO \<Rightarrow> rv_atomic_op env h insn m
      | Some RV_OP_MAJ_OP_FP \<Rightarrow> rv_float_op_fp fp env h insn m
      | Some RV_OP_MAJ_MADD \<Rightarrow> rv_float_fmadd fp env h insn m
      | Some RV_OP_MAJ_NMADD \<Rightarrow> rv_float_fmadd fp env h insn m
      | Some RV_OP_MAJ_MSUB \<Rightarrow> rv_float_fmadd fp env h insn m
      | Some RV_OP_MAJ_NMSUB \<Rightarrow> rv_float_fmadd fp env h insn m
      | _ \<Rightarrow> rv_do_iillegal env h insn m)"

text \<open>A fetch of one halfword; the trap of a failed fetch.\<close>

definition fetch_half ::
  "'d emu_env \<Rightarrow> nat \<Rightarrow> u64 \<Rightarrow> 'd emu_machine \<Rightarrow> (rv_mem_result \<times> u16 \<times> 'd emu_machine) option" where
  "fetch_half env h addr m =
     do {
       (r, data, m) \<leftarrow> rv_access_virt env h addr (le_bytes 2 0) 1 RV_ACCESS_INSN m;
       Some (r, ucast (le_word data), m)
     }"

definition fetch_trap ::
  "'d emu_env \<Rightarrow> nat \<Rightarrow> rv_mem_result \<Rightarrow> u64 \<Rightarrow> 'd emu_machine \<Rightarrow> 'd emu_machine option" where
  "fetch_trap env h r addr m =
     rv_do_trap env h
       \<lparr>trap_epc = pc (get_cpu m h), trap_tval = addr,
        trap_cause = rv_cause_code (rv_mem_cause r RV_ACCESS_INSN)\<rparr> m"

text \<open>The end of a step: \<open>epc\<close> and \<open>pc\<close> move, the instruction runs, interrupts are looked at.\<close>

definition run_insn ::
  "fpu \<Rightarrow> 'd emu_env \<Rightarrow> nat \<Rightarrow> u32 \<Rightarrow> u64 \<Rightarrow> 'd emu_machine \<Rightarrow> 'd emu_machine option" where
  "run_insn fp env h insn len m =
     (let cpu = get_cpu m h;
          m = put_cpu h (cpu\<lparr>epc := pc cpu, pc := pc cpu + len\<rparr>) m
      in do {
           m \<leftarrow> rv_forcefeed_insn fp env h insn m;
           rv_check_interrupts env h m
         })"

definition rv_step_insn :: "fpu \<Rightarrow> 'd emu_env \<Rightarrow> nat \<Rightarrow> 'd emu_machine \<Rightarrow> 'd emu_machine option" where
  "rv_step_insn fp env h m =
     do {
       (r, hw, m) \<leftarrow> fetch_half env h (pc (get_cpu m h)) m;
       (if r \<noteq> RV_MEM_OK then fetch_trap env h r (pc (get_cpu m h)) m
        else if hw AND 0x3 \<noteq> 0x3 then
          case rv_decompress hw of
            None \<Rightarrow>
              (let cpu = get_cpu m h
               in rv_do_iillegal env h (ucast hw) (put_cpu h (cpu\<lparr>epc := pc cpu\<rparr>) m))
          | Some insn \<Rightarrow> run_insn fp env h insn 2 m
        else
          let pc2 = pc (get_cpu m h) + 2
          in do {
               (r, hw2, m) \<leftarrow> fetch_half env h pc2 m;
               (if r \<noteq> RV_MEM_OK then fetch_trap env h r pc2 m
                else run_insn fp env h (ucast hw OR push_bit 16 (ucast hw2)) 4 m)
             })
     }"

section \<open>The invariant\<close>

context emu_callbacks
begin

lemmas step_rules = insn_rules stays_base_op stays_base_load stays_base_store stays_base_jal stays_base_jalr
  stays_base_lui stays_base_system stays_base_branch stays_base_miscmem stays_atomic_op stays_float_op_fp
  stays_float_fmadd stays_do_trap stays_do_iillegal stays_check_interrupts

lemma stays_forcefeed: "wf_next m x \<Longrightarrow> stays m (rv_forcefeed_insn fp env h insn x)"
  unfolding rv_forcefeed_insn_def
  by (cases "rv_op_maj_of (RV_INSN_OP_MAJ insn)"; simp split: rv_op_maj.split;
      intro conjI impI step_rules; assumption)

lemma stays_fetch_half [stays_rules]: "wf_next m x \<Longrightarrow> stays3 m (fetch_half env h a x)"
  unfolding fetch_half_def by (intro step_rules)

lemma stays_fetch_trap [stays_rules]: "wf_next m x \<Longrightarrow> stays m (fetch_trap env h r a x)"
  unfolding fetch_trap_def by (intro step_rules)

lemma keeps_pc_epc: "keeps c (c\<lparr>epc := x, pc := y\<rparr>)"
  by (rule keeps_trans [OF keeps_pc(2) keeps_pc(1)])

lemma stays_run_insn: "wf_next m x \<Longrightarrow> stays m (run_insn fp env h insn len x)"
  unfolding run_insn_def Let_def by (intro step_rules stays_forcefeed keeps_pc_epc)

lemma stays_step_insn [stays_rules]: "wf_next m x \<Longrightarrow> stays m (rv_step_insn fp env h x)"
  unfolding rv_step_insn_def Let_def
  by (intro step_rules stays_fetch_half stays_fetch_trap stays_run_insn keeps_pc)

end

section \<open>Fetch and decode\<close>

text \<open>The instruction at an address of RAM: its word and its length.\<close>

definition insn_at :: "'d emu_machine \<Rightarrow> u64 \<Rightarrow> (u32 \<times> u64) option" where
  "insn_at m a =
     (let hw = ucast (le_word (ram_bytes m a 2)) :: u16
      in if hw AND 3 = 3 then Some (ucast (le_word (ram_bytes m a 4)), 4)
         else map_option (\<lambda>i. (i, 2)) (rv_decompress hw))"

lemma fetch_half_bare:
  assumes "ram_bounds m" and "privilege (get_cpu m h) = 3" and "in_ram m a 2"
    and "\<not> pmp_refuses m h a 2 RV_ACCESS_INSN False"
  shows "fetch_half env h a m = Some (RV_MEM_OK, ucast (le_word (ram_bytes m a 2) :: u64), m)"
  using assms phys_ram_access [of m 1 a "le_bytes 2 0" env h RV_ACCESS_INSN False]
  by (simp add: fetch_half_def rv_access_virt_def del: le_bytes.simps)

lemma le_word_append: "le_word (xs @ ys) = le_word xs OR push_bit (8 * length xs) (le_word ys)"
  by (induction xs) (simp_all add: push_bit_or ac_simps flip: push_bit_add)

lemma in_ram_offset:
  assumes "in_ram m a 4"
  shows "in_ram m a 2" and "in_ram m (a + 2) 2" and "ram_off m (a + 2) = ram_off m a + 2"
proof -
  have "unat (ram_end m) < 2 ^ LENGTH(64)" by (rule unsigned_less)
  with assms have "unat a + 2 < 2 ^ LENGTH(64)" by (simp add: in_ram_def)
  then have "unat (a + 2) = unat a + 2" by (simp add: unat_word_ariths)
  with assms show "in_ram m a 2" "in_ram m (a + 2) 2" "ram_off m (a + 2) = ram_off m a + 2"
    by (auto simp: in_ram_def ram_off_def)
qed

lemma join_halves:
  fixes x y :: u64
  assumes "\<And>n. 16 \<le> n \<Longrightarrow> \<not> bit x n"
  shows "(ucast (x OR push_bit 16 y) :: u32) = ucast (ucast x :: u16) OR push_bit 16 (ucast (ucast y :: u16))"
proof (rule bit_word_eqI)
  fix n
  assume "n < LENGTH(32)"
  then show "bit (ucast (x OR push_bit 16 y) :: u32) n
      = bit (ucast (ucast x :: u16) OR push_bit 16 (ucast (ucast y :: u16)) :: u32) n"
    using assms [of n] by (cases "16 \<le> n") (auto simp: bit_simps)
qed

lemma insn_word:
  assumes "in_ram m a 4"
  shows "(ucast (le_word (ram_bytes m a 4)) :: u32) =
    ucast (ucast (le_word (ram_bytes m a 2)) :: u16) OR push_bit 16 (ucast (ucast (le_word (ram_bytes m (a + 2) 2)) :: u16))"
proof -
  have "ram_bytes m a 4 = ram_bytes m a 2 @ ram_bytes m (a + 2) 2"
    by (simp add: ram_bytes_def in_ram_offset(3) [OF assms] upt_conv_Cons)
  then have "le_word (ram_bytes m a 4) = le_word (ram_bytes m a 2) OR push_bit 16 (le_word (ram_bytes m (a + 2) 2))"
    by (simp add: le_word_append)
  also have "(ucast \<dots> :: u32) = ucast (ucast (le_word (ram_bytes m a 2)) :: u16)
      OR push_bit 16 (ucast (ucast (le_word (ram_bytes m (a + 2) 2)) :: u16))"
  proof (rule join_halves)
    fix n :: nat
    assume "16 \<le> n"
    then have "\<not> n div 8 < 2" by (simp add: div_less_iff_less_mult)
    then show "\<not> bit (le_word (ram_bytes m a 2)) n" by (simp add: bit_le_word)
  qed
  finally show ?thesis .
qed

text \<open>C29: a step runs the instruction at the program counter. In machine mode, for instructions in RAM
  the PMP opens to fetches, the step executes the 32-bit little-endian word at \<open>pc\<close>, or the
  expansion of the 16-bit one when its low bits say it is compressed, with \<open>epc\<close> at the
  instruction and \<open>pc\<close> past it by its length, and then looks for an interrupt; a halfword that is
  no instruction is the illegal-instruction trap at \<open>pc\<close>.\<close>
theorem step_executes_insn_at_pc:
  fixes m :: "'d emu_machine" and h :: nat
  defines "c \<equiv> get_cpu m h"
  assumes "ram_bounds m" and "privilege c = 3" and "in_ram m (pc c) 4"
    and "\<not> pmp_refuses m h (pc c) 2 RV_ACCESS_INSN False"
    and "\<not> pmp_refuses m h (pc c + 2) 2 RV_ACCESS_INSN False"
  shows "rv_step_insn fp env h m =
    (case insn_at m (pc c) of
       None \<Rightarrow> rv_do_iillegal env h (ucast (ucast (le_word (ram_bytes m (pc c) 2)) :: u16))
                 (put_cpu h (c\<lparr>epc := pc c\<rparr>) m)
     | Some (insn, len) \<Rightarrow>
         Option.bind (rv_forcefeed_insn fp env h insn (put_cpu h (c\<lparr>epc := pc c, pc := pc c + len\<rparr>) m))
           (rv_check_interrupts env h))"
proof -
  let ?hw = "ucast (le_word (ram_bytes m (pc c) 2)) :: u16"
  note f1 = fetch_half_bare [OF assms(2) _ in_ram_offset(1) [OF assms(4)], of h env]
  note f2 = fetch_half_bare [OF assms(2) _ in_ram_offset(2) [OF assms(4)], of h env]
  show ?thesis
    using f1 f2 assms(3,5,6)
    by (simp add: rv_step_insn_def insn_at_def run_insn_def insn_word [OF assms(4)] c_def [symmetric] Let_def
        split: option.split)
qed

text \<open>\<open>addi x5, x0, 7\<close> at the start of RAM.\<close>

definition addi_machine :: "unit emu_machine" where
  "addi_machine = demo_machine\<lparr>ram := (\<lambda>_. 0)(0 := 0x93, 1 := 0x02, 2 := 0x70),
     cpus := [cpu_m\<lparr>pc := 0x1000\<rparr>]\<rparr>"

lemma wf_addi_machine: "wf_machine addi_machine"
proof -
  have "addi_machine = put_cpu 0 (cpu_m\<lparr>pc := 0x1000\<rparr>) (demo_machine\<lparr>ram := (\<lambda>_. 0)(0 := 0x93, 1 := 0x02, 2 := 0x70)\<rparr>)"
    (is "_ = put_cpu 0 ?c ?m") by (simp add: addi_machine_def put_cpu_def)
  moreover have "wf_machine ?m" "keeps (get_cpu ?m 0) ?c" by simp_all
  ultimately show ?thesis using wf_put_cpu by metis
qed

lemma cpu_m_pmp: "csr c = csr cpu_m \<Longrightarrow> rv_pmp_check c a n True = 7"
proof -
  have "pmp_deciding (csr cpu_m) a b True [0..<64] = None" for b
    by (auto simp: pmp_deciding_def find_None_iff pmp_active_def pmpcfg_unpacked_def cpu_m_alt)
  then show "csr c = csr cpu_m \<Longrightarrow> rv_pmp_check c a n True = 7"
    by (simp add: rv_pmp_check_def pmp_scan_find)
qed

lemma step_executes_insn_at_pc_witness:
  "rv_step_insn fpu_zero demo_env 0 addi_machine =
     Some (put_cpu 0 (rv_xreg_write (cpu_m\<lparr>epc := 0x1000, pc := 0x1004\<rparr>) 5 7) addi_machine)"
proof -
  have c: "get_cpu addi_machine 0 = cpu_m\<lparr>pc := 0x1000\<rparr>" "length (cpus addi_machine) = 1" by (simp_all add: addi_machine_def)
  have p: "privilege cpu_m = 3" by (simp add: cpu_m_alt)
  have ram: "in_ram addi_machine 0x1000 4" unfolding in_ram_def by (simp add: addi_machine_def)
  have pmp: "\<not> pmp_refuses addi_machine 0 a n RV_ACCESS_INSN False" for a n
    by (simp add: pmp_refuses_def do_pmp_check_def c p cpu_m_pmp)
  have bytes: "ram_bytes addi_machine 0x1000 2 = [0x93, 0x02]" "ram_bytes addi_machine 0x1000 4 = [0x93, 0x02, 0x70, 0]"
    by (simp_all add: ram_bytes_def ram_off_def addi_machine_def upt_rec)
  have insn: "insn_at addi_machine 0x1000 = Some (0x00700293, 4)"
    by (simp add: insn_at_def bytes)
  have op: "rv_op_maj_of (RV_INSN_OP_MAJ 0x00700293) = Some RV_OP_MAJ_OP_IMM"
    by (simp add: rv_field_defs rv_op_maj_of_def rv_op_majs_def)
  then have run: "rv_forcefeed_insn fpu_zero demo_env 0 0x00700293 x = Some (put_cpu 0 (rv_xreg_write (get_cpu x 0) 5 7) x)"
    if "rv_xreg_read (get_cpu x 0) 0 = 0" for x :: "unit emu_machine"
    using that by (simp add: rv_forcefeed_insn_def rv_base_op_def alu_result_def rv_field_defs Let_def)
  have "rv_xreg_read (cpu_m\<lparr>epc := 0x1000, pc := 0x1004\<rparr>) 0 = 0" "irq_pending cpu_m = 0"
    by (simp_all add: rv_xreg_read_def cpu_m_alt)
  then show ?thesis
    using step_executes_insn_at_pc [OF wf_ram_bounds [OF wf_addi_machine], of 0 fpu_zero demo_env]
    by (simp add: c p ram pmp insn run rv_check_interrupts_def pick_interrupt_def)
qed

text \<open>A compressed instruction expands to one the emulator implements. The expansion is a full
  instruction (its low bits are 11, so it is not compressed again) under one of the thirteen major
  opcodes of loads, stores, integer operations, jumps, branches and system instructions, and the
  dispatch runs that opcode's handler, never its illegal-instruction default.\<close>
lemma expansion_is_dispatched:
  assumes "rv_decompress c = Some w"
  shows "w AND 3 = 3
    \<and> (\<exists>handler \<in> {rv_base_op, rv_base_load, rv_base_store, rv_base_jal, rv_base_jalr, rv_base_lui,
          rv_base_system, rv_base_branch}. rv_forcefeed_insn fp env h w m = handler env h w m)"
proof -
  obtain op where op: "op \<in> set rvc_targets" and low: "take_bit 7 w = OP op"
    using decompress_low_bits [OF assms] by blast
  have "w AND 3 = take_bit 2 w" by (simp add: take_bit_eq_mask mask_eq_exp_minus_1)
  also have "\<dots> = take_bit 2 (take_bit 7 w)" by simp
  also have "\<dots> = take_bit 2 (OP op)" by (simp only: low)
  also have "\<dots> = 3" by (cases op) (simp_all add: OP_def)
  finally have "w AND 3 = 3" .
  moreover have "rv_op_maj_of (RV_INSN_OP_MAJ w) = Some op"
    using op_maj_of_low_bits [OF low] by (cases op) (simp_all add: rv_op_maj_of_def rv_op_majs_def)
  ultimately show ?thesis
    using op by (auto simp: rvc_targets_def rv_forcefeed_insn_def)
qed

end
