(* ===== verification/RV_Clint.thy ===== *)
theory RV_Clint
  imports RV_Memory
begin

text \<open>
  The core-local interruptor, \<open>device/rv_clint.c\<close>: the real-time counter, one timer per core, and
  the software interrupts. \<open>host_ns\<close> of the machine is what \<open>now_ns\<close> reads. The functions get the
  CLINT as \<open>clint\<close> of the machine it belongs to; the lock and the memory orders have no counterpart,
  since every function is one step.
\<close>

section \<open>The code\<close>

abbreviation "CLINT_NS_PER_TICK \<equiv> (100 :: u64)"
abbreviation "CLINT_MSIP_BASE \<equiv> (0x0000 :: u64)"
abbreviation "CLINT_MSIP_STRIDE \<equiv> (4 :: u64)"
abbreviation "CLINT_MTIMECMP_BASE \<equiv> (0x4000 :: u64)"
abbreviation "CLINT_MTIMECMP_STRIDE \<equiv> (8 :: u64)"
abbreviation "CLINT_MTIME_OFFSET \<equiv> (0xBFF8 :: u64)"
abbreviation "RV_CLINT_BASE \<equiv> (0x02000000 :: u64)"
abbreviation "RV_CLINT_SIZE \<equiv> (0x10000 :: u64)"
abbreviation "RV_CLINT_MSIP_BIT \<equiv> (3 :: nat)"
abbreviation "RV_CLINT_MTIP_BIT \<equiv> (7 :: nat)"

text \<open>The atomic updates of a core's pending interrupts.\<close>

definition irq_set :: "nat \<Rightarrow> nat \<Rightarrow> 'd emu_machine \<Rightarrow> 'd emu_machine" where
  "irq_set h b m =
     put_cpu h ((get_cpu m h)\<lparr>irq_pending := irq_pending (get_cpu m h) OR push_bit b 1\<rparr>) m"

definition irq_clear :: "nat \<Rightarrow> nat \<Rightarrow> 'd emu_machine \<Rightarrow> 'd emu_machine" where
  "irq_clear h b m =
     put_cpu h ((get_cpu m h)\<lparr>irq_pending := irq_pending (get_cpu m h) AND NOT (push_bit b 1)\<rparr>) m"

definition set_armed :: "nat \<Rightarrow> bool \<Rightarrow> 'd emu_machine \<Rightarrow> 'd emu_machine" where
  "set_armed h b m = put_cpu h ((get_cpu m h)\<lparr>clint_timer_armed := b\<rparr>) m"

text \<open>\<open>ok\<close> says whether the host gave the memory and the lock.\<close>

definition rv_clint_init :: "bool \<Rightarrow> 'd emu_machine \<Rightarrow> rv_clint option" where
  "rv_clint_init ok m =
     (let n = length (cpus m)
      in if \<not> ok then None
         else Some \<lparr>epoch_ns = host_ns m, mtimecmp = replicate n 0,
                    deadline_ns = replicate n 0xFFFFFFFFFFFFFFFF, clint_cpu_count = n\<rparr>)"

definition rv_clint_destroy :: "rv_clint \<Rightarrow> rv_clint" where
  "rv_clint_destroy c = c\<lparr>mtimecmp := [], deadline_ns := [], clint_cpu_count := 0\<rparr>"

definition rv_clint_mtime :: "rv_clint \<Rightarrow> 'd emu_machine \<Rightarrow> u64" where
  "rv_clint_mtime c m = (host_ns m - epoch_ns c) div CLINT_NS_PER_TICK"

definition rv_clint_set_mtimecmp :: "rv_clint \<Rightarrow> u64 \<Rightarrow> u64 \<Rightarrow> 'd emu_machine \<Rightarrow> 'd emu_machine" where
  "rv_clint_set_mtimecmp c hart value m =
     (let h = unat hart;
          m = irq_clear h RV_CLINT_MTIP_BIT m;
          deadline = epoch_ns c + value * CLINT_NS_PER_TICK;
          c = c\<lparr>mtimecmp := (mtimecmp c)[h := value], deadline_ns := (deadline_ns c)[h := deadline]\<rparr>
      in set_armed h True (m\<lparr>clint := Some c\<rparr>))"

text \<open>The check that follows every instruction of an armed core; a machine without CLINT is the
  null pointer.\<close>

definition rv_clint_check_timer :: "nat \<Rightarrow> 'd emu_machine \<Rightarrow> 'd emu_machine option" where
  "rv_clint_check_timer h m =
     (case clint m of
        None \<Rightarrow> None
      | Some c \<Rightarrow>
          let hart = unat (mhartid (csr (get_cpu m h)))
          in do {
               guard_ub (hart < length (deadline_ns c));
               Some (if host_ns m \<ge> deadline_ns c ! hart
                     then set_armed h False (irq_set h RV_CLINT_MTIP_BIT m) else m)
             })"

definition clint_read :: "u64 \<Rightarrow> u8 \<Rightarrow> rv_clint \<Rightarrow> 'd emu_machine \<Rightarrow> u64 option" where
  "clint_read offset sz c m =
     (let cmp = (offset - CLINT_MTIMECMP_BASE) div CLINT_MTIMECMP_STRIDE;
          sip = offset div CLINT_MSIP_STRIDE
      in if offset = CLINT_MTIME_OFFSET \<and> sz = 8 then Some (rv_clint_mtime c m)
         else if offset \<ge> CLINT_MTIMECMP_BASE \<and> sz = 8 \<and> unat cmp < clint_cpu_count c
                 \<and> (offset - CLINT_MTIMECMP_BASE) mod CLINT_MTIMECMP_STRIDE = 0
         then Some (mtimecmp c ! unat cmp)
         else if offset < CLINT_MTIMECMP_BASE \<and> sz = 4 \<and> unat sip < clint_cpu_count c
                 \<and> offset mod CLINT_MSIP_STRIDE = 0
         then Some (drop_bit RV_CLINT_MSIP_BIT (irq_pending (get_cpu m (unat sip))) AND 1)
         else None)"

text \<open>A write to \<open>mtime\<close> moves the epoch and with it every deadline.\<close>

definition clint_set_mtime :: "u64 \<Rightarrow> rv_clint \<Rightarrow> 'd emu_machine \<Rightarrow> 'd emu_machine" where
  "clint_set_mtime value c m =
     (let new_epoch = host_ns m - value * CLINT_NS_PER_TICK
      in m\<lparr>clint := Some (c\<lparr>epoch_ns := new_epoch,
           deadline_ns := map (\<lambda>t. new_epoch + t * CLINT_NS_PER_TICK) (mtimecmp c)\<rparr>)\<rparr>)"

definition clint_write :: "u64 \<Rightarrow> u8 \<Rightarrow> u64 \<Rightarrow> rv_clint \<Rightarrow> 'd emu_machine \<Rightarrow> 'd emu_machine option" where
  "clint_write offset sz value c m =
     (let cmp = (offset - CLINT_MTIMECMP_BASE) div CLINT_MTIMECMP_STRIDE;
          sip = offset div CLINT_MSIP_STRIDE
      in if offset = CLINT_MTIME_OFFSET \<and> sz = 8 then Some (clint_set_mtime value c m)
         else if offset \<ge> CLINT_MTIMECMP_BASE \<and> sz = 8 \<and> unat cmp < clint_cpu_count c
                 \<and> (offset - CLINT_MTIMECMP_BASE) mod CLINT_MTIMECMP_STRIDE = 0
         then Some (rv_clint_set_mtimecmp c cmp value m)
         else if offset < CLINT_MTIMECMP_BASE \<and> sz = 4 \<and> unat sip < clint_cpu_count c
                 \<and> offset mod CLINT_MSIP_STRIDE = 0
         then Some (if bit value 0 then irq_set (unat sip) RV_CLINT_MSIP_BIT m
                    else irq_clear (unat sip) RV_CLINT_MSIP_BIT m)
         else None)"

text \<open>The region of the CLINT; \<open>dev\<close> stands for the device pointer and its callbacks.\<close>

definition rv_clint_mmio_region :: "nat \<Rightarrow> u64 \<Rightarrow> emu_mmio_region" where
  "rv_clint_mmio_region dev base = \<lparr>mr_base = base, mr_size = RV_CLINT_SIZE, mr_device = dev\<rparr>"

section \<open>The invariant\<close>

lemma irq_bits_set: "b \<in> {1, 3, 5, 7, 9, 11} \<Longrightarrow> push_bit b 1 AND IRQ_BITS = (push_bit b 1 :: u64)"
  by auto

lemma keeps_irq:
  assumes "b \<in> {1, 3, 5, 7, 9, 11}"
  shows "keeps c (c\<lparr>irq_pending := irq_pending c OR push_bit b 1\<rparr>)"
    and "keeps c (c\<lparr>irq_pending := irq_pending c AND NOT (push_bit b 1)\<rparr>)"
proof -
  show "keeps c (c\<lparr>irq_pending := irq_pending c OR push_bit b 1\<rparr>)"
    using wf_set_irq_pending [OF _ masked_or [OF wf_cpuD(8) irq_bits_set [OF assms]]]
    by (simp add: keeps_def)
  show "keeps c (c\<lparr>irq_pending := irq_pending c AND NOT (push_bit b 1)\<rparr>)"
    using wf_set_irq_pending [OF _ masked_and [OF wf_cpuD(8)]] by (simp add: keeps_def)
qed

lemma wf_irq [wf_intros]:
  assumes "wf_machine m" and "b \<in> {1, 3, 5, 7, 9, 11}"
  shows "wf_machine (irq_set h b m)" and "wf_machine (irq_clear h b m)"
  unfolding irq_set_def irq_clear_def by (rule wf_put_cpu [OF assms(1) keeps_irq(1) [OF assms(2)]])
    (rule wf_put_cpu [OF assms(1) keeps_irq(2) [OF assms(2)]])

lemma wf_set_armed:
  assumes "wf_machine m" and "clint m \<noteq> None"
  shows "wf_machine (set_armed h b m)"
proof (cases "h < length (cpus m)")
  case True
  have "wf_cpu ((get_cpu m h)\<lparr>clint_timer_armed := b\<rparr>)"
    using wf_machine_cpu [OF assms(1) True] by (simp add: wf_cpu_def rv_sync_mem_privilege_def)
  then show ?thesis
    using assms True
    by (auto simp: wf_machine_def set_armed_def put_cpu_cpus list_all_length nth_list_update)
qed (use assms in \<open>simp add: set_armed_def put_cpu_def list_update_beyond\<close>)

lemma clint_frame [simp, frame_simps]:
  "length (cpus (irq_set h b m)) = length (cpus m)" "length (cpus (irq_clear h b m)) = length (cpus m)"
  "length (cpus (set_armed h x m)) = length (cpus m)" "clint (irq_set h b m) = clint m"
  "clint (irq_clear h b m) = clint m" "clint (set_armed h x m) = clint m"
  "host_ns (irq_set h b m) = host_ns m" "host_ns (irq_clear h b m) = host_ns m" "host_ns (set_armed h x m) = host_ns m"
  by (simp_all add: irq_set_def irq_clear_def set_armed_def)

lemma wf_set_clint:
  assumes "wf_machine m" and "wf_clint (length (cpus m)) c"
  shows "wf_machine (m\<lparr>clint := Some c\<rparr>)"
  using assms by (simp add: wf_machine_def)

lemma wf_clint_of: "wf_machine m \<Longrightarrow> clint m = Some c \<Longrightarrow> wf_clint (length (cpus m)) c"
  by (simp add: wf_machine_def)

lemma wf_set_mtimecmp:
  assumes "wf_machine m" and "clint m = Some c"
  shows "wf_next m (rv_clint_set_mtimecmp c hart v m)"
proof -
  have "wf_clint (length (cpus (irq_clear (unat hart) 7 m)))
      (c\<lparr>mtimecmp := (mtimecmp c)[unat hart := v], deadline_ns := (deadline_ns c)[unat hart := d]\<rparr>)" for d
    using wf_clint_of [OF assms] by (simp add: wf_clint_def)
  then show ?thesis
    unfolding rv_clint_set_mtimecmp_def Let_def wf_next_def
    by (intro conjI wf_set_armed wf_set_clint wf_irq assms) simp_all
qed

lemma wf_clint_write:
  assumes "clint_write off sz v c m = Some m'" and "wf_machine m" and "clint m = Some c"
  shows "wf_next m m'"
proof -
  have "wf_next m (clint_set_mtime v c m)"
    using assms(2) wf_clint_of [OF assms(2,3)]
    by (auto simp: clint_set_mtime_def wf_next_def Let_def wf_clint_def intro!: wf_set_clint)
  moreover have "wf_next m (irq_set h 3 m)" "wf_next m (irq_clear h 3 m)" for h
    using wf_irq [OF assms(2)] by (simp_all add: wf_next_def)
  ultimately show ?thesis
    using assms wf_set_mtimecmp [OF assms(2,3)]
    by (auto simp: clint_write_def Let_def split: if_splits)
qed

lemma wf_check_timer:
  assumes "rv_clint_check_timer h m = Some m'" and "wf_machine m"
  shows "wf_next m m'"
  using assms
  by (auto simp: rv_clint_check_timer_def Let_def wf_next_def intro!: wf_set_armed wf_irq split: option.splits if_splits)

lemma check_timer_defined:
  assumes "wf_machine m" and "h < length (cpus m)" and "clint_timer_armed (get_cpu m h)"
  shows "rv_clint_check_timer h m \<noteq> None"
  using assms wf_machine_hartid [OF assms(1,2)]
  by (auto simp: rv_clint_check_timer_def wf_machine_def wf_clint_def list_all_length Let_def split: option.splits)

section \<open>The timer\<close>

definition mtimecmp_offset :: "nat \<Rightarrow> u64" where
  "mtimecmp_offset h = CLINT_MTIMECMP_BASE + of_nat h * CLINT_MTIMECMP_STRIDE"

lemma irq_bits [simp]:
  assumes "h < length (cpus m)" and "b < 64"
  shows "bit (irq_pending (get_cpu (irq_set h b m) h)) k \<longleftrightarrow> k = b \<or> bit (irq_pending (get_cpu m h)) k"
    and "bit (irq_pending (get_cpu (irq_clear h b m) h)) k \<longleftrightarrow> k \<noteq> b \<and> bit (irq_pending (get_cpu m h)) k"
  using assms by (auto simp: irq_set_def irq_clear_def bit_simps dest: bit_imp_le_length
      simp del: push_bit_of_1)

lemma armed_simps [simp]:
  assumes "h < length (cpus m)"
  shows "irq_pending (get_cpu (set_armed h x m) h) = irq_pending (get_cpu m h)"
    and "clint_timer_armed (get_cpu (set_armed h x m) h) = x"
    and "csr (get_cpu (set_armed h x m) h) = csr (get_cpu m h)" "csr (get_cpu (irq_set h b m) h) = csr (get_cpu m h)"
    and "csr (get_cpu (irq_clear h b m) h) = csr (get_cpu m h)"
  using assms by (simp_all add: set_armed_def irq_set_def irq_clear_def)

lemma host_ns_order:
  "irq_set h b (m\<lparr>host_ns := t\<rparr>) = irq_set h b m\<lparr>host_ns := t\<rparr>"
  "set_armed h x (m\<lparr>host_ns := t\<rparr>) = set_armed h x m\<lparr>host_ns := t\<rparr>"
  by (simp_all add: irq_set_def set_armed_def put_cpu_def)

lemma mtimecmp_write:
  assumes "wf_machine m" and "clint m = Some c" and "h < length (cpus m)" and "h < 0xFFF"
  shows "clint_write (mtimecmp_offset h) 8 v c m = Some (rv_clint_set_mtimecmp c (of_nat h) v m)"
proof -
  have u: "unat (of_nat h * 8 :: u64) = h * 8" "unat (of_nat h :: u64) = h"
    using assms(4) by (simp_all add: unat_word_ariths unat_of_nat)
  then have d: "(of_nat h * 8 :: u64) div 8 = of_nat h" "(of_nat h * 8 :: u64) mod 8 = 0"
    by (simp_all add: word_unat_eq_iff unat_div unat_mod)
  have "mtimecmp_offset h \<noteq> CLINT_MTIME_OFFSET" "CLINT_MTIMECMP_BASE \<le> mtimecmp_offset h"
    using assms(4) u by (simp_all add: mtimecmp_offset_def word_unat_eq_iff word_le_nat_alt unat_word_ariths)
  moreover have "h < clint_cpu_count c"
    using wf_clint_of [OF assms(1,2)] assms(3) by (simp add: wf_clint_def)
  ultimately show ?thesis
    using u d by (simp add: clint_write_def mtimecmp_offset_def)
qed

lemma set_mtimecmp_core:
  assumes "wf_machine m" and "clint m = Some c" and "h < length (cpus m)"
  shows "length (cpus (rv_clint_set_mtimecmp c (of_nat h) v m)) = length (cpus m)"
    and "\<not> bit (irq_pending (get_cpu (rv_clint_set_mtimecmp c (of_nat h) v m) h)) 7"
    and "clint_timer_armed (get_cpu (rv_clint_set_mtimecmp c (of_nat h) v m) h)"
    and "m1 = rv_clint_set_mtimecmp c (of_nat h) v m\<lparr>host_ns := t\<rparr> \<Longrightarrow> rv_clint_check_timer h m1 =
      Some (if t \<ge> epoch_ns c + v * 100 then set_armed h False (irq_set h 7 m1) else m1)"
proof -
  have h: "unat (of_nat h :: u64) = h" "h < length (deadline_ns c)" "unat (mhartid (csr (get_cpu m h))) = h"
    using assms wf_clint_of [OF assms(1,2)] wf_machine_hartid [OF assms(1,3)]
    by (auto simp: wf_machine_def wf_clint_def unat_of_nat)
  then show "length (cpus (rv_clint_set_mtimecmp c (of_nat h) v m)) = length (cpus m)"
    "\<not> bit (irq_pending (get_cpu (rv_clint_set_mtimecmp c (of_nat h) v m) h)) 7"
    "clint_timer_armed (get_cpu (rv_clint_set_mtimecmp c (of_nat h) v m) h)"
    using assms(3) by (simp_all add: rv_clint_set_mtimecmp_def Let_def)
  have "csr (get_cpu (rv_clint_set_mtimecmp c (of_nat h) v m) h) = csr (get_cpu m h)"
    using h assms(3) by (simp add: rv_clint_set_mtimecmp_def set_armed_def irq_clear_def put_cpu_def)
  moreover have "clint (rv_clint_set_mtimecmp c (of_nat h) v m) = Some (c\<lparr>mtimecmp := (mtimecmp c)[h := v],
      deadline_ns := (deadline_ns c)[h := epoch_ns c + v * 100]\<rparr>)"
    using h by (simp add: rv_clint_set_mtimecmp_def)
  ultimately show "m1 = rv_clint_set_mtimecmp c (of_nat h) v m\<lparr>host_ns := t\<rparr> \<Longrightarrow> rv_clint_check_timer h m1 =
      Some (if t \<ge> epoch_ns c + v * 100 then set_armed h False (irq_set h 7 m1) else m1)"
    using h by (simp add: rv_clint_check_timer_def Let_def)
qed


text \<open>A timer set to the end of time fires at once. Writing the greatest value to \<open>mtimecmp\<close>, as
  software does to silence the timer, makes the deadline wrap to before the epoch, so the very
  next check raises the interrupt although \<open>mtime\<close> is still below \<open>mtimecmp\<close>.\<close>
theorem clint_max_mtimecmp_fires_at_once:
  fixes m :: "'d emu_machine"
  assumes "wf_machine m" and "clint m = Some c" and "h < length (cpus m)" and "h < 0xFFF"
    and "epoch_ns c \<le> host_ns m" and "100 \<le> epoch_ns c"
  shows "\<exists>m1 m2. clint_write (mtimecmp_offset h) 8 0xFFFFFFFFFFFFFFFF c m = Some m1
    \<and> rv_clint_check_timer h m1 = Some m2
    \<and> bit (irq_pending (get_cpu m2 h)) RV_CLINT_MTIP_BIT
    \<and> rv_clint_mtime c m < 0xFFFFFFFFFFFFFFFF"
proof -
  let ?v = "0xFFFFFFFFFFFFFFFF :: u64"
  let ?m1 = "rv_clint_set_mtimecmp c (of_nat h) ?v m"
  have same: "?m1\<lparr>host_ns := host_ns m\<rparr> = ?m1"
    by (simp add: rv_clint_set_mtimecmp_def set_armed_def irq_clear_def put_cpu_def Let_def)
  have "epoch_ns c + ?v * 100 = epoch_ns c - 100" by simp
  also have "\<dots> \<le> epoch_ns c" using assms(6) by (rule word_sub_le)
  finally have due: "epoch_ns c + ?v * 100 \<le> host_ns m" using assms(5) by simp
  have "unat (host_ns m - epoch_ns c) < 2 ^ LENGTH(64)" by (rule unsigned_less)
  then have small: "rv_clint_mtime c m < ?v"
    by (simp add: rv_clint_mtime_def word_less_nat_alt unat_div div_less_iff_less_mult)
  note core = set_mtimecmp_core [OF assms(1-3), where v = ?v]
  have "h < length (cpus ?m1)" using assms(3) core(1) by simp
  then show ?thesis
    using core(4) [of ?m1 "host_ns m"] same due small
    by - (rule exI [of _ ?m1], simp add: mtimecmp_write [OF assms(1-4)])
qed

text \<open>A CLINT started at host time 1000, seen at 5000.\<close>

definition clint_demo :: rv_clint where
  "clint_demo = \<lparr>epoch_ns = 1000, mtimecmp = [0], deadline_ns = [0xFFFFFFFFFFFFFFFF], clint_cpu_count = 1\<rparr>"

definition clint_machine :: "unit emu_machine" where
  "clint_machine = demo_machine\<lparr>clint := Some clint_demo, host_ns := 5000\<rparr>"

lemma wf_clint_machine: "wf_machine clint_machine" "clint clint_machine = Some clint_demo"
  "length (cpus clint_machine) = 1" "host_ns clint_machine = 5000"
  using wf_demo_machine by (simp_all add: clint_machine_def clint_demo_def wf_machine_def wf_clint_def)


lemma clint_max_mtimecmp_fires_at_once_witness:
  "\<exists>m1 m2. clint_write 0x4000 8 0xFFFFFFFFFFFFFFFF clint_demo clint_machine = Some m1
    \<and> rv_clint_check_timer 0 m1 = Some m2 \<and> bit (irq_pending (get_cpu m2 0)) 7"
  using clint_max_mtimecmp_fires_at_once [OF wf_clint_machine(1,2), of 0]
  by (simp add: wf_clint_machine clint_demo_def mtimecmp_offset_def) blast

end
