(* ===== verification/RV_Machine.thy ===== *)
theory RV_Machine
  imports RV_Cpu RV_Clint
begin

text \<open>
  The life of a machine, \<open>emu_machine.c\<close>: allocation and release, the table of memory-mapped
  regions, the loop of a core's thread, and the concurrent run of all cores. The run is a step
  relation: cores take turns in any order, a turn being one iteration of a thread's loop, while the
  host's clock advances and devices act from outside. Interleaving within an iteration, which the
  threads of the host have, is finer than this model.
\<close>

section \<open>Allocation\<close>

text \<open>\<open>ok\<close> says whether the host gave the memory; \<open>m\<close> is the zero-filled struct of the caller.\<close>

definition reset_cpu :: "nat \<Rightarrow> rv_cpu" where
  "reset_cpu i =
     rv_sync_mem_privilege (cpu_zero\<lparr>csr := (csr cpu_zero)\<lparr>mhartid := of_nat i\<rparr>, privilege := 3\<rparr>)"

definition emu_machine_init ::
  "bool \<Rightarrow> 'd emu_machine \<Rightarrow> nat \<Rightarrow> u64 \<Rightarrow> u64 \<Rightarrow> 'd emu_machine option" where
  "emu_machine_init ok m cpu_count start ram_size =
     (if \<not> ok then None
      else Some (m\<lparr>cpus := map reset_cpu [0..<cpu_count],
                   reservations := replicate cpu_count \<lparr>res_addr = 0, res_valid = False\<rparr>,
                   ram := (\<lambda>_. 0), ram_alloc := unat ram_size,
                   ram_start := start, ram_end := start + ram_size\<rparr>))"

definition emu_machine_destroy :: "'d emu_machine \<Rightarrow> 'd emu_machine" where
  "emu_machine_destroy m =
     m\<lparr>cpus := [], reservations := [], ram_alloc := 0, mmio := [], ram_start := 0, ram_end := 0\<rparr>"

definition emu_machine_add_mmio :: "bool \<Rightarrow> emu_mmio_region \<Rightarrow> 'd emu_machine \<Rightarrow> 'd emu_machine option" where
  "emu_machine_add_mmio ok region m = (if ok then Some (m\<lparr>mmio := mmio m @ [region]\<rparr>) else None)"

text \<open>The struct \<open>= {0}\<close>, at host time \<open>t\<close>.\<close>

definition zero_machine :: "'d \<Rightarrow> u64 \<Rightarrow> 'd emu_machine" where
  "zero_machine d t =
     \<lparr>ram_start = 0, ram_end = 0, ram = (\<lambda>_. 0), ram_alloc = 0, trap_hook = replicate 32 None, cpus = [],
      reservations = [], mmio = [], clint = None, devs = d, host_ns = t, host_frm = (\<lambda>_. FE_TONEAREST)\<rparr>"

section \<open>The thread of a core\<close>

definition cpu_thread_turn :: "fpu \<Rightarrow> 'd emu_env \<Rightarrow> nat \<Rightarrow> 'd emu_machine \<Rightarrow> 'd emu_machine option" where
  "cpu_thread_turn fp env h m =
     do {
       m \<leftarrow> rv_step_insn fp env h m;
       (if clint_timer_armed (get_cpu m h) then rv_clint_check_timer h m else Some m)
     }"

partial_function (option) cpu_thread ::
  "fpu \<Rightarrow> 'd emu_env \<Rightarrow> nat \<Rightarrow> 'd emu_machine \<Rightarrow> 'd emu_machine option" where
  [code]: "cpu_thread fp env h m =
     (if halted (get_cpu m h) then Some m
      else do { m \<leftarrow> cpu_thread_turn fp env h m; cpu_thread fp env h m })"

text \<open>Exactly \<open>n\<close> iterations of the loop.\<close>

primrec thread_turns ::
  "fpu \<Rightarrow> 'd emu_env \<Rightarrow> nat \<Rightarrow> nat \<Rightarrow> 'd emu_machine \<Rightarrow> 'd emu_machine option" where
  "thread_turns fp env h 0 m = Some m"
| "thread_turns fp env h (Suc n) m =
     (if halted (get_cpu m h) then None
      else do { m \<leftarrow> cpu_thread_turn fp env h m; thread_turns fp env h n m })"

lemma thread_turns_of_thread:
  assumes "cpu_thread fp env h m = Some m'"
  shows "\<exists>n. thread_turns fp env h n m = Some m' \<and> halted (get_cpu m' h)"
proof (rule cpu_thread.raw_induct [OF _ assms])
  fix f fp and env :: "'a emu_env" and h m m'
  assume IH: "\<And>env h m b y. f env h m b = Some y \<Longrightarrow>
      \<exists>n. thread_turns env h m n b = Some y \<and> halted (get_cpu y m)"
    and eq: "(if halted (get_cpu m h) then Some m else cpu_thread_turn fp env h m \<bind> f fp env h) = Some m'"
  show "\<exists>n. thread_turns fp env h n m = Some m' \<and> halted (get_cpu m' h)"
  proof (cases "halted (get_cpu m h)")
    case True
    with eq show ?thesis by (auto intro: exI [of _ 0])
  next
    case False
    with eq obtain x where x: "cpu_thread_turn fp env h m = Some x" "f fp env h x = Some m'"
      by (auto split: bind_splits)
    from IH [OF x(2)] obtain n where "thread_turns fp env h n x = Some m'" "halted (get_cpu m' h)" by blast
    with False x(1) show ?thesis by (auto intro: exI [of _ "Suc n"])
  qed
qed

lemma thread_of_thread_turns:
  "thread_turns fp env h n m = Some m' \<Longrightarrow> halted (get_cpu m' h) \<Longrightarrow> cpu_thread fp env h m = Some m'"
proof (induction n arbitrary: m)
  case 0
  then show ?case by (simp add: cpu_thread.simps)
next
  case (Suc n)
  then show ?case by (subst cpu_thread.simps) (auto split: if_splits bind_splits)
qed

section \<open>The run of a machine\<close>

text \<open>\<open>ev\<close> relates the machines before and after something a device does of its own.\<close>

inductive emu_machine_turn ::
  "fpu \<Rightarrow> 'd emu_env \<Rightarrow> ('d emu_machine \<Rightarrow> 'd emu_machine \<Rightarrow> bool) \<Rightarrow> 'd emu_machine \<Rightarrow> 'd emu_machine \<Rightarrow> bool"
  for fp env ev
where
  turn_hart: "emu_machine_turn fp env ev m m'"
    if "h < length (cpus m)" and "\<not> halted (get_cpu m h)" and "cpu_thread_turn fp env h m = Some m'"
| turn_clock: "emu_machine_turn fp env ev m (m\<lparr>host_ns := t\<rparr>)" if "host_ns m \<le> t"
| turn_device: "emu_machine_turn fp env ev m m'" if "ev m m'"

abbreviation emu_machine_run ::
  "fpu \<Rightarrow> 'd emu_env \<Rightarrow> ('d emu_machine \<Rightarrow> 'd emu_machine \<Rightarrow> bool) \<Rightarrow> 'd emu_machine \<Rightarrow> 'd emu_machine \<Rightarrow> bool"
where
  "emu_machine_run fp env ev \<equiv> (emu_machine_turn fp env ev)\<^sup>*\<^sup>*"

inductive_cases emu_machine_turnE: "emu_machine_turn fp env ev m m'"

section \<open>The invariant\<close>

lemma wf_reset_cpu: "wf_cpu (reset_cpu i)"
proof -
  have "wf_csr ((csr cpu_zero)\<lparr>mhartid := x\<rparr>)" for x
    using wf_csr_zero by (simp add: wf_csr_def pmpcfg_unpacked_def)
  then show ?thesis
    using wf_cpu_zero by (auto simp: reset_cpu_def wf_cpu_def)
qed

lemma reset_cpu_fields [simp]:
  "mhartid (csr (reset_cpu i)) = of_nat i" "privilege (reset_cpu i) = 3" "mem_privilege (reset_cpu i) = 3"
  "clint_timer_armed (reset_cpu i) = False" "pc (reset_cpu i) = 0" "halted (reset_cpu i) = False"
  by (simp_all add: reset_cpu_def rv_sync_mem_privilege_def)

lemma wf_machine_init:
  assumes "emu_machine_init ok m n start sz = Some m'" and "n < 2 ^ 64"
    and "unat start + unat sz < 2 ^ 64" and "length (trap_hook m) = 32" and "clint m = None"
  shows "wf_machine m'"
proof -
  have "unat (start + sz) = unat start + unat sz" using assms(3) by (simp add: unat_word_ariths)
  with assms show ?thesis
    by (auto simp: emu_machine_init_def wf_machine_def list_all_length wf_reset_cpu split: if_splits)
qed

lemma wf_add_mmio:
  assumes "emu_machine_add_mmio ok r m = Some m'"
  shows "wf_machine m' = wf_machine m"
  using assms by (auto simp: emu_machine_add_mmio_def wf_machine_def split: if_splits option.splits)

lemma wf_host_ns [simp]: "wf_machine (m\<lparr>host_ns := t\<rparr>) = wf_machine m"
  by (simp add: wf_machine_def split: option.splits)

context emu_callbacks
begin

lemma stays_thread_turn:
  assumes "wf_machine m"
  shows "stays m (cpu_thread_turn fp env h m)"
proof -
  have "stays m (rv_clint_check_timer h x)" if "wf_next m x" for x
    using that wf_check_timer [of h x] wf_nextD [OF that] by (auto simp: stays_def intro: wf_next_trans)
  then show ?thesis
    unfolding cpu_thread_turn_def using wf_next_refl [OF assms] by (intro step_rules stays_step_insn) auto
qed

lemma thread_turn_wf:
  "wf_machine m \<Longrightarrow> cpu_thread_turn fp env h m = Some m' \<Longrightarrow> wf_next m m'"
  using stays_thread_turn by (simp add: stays_def)

lemma thread_turns_wf: "thread_turns fp env h n m = Some m' \<Longrightarrow> wf_machine m \<Longrightarrow> wf_next m m'"
proof (induction n arbitrary: m)
  case (Suc n)
  then obtain x where x: "cpu_thread_turn fp env h m = Some x" "thread_turns fp env h n x = Some m'"
    by (auto split: if_splits bind_splits)
  from thread_turn_wf [OF Suc.prems(2) x(1)] show ?case
    using Suc.IH [OF x(2)] wf_nextD wf_next_trans by blast
qed (simp add: wf_next_refl)

end

text \<open>Devices that act of their own keep the invariant too.\<close>

locale emu_devices = emu_callbacks env for env :: "'d emu_env" +
  fixes ev :: "'d emu_machine \<Rightarrow> 'd emu_machine \<Rightarrow> bool"
  assumes ev_wf: "wf_machine m \<Longrightarrow> ev m m' \<Longrightarrow> wf_next m m'"
begin

lemma turn_wf: "emu_machine_turn fp env ev m m' \<Longrightarrow> wf_machine m \<Longrightarrow> wf_next m m'"
  by (auto elim!: emu_machine_turnE intro: thread_turn_wf ev_wf simp: wf_next_def [of m "m\<lparr>host_ns := t\<rparr>" for m t])

lemma run_wf:
  assumes "emu_machine_run fp env ev m m'" and "wf_machine m"
  shows "wf_next m m'"
  using assms
proof (induction rule: rtranclp_induct)
  case (step x y)
  then show ?case using turn_wf [of fp x y] wf_nextD wf_next_trans by blast
qed (rule wf_next_refl)

text \<open>A thread's iterations are turns of the machine.\<close>

lemma thread_turns_run:
  assumes "thread_turns fp env h n m = Some m'" and "wf_machine m" and "h < length (cpus m)"
  shows "emu_machine_run fp env ev m m'"
  using assms
proof (induction n arbitrary: m)
  case (Suc n)
  then obtain x where x: "\<not> halted (get_cpu m h)" "cpu_thread_turn fp env h m = Some x"
      "thread_turns fp env h n x = Some m'"
    by (auto split: if_splits bind_splits)
  then have "emu_machine_turn fp env ev m x" using Suc.prems(3) by (intro turn_hart)
  moreover have "wf_machine x" "h < length (cpus x)"
    using thread_turn_wf [OF Suc.prems(2) x(2)] Suc.prems(3) by (simp_all add: wf_next_def)
  ultimately show ?case using Suc.IH [OF x(3)] by (meson converse_rtranclp_into_rtranclp)
qed simp

end

end
