(* ===== verification/RV_Plic.thy ===== *)
theory RV_Plic
  imports RV_Clint
begin

text \<open>
  The platform-level interrupt controller, \<open>device/rv_plic.c\<close>. The functions take the controller
  and the machine whose cores it interrupts. Source 64 is legal but its bit lies in a third word of
  the two-word bit arrays, so the code reads the memory behind them. The model has that memory:
  behind \<open>pending\<close> the padding of the struct, kept as a third word, and behind the \<open>enable\<close> words of
  a context the \<open>threshold\<close> of the next one, or \<open>after_contexts\<close>, the heap word behind the last.
\<close>

section \<open>State\<close>

abbreviation "RV_PLIC_NUM_SOURCES \<equiv> (64 :: nat)"
abbreviation "RV_PLIC_REG_WORDS \<equiv> (2 :: nat)"
abbreviation "RV_PLIC_MEIP_BIT \<equiv> (11 :: nat)"
abbreviation "RV_PLIC_SEIP_BIT \<equiv> (9 :: nat)"

record rv_plic_context =
  threshold :: u32
  enable :: "u32 list"

record rv_plic =
  priority :: "u32 list"
  pending :: "u32 list"
  contexts :: "rv_plic_context list"
  after_contexts :: u32

abbreviation "PLIC_REGION_SIZE \<equiv> (0x400000 :: u64)"
abbreviation "PLIC_PENDING_BASE \<equiv> (0x001000 :: u64)"
abbreviation "PLIC_ENABLE_BASE \<equiv> (0x002000 :: u64)"
abbreviation "PLIC_ENABLE_CTX_STRIDE \<equiv> (0x080 :: u64)"
abbreviation "PLIC_CTX_BASE \<equiv> (0x200000 :: u64)"
abbreviation "PLIC_CTX_STRIDE \<equiv> (0x1000 :: u64)"

definition enable_word :: "rv_plic \<Rightarrow> nat \<Rightarrow> nat \<Rightarrow> u32" where
  "enable_word p ctx word =
     (if word < RV_PLIC_REG_WORDS then enable (contexts p ! ctx) ! word
      else if ctx + 1 < length (contexts p) then threshold (contexts p ! (ctx + 1))
      else after_contexts p)"

section \<open>The code\<close>

text \<open>The source is pending, enabled and above the threshold of the context.\<close>

definition plic_eligible :: "rv_plic \<Rightarrow> nat \<Rightarrow> nat \<Rightarrow> bool" where
  "plic_eligible p ctx src \<longleftrightarrow>
     bit (pending p ! (src div 32)) (src mod 32) \<and> bit (enable_word p ctx (src div 32)) (src mod 32)
     \<and> priority p ! src > threshold (contexts p ! ctx)"

definition plic_sources :: "nat list" where
  "plic_sources = [1..<Suc RV_PLIC_NUM_SOURCES]"

definition plic_has_irq :: "rv_plic \<Rightarrow> nat \<Rightarrow> bool" where
  "plic_has_irq p ctx = list_ex (plic_eligible p ctx) plic_sources"

definition plic_update_ctx :: "rv_plic \<Rightarrow> nat \<Rightarrow> 'd emu_machine \<Rightarrow> 'd emu_machine" where
  "plic_update_ctx p ctx m =
     (let hart = ctx div 2;
          irqbit = (if ctx mod 2 = 0 then RV_PLIC_MEIP_BIT else RV_PLIC_SEIP_BIT)
      in if hart \<ge> length (cpus m) then m
         else if plic_has_irq p ctx then irq_set hart irqbit m
         else irq_clear hart irqbit m)"

definition plic_update_harts :: "rv_plic \<Rightarrow> 'd emu_machine \<Rightarrow> 'd emu_machine" where
  "plic_update_harts p m = fold (plic_update_ctx p) [0..<length (contexts p)] m"

text \<open>One turn of the loop over the sources; the state is \<open>best_src\<close> and \<open>best_pri\<close>.\<close>

definition claim_step :: "rv_plic \<Rightarrow> nat \<Rightarrow> nat \<Rightarrow> nat \<times> u32 \<Rightarrow> nat \<times> u32" where
  "claim_step p ctx src best =
     (if plic_eligible p ctx src \<and> priority p ! src > snd best then (src, priority p ! src) else best)"

definition plic_best :: "rv_plic \<Rightarrow> nat \<Rightarrow> nat" where
  "plic_best p ctx = fst (fold (claim_step p ctx) plic_sources (0, 0))"

definition clear_pending :: "nat \<Rightarrow> rv_plic \<Rightarrow> rv_plic" where
  "clear_pending src p =
     p\<lparr>pending := (pending p)[src div 32 := pending p ! (src div 32) AND NOT (push_bit (src mod 32) 1)]\<rparr>"

definition plic_do_claim :: "nat \<Rightarrow> rv_plic \<Rightarrow> 'd emu_machine \<Rightarrow> u32 \<times> rv_plic \<times> 'd emu_machine" where
  "plic_do_claim ctx p m =
     (if ctx \<ge> length (contexts p) then (0, p, m)
      else
        let best_src = plic_best p ctx
        in if best_src \<noteq> 0
           then let p = clear_pending best_src p in (of_nat best_src, p, plic_update_harts p m)
           else (0, p, m))"

text \<open>The callbacks; \<open>None\<close> is their failure.\<close>

definition plic_read :: "u64 \<Rightarrow> u8 \<Rightarrow> rv_plic \<Rightarrow> 'd emu_machine \<Rightarrow> (u64 \<times> rv_plic \<times> 'd emu_machine) option" where
  "plic_read offset sz p m =
     (if sz \<noteq> 4 then None
      else if offset < PLIC_PENDING_BASE then
        let src = unat (ucast (offset div 4) :: u32)
        in Some (if src \<ge> 1 \<and> src \<le> RV_PLIC_NUM_SOURCES then ucast (priority p ! src) else 0, p, m)
      else if offset < PLIC_ENABLE_BASE then
        let word = unat (ucast ((offset - PLIC_PENDING_BASE) div 4) :: u32)
        in Some (if word < RV_PLIC_REG_WORDS then ucast (pending p ! word) else 0, p, m)
      else if offset < PLIC_CTX_BASE then
        let rel = offset - PLIC_ENABLE_BASE;
            ctx = unat (ucast (rel div PLIC_ENABLE_CTX_STRIDE) :: u32);
            word = unat (ucast (rel mod PLIC_ENABLE_CTX_STRIDE div 4) :: u32)
        in Some (if ctx < length (contexts p) \<and> word < RV_PLIC_REG_WORDS
                 then ucast (enable (contexts p ! ctx) ! word) else 0, p, m)
      else
        let rel = offset - PLIC_CTX_BASE;
            ctx = unat (ucast (rel div PLIC_CTX_STRIDE) :: u32);
            reg = ucast (rel mod PLIC_CTX_STRIDE) :: u32
        in if ctx < length (contexts p) then
             if reg = 0x000 then Some (ucast (threshold (contexts p ! ctx)), p, m)
             else if reg = 0x004 then
               let (src, p, m) = plic_do_claim ctx p m in Some (ucast src, p, m)
             else Some (0, p, m)
           else Some (0, p, m))"

definition set_enable :: "nat \<Rightarrow> nat \<Rightarrow> u32 \<Rightarrow> rv_plic \<Rightarrow> rv_plic" where
  "set_enable ctx word v p =
     p\<lparr>contexts := (contexts p)[ctx := (contexts p ! ctx)\<lparr>enable := (enable (contexts p ! ctx))[word := v]\<rparr>]\<rparr>"

definition set_threshold :: "nat \<Rightarrow> u32 \<Rightarrow> rv_plic \<Rightarrow> rv_plic" where
  "set_threshold ctx v p = p\<lparr>contexts := (contexts p)[ctx := (contexts p ! ctx)\<lparr>threshold := v\<rparr>]\<rparr>"

definition set_priority :: "nat \<Rightarrow> u32 \<Rightarrow> rv_plic \<Rightarrow> rv_plic" where
  "set_priority src v p = p\<lparr>priority := (priority p)[src := v]\<rparr>"

definition plic_write ::
  "u64 \<Rightarrow> u8 \<Rightarrow> u64 \<Rightarrow> rv_plic \<Rightarrow> 'd emu_machine \<Rightarrow> (rv_plic \<times> 'd emu_machine) option" where
  "plic_write offset sz value p m =
     (let v32 = ucast value :: u32
      in if sz \<noteq> 4 then None
         else if offset < PLIC_PENDING_BASE then
           let src = unat (ucast (offset div 4) :: u32)
           in if src \<ge> 1 \<and> src \<le> RV_PLIC_NUM_SOURCES
              then let p = set_priority src v32 p in Some (p, plic_update_harts p m)
              else Some (p, m)
         else if offset < PLIC_ENABLE_BASE then Some (p, m)
         else if offset < PLIC_CTX_BASE then
           let rel = offset - PLIC_ENABLE_BASE;
               ctx = unat (ucast (rel div PLIC_ENABLE_CTX_STRIDE) :: u32);
               word = unat (ucast (rel mod PLIC_ENABLE_CTX_STRIDE div 4) :: u32)
           in if ctx < length (contexts p) \<and> word < RV_PLIC_REG_WORDS
              then let p = set_enable ctx word v32 p in Some (p, plic_update_harts p m)
              else Some (p, m)
         else
           let rel = offset - PLIC_CTX_BASE;
               ctx = unat (ucast (rel div PLIC_CTX_STRIDE) :: u32);
               reg = ucast (rel mod PLIC_CTX_STRIDE) :: u32
           in if ctx < length (contexts p) \<and> reg = 0x000
              then let p = set_threshold ctx v32 p in Some (p, plic_update_harts p m)
              else Some (p, m))"

text \<open>\<open>p\<close> is the zero-filled struct the caller passes; \<open>ok\<close> says whether the host gave the memory and
  the lock.\<close>

definition rv_plic_init :: "bool \<Rightarrow> rv_plic \<Rightarrow> 'd emu_machine \<Rightarrow> rv_plic option" where
  "rv_plic_init ok p m =
     (if ok then Some (p\<lparr>contexts := replicate (length (cpus m) * 2) \<lparr>threshold = 0, enable = [0, 0]\<rparr>\<rparr>)
      else None)"

definition rv_plic_destroy :: "rv_plic \<Rightarrow> rv_plic" where
  "rv_plic_destroy p = p\<lparr>contexts := []\<rparr>"

definition rv_plic_set_pending :: "nat \<Rightarrow> rv_plic \<Rightarrow> 'd emu_machine \<Rightarrow> rv_plic \<times> 'd emu_machine" where
  "rv_plic_set_pending source p m =
     (if source = 0 \<or> source > RV_PLIC_NUM_SOURCES then (p, m)
      else
        let p = p\<lparr>pending := (pending p)[source div 32 :=
                  pending p ! (source div 32) OR push_bit (source mod 32) 1]\<rparr>
        in (p, plic_update_harts p m))"

definition rv_plic_mmio_region :: "nat \<Rightarrow> u64 \<Rightarrow> emu_mmio_region" where
  "rv_plic_mmio_region dev base = \<lparr>mr_base = base, mr_size = PLIC_REGION_SIZE, mr_device = dev\<rparr>"

section \<open>The invariant\<close>

definition wf_plic :: "nat \<Rightarrow> rv_plic \<Rightarrow> bool" where
  "wf_plic n p \<longleftrightarrow>
     length (priority p) = RV_PLIC_NUM_SOURCES + 1 \<and> length (pending p) = RV_PLIC_REG_WORDS + 1
     \<and> length (contexts p) = 2 * n \<and> list_all (\<lambda>c. length (enable c) = RV_PLIC_REG_WORDS) (contexts p)"

lemma wf_update_ctx: "wf_machine m \<Longrightarrow> wf_next m (plic_update_ctx p ctx m)"
  by (auto simp: plic_update_ctx_def Let_def wf_next_def intro!: wf_irq)

lemma wf_update_fold: "wf_machine m \<Longrightarrow> wf_next m (fold (plic_update_ctx p) cs m)"
proof (induction cs arbitrary: m)
  case (Cons c cs)
  have "wf_next m (plic_update_ctx p c m)" by (rule wf_update_ctx [OF Cons.prems])
  then show ?case using Cons.IH [OF wf_nextD] wf_next_trans by fastforce
qed (simp add: wf_next_refl)

lemma wf_update_harts: "wf_machine m \<Longrightarrow> wf_next m (plic_update_harts p m)"
  unfolding plic_update_harts_def by (rule wf_update_fold)

text \<open>Whatever the controller's state, its operations keep the machine's invariant.\<close>

lemma wf_do_claim: "wf_machine m \<Longrightarrow> plic_do_claim ctx p m = (v, p', m') \<Longrightarrow> wf_next m m'"
  by (auto simp: plic_do_claim_def Let_def wf_next_refl wf_update_harts split: if_splits)

lemma wf_plic_read: "wf_machine m \<Longrightarrow> plic_read off sz p m = Some (v, p', m') \<Longrightarrow> wf_next m m'"
  by (auto simp: plic_read_def Let_def wf_next_refl wf_do_claim split: if_splits prod.splits)

lemma wf_plic_write: "wf_machine m \<Longrightarrow> plic_write off sz v p m = Some (p', m') \<Longrightarrow> wf_next m m'"
  by (auto simp: plic_write_def Let_def wf_next_refl wf_update_harts split: if_splits)

lemma wf_plic_set_pending: "wf_machine m \<Longrightarrow> rv_plic_set_pending src p m = (p', m') \<Longrightarrow> wf_next m m'"
  by (auto simp: rv_plic_set_pending_def Let_def wf_next_refl wf_update_harts split: if_splits)

lemma wf_set_context:
  assumes "wf_plic n p" and "c < length (contexts p) \<Longrightarrow> length (enable x) = length (enable (contexts p ! c))"
  shows "wf_plic n (p\<lparr>contexts := (contexts p)[c := x]\<rparr>)"
proof -
  have "c < length (contexts p) \<Longrightarrow> length (enable x) = 2"
    using assms by (auto simp: wf_plic_def list_all_length)
  with assms(1) show ?thesis by (simp add: wf_plic_def list_all_update)
qed

lemma wf_plic_updates [simp]:
  "wf_plic n p \<Longrightarrow> wf_plic n (set_threshold c v p)" "wf_plic n p \<Longrightarrow> wf_plic n (set_enable c w v p)"
  by (simp_all add: set_threshold_def set_enable_def wf_set_context)

lemma wf_plic_words [simp]:
  "wf_plic n (clear_pending s p) = wf_plic n p" "wf_plic n (set_priority s v p) = wf_plic n p"
  by (simp_all add: wf_plic_def clear_pending_def set_priority_def)

text \<open>The lines are all the controller changes of a core.\<close>

lemma irq_frame:
  "csr (get_cpu (irq_set h b m) k) = csr (get_cpu m k)" "privilege (get_cpu (irq_set h b m) k) = privilege (get_cpu m k)"
  "pc (get_cpu (irq_set h b m) k) = pc (get_cpu m k)" "csr (get_cpu (irq_clear h b m) k) = csr (get_cpu m k)"
  "privilege (get_cpu (irq_clear h b m) k) = privilege (get_cpu m k)" "pc (get_cpu (irq_clear h b m) k) = pc (get_cpu m k)"
  by (cases "h < length (cpus m)"; cases "h = k"; simp add: irq_set_def irq_clear_def put_cpu_def list_update_beyond)+

lemma update_fold_frame:
  "csr (get_cpu (fold (plic_update_ctx p) cs m) k) = csr (get_cpu m k)
    \<and> privilege (get_cpu (fold (plic_update_ctx p) cs m) k) = privilege (get_cpu m k)
    \<and> pc (get_cpu (fold (plic_update_ctx p) cs m) k) = pc (get_cpu m k)"
  by (induction cs arbitrary: m) (simp_all add: plic_update_ctx_def Let_def irq_frame)

lemma update_harts_frame:
  "csr (get_cpu (plic_update_harts p m) k) = csr (get_cpu m k)"
  "privilege (get_cpu (plic_update_harts p m) k) = privilege (get_cpu m k)"
  "pc (get_cpu (plic_update_harts p m) k) = pc (get_cpu m k)"
  by (simp_all add: plic_update_harts_def update_fold_frame)

section \<open>The interrupt lines\<close>

text \<open>The two lines of a core show what its two contexts have to deliver.\<close>

definition lines_ok :: "rv_plic \<Rightarrow> 'd emu_machine \<Rightarrow> bool" where
  "lines_ok p m \<longleftrightarrow> list_all (\<lambda>h.
     bit (irq_pending (get_cpu m h)) RV_PLIC_MEIP_BIT = plic_has_irq p (2 * h)
     \<and> bit (irq_pending (get_cpu m h)) RV_PLIC_SEIP_BIT = plic_has_irq p (2 * h + 1)) [0..<length (cpus m)]"

definition plic_line :: "nat \<Rightarrow> nat" where
  "plic_line ctx = (if ctx mod 2 = 0 then RV_PLIC_MEIP_BIT else RV_PLIC_SEIP_BIT)"

lemma update_ctx_length [simp]: "length (cpus (plic_update_ctx p ctx m)) = length (cpus m)"
  by (simp add: plic_update_ctx_def Let_def)

lemma update_ctx_bit:
  assumes "h < length (cpus m)"
  shows "bit (irq_pending (get_cpu (plic_update_ctx p ctx m) h)) k =
    (if ctx div 2 = h \<and> k = plic_line ctx then plic_has_irq p ctx else bit (irq_pending (get_cpu m h)) k)"
proof (cases "ctx div 2 = h")
  case True
  with assms show ?thesis by (auto simp: plic_update_ctx_def plic_line_def Let_def)
next
  case False
  then show ?thesis by (simp add: plic_update_ctx_def Let_def irq_set_def irq_clear_def)
qed

lemma update_fold_bit:
  assumes "h < length (cpus m)"
  shows "bit (irq_pending (get_cpu (fold (plic_update_ctx p) cs m) h)) k =
    (if \<exists>ctx \<in> set cs. ctx div 2 = h \<and> k = plic_line ctx
     then plic_has_irq p (if k = RV_PLIC_MEIP_BIT then 2 * h else 2 * h + 1)
     else bit (irq_pending (get_cpu m h)) k)"
  using assms
proof (induction cs arbitrary: m)
  case (Cons c cs)
  have c: "c = (if plic_line c = RV_PLIC_MEIP_BIT then 2 * (c div 2) else 2 * (c div 2) + 1)"
    by (simp add: plic_line_def) presburger
  show ?case
    using Cons.IH [of "plic_update_ctx p c m"] Cons.prems c by (auto simp: update_ctx_bit)
qed simp

lemma update_harts_bit:
  assumes "h < length (cpus m)" and "wf_plic (length (cpus m)) p"
  shows "bit (irq_pending (get_cpu (plic_update_harts p m) h)) k =
    (if k = RV_PLIC_MEIP_BIT then plic_has_irq p (2 * h)
     else if k = RV_PLIC_SEIP_BIT then plic_has_irq p (2 * h + 1) else bit (irq_pending (get_cpu m h)) k)"
proof -
  have n: "length (contexts p) = 2 * length (cpus m)" using assms(2) by (simp add: wf_plic_def)
  have "(\<exists>ctx \<in> set [0..<length (contexts p)]. ctx div 2 = h \<and> k = plic_line ctx)
      \<longleftrightarrow> k = RV_PLIC_MEIP_BIT \<or> k = RV_PLIC_SEIP_BIT" (is "?l \<longleftrightarrow> ?r")
  proof
    assume ?r
    then show ?l
      using assms(1) n by (auto simp: plic_line_def intro: bexI [of _ "2 * h"] bexI [of _ "2 * h + 1"])
  qed (auto simp: plic_line_def split: if_splits)
  then show ?thesis
    by (simp add: plic_update_harts_def update_fold_bit [OF assms(1)])
qed

lemma update_harts_lines:
  assumes "wf_plic (length (cpus m)) p" and "wf_machine m"
  shows "lines_ok p (plic_update_harts p m)"
  using assms wf_update_harts [OF assms(2), of p]
  by (auto simp: lines_ok_def list_all_iff update_harts_bit wf_next_def)

text \<open>What an operation of the controller leaves: both invariants and the lines.\<close>

definition plic_ok :: "'d emu_machine \<Rightarrow> rv_plic \<times> 'd emu_machine \<Rightarrow> bool" where
  "plic_ok m r \<longleftrightarrow> wf_plic (length (cpus m)) (fst r) \<and> wf_next m (snd r) \<and> lines_ok (fst r) (snd r)"

lemma plic_ok_update:
  "wf_machine m \<Longrightarrow> wf_plic (length (cpus m)) p \<Longrightarrow> plic_ok m (p, plic_update_harts p m)"
  by (simp add: plic_ok_def wf_update_harts update_harts_lines)

lemma plic_ok_same:
  "wf_machine m \<Longrightarrow> wf_plic (length (cpus m)) p \<Longrightarrow> lines_ok p m \<Longrightarrow> plic_ok m (p, m)"
  by (simp add: plic_ok_def wf_next_refl)

lemma plic_ok_claim:
  "wf_machine m \<Longrightarrow> wf_plic (length (cpus m)) p \<Longrightarrow> lines_ok p m \<Longrightarrow> plic_ok m (snd (plic_do_claim ctx p m))"
  by (simp add: plic_do_claim_def Let_def plic_ok_update plic_ok_same)


section \<open>Claiming\<close>

definition is_best :: "rv_plic \<Rightarrow> nat \<Rightarrow> nat list \<Rightarrow> nat \<times> u32 \<Rightarrow> bool" where
  "is_best p ctx xs b \<longleftrightarrow>
     (if fst b = 0 then snd b = 0 \<and> list_all (\<lambda>s. \<not> plic_eligible p ctx s) xs
      else fst b \<in> set xs \<and> plic_eligible p ctx (fst b) \<and> snd b = priority p ! fst b
        \<and> list_all (\<lambda>s. plic_eligible p ctx s \<longrightarrow>
             priority p ! s < snd b \<or> priority p ! s = snd b \<and> fst b \<le> s) xs)"

lemma eligible_priority: "plic_eligible p ctx s \<Longrightarrow> 0 < priority p ! s"
  by (auto simp: plic_eligible_def intro: le_less_trans [rotated])

lemma is_best_step:
  assumes "is_best p ctx xs b" and "\<And>s. s \<in> set xs \<Longrightarrow> s < x" and "0 < x"
  shows "is_best p ctx (xs @ [x]) (claim_step p ctx x b)"
proof (cases "plic_eligible p ctx x \<and> priority p ! x > snd b")
  case True
  then have "priority p ! s < priority p ! x" if "s \<in> set xs" "plic_eligible p ctx s" for s
    using assms(1) that by (auto simp: is_best_def list_all_iff split: if_splits)
  with True assms(3) show ?thesis by (auto simp: is_best_def claim_step_def list_all_iff)
next
  case False
  then have "\<not> plic_eligible p ctx x" if "fst b = 0"
    using that assms(1) eligible_priority by (auto simp: is_best_def)
  with False assms(1,2) show ?thesis
    by (auto simp: is_best_def claim_step_def not_less le_less dest: less_imp_le split: if_splits)
qed

lemma claim_fold:
  "sorted_wrt (<) xs \<Longrightarrow> list_all (\<lambda>s. 0 < s) xs \<Longrightarrow> is_best p ctx xs (fold (claim_step p ctx) xs (0, 0))"
proof (induction xs rule: rev_induct)
  case (snoc x xs)
  then show ?case using is_best_step [OF snoc.IH] by (simp add: sorted_wrt_append)
qed (simp add: is_best_def)

lemma plic_best_is_best: "is_best p ctx plic_sources (plic_best p ctx, snd (fold (claim_step p ctx) plic_sources (0, 0)))"
  using claim_fold [of plic_sources p ctx] by (simp add: plic_best_def plic_sources_def list_all_iff)

lemma clear_pending_bit:
  assumes "src div 32 < length (pending p)" and "i < length (pending p)" and "k < 32"
  shows "bit (pending (clear_pending src p) ! i) k \<longleftrightarrow> bit (pending p ! i) k \<and> (i, k) \<noteq> (src div 32, src mod 32)"
  using assms by (auto simp: clear_pending_def nth_list_update bit_simps dest: bit_imp_le_length)

definition claim_offset :: "nat \<Rightarrow> u64" where
  "claim_offset ctx = PLIC_CTX_BASE + of_nat ctx * PLIC_CTX_STRIDE + 4"

lemma claim_read:
  assumes "ctx < 0x200" and "ctx < length (contexts p)"
  shows "plic_read (claim_offset ctx) 4 p m = (let (src, p, m) = plic_do_claim ctx p m in Some (ucast src, p, m))"
proof -
  define rel where "rel = claim_offset ctx - PLIC_CTX_BASE"
  have u: "unat (claim_offset ctx) = 0x200004 + ctx * 0x1000" "unat rel = ctx * 0x1000 + 4"
    using assms(1) by (simp_all add: rel_def claim_offset_def unat_word_ariths unat_of_nat)
  then have "rel div 0x1000 = of_nat ctx" and "rel mod 0x1000 = 4"
    using assms(1) by (simp_all add: word_unat_eq_iff unat_div unat_mod unat_of_nat)
  moreover have "unat (ucast (of_nat ctx :: u64) :: u32) = ctx"
    using assms(1) by (simp add: unsigned_ucast_eq unsigned_take_bit_eq take_bit_eq_mod unat_of_nat)
  moreover have "\<not> claim_offset ctx < PLIC_PENDING_BASE" "\<not> claim_offset ctx < PLIC_ENABLE_BASE"
      "\<not> claim_offset ctx < PLIC_CTX_BASE"
    using u by (simp_all add: word_less_nat_alt)
  ultimately show ?thesis
    using assms(2) by (simp add: plic_read_def Let_def flip: rel_def)
qed

text \<open>C35: a claim takes the most urgent interrupt. Reading the claim register of a context returns 0
  and changes nothing if no source is eligible there; otherwise it returns an eligible source of
  the greatest priority, the lowest-numbered of them, clears that source's pending bit and no
  other, and drives the lines of the cores from what is left.\<close>
theorem plic_claim_takes_highest:
  fixes m :: "'d emu_machine"
  assumes "wf_plic n p" and "ctx < 2 * n" and "ctx < 0x200"
  shows "if \<exists>s \<in> set plic_sources. plic_eligible p ctx s
    then \<exists>src. src \<in> set plic_sources \<and> plic_eligible p ctx src
      \<and> plic_read (claim_offset ctx) 4 p m = Some (of_nat src, clear_pending src p, plic_update_harts (clear_pending src p) m)
      \<and> (\<forall>s \<in> set plic_sources. plic_eligible p ctx s \<longrightarrow>
           priority p ! s < priority p ! src \<or> priority p ! s = priority p ! src \<and> src \<le> s)
      \<and> (\<forall>i < 3. \<forall>k < 32. bit (pending (clear_pending src p) ! i) k
           \<longleftrightarrow> bit (pending p ! i) k \<and> (i, k) \<noteq> (src div 32, src mod 32))
    else plic_read (claim_offset ctx) 4 p m = Some (0, p, m)"
proof -
  let ?s = "plic_best p ctx"
  have ctx: "ctx < length (contexts p)" and words: "length (pending p) = 3"
    using assms by (simp_all add: wf_plic_def)
  note read = claim_read [OF assms(3) ctx, of m]
  note best = plic_best_is_best [of p ctx]
  show ?thesis
  proof (cases "?s = 0")
    case True
    then have "\<not> (\<exists>s \<in> set plic_sources. plic_eligible p ctx s)"
      using best by (auto simp: is_best_def list_all_iff)
    with True show ?thesis using ctx by (simp add: read plic_do_claim_def)
  next
    case False
    then have s: "?s \<in> set plic_sources" "plic_eligible p ctx ?s"
        "\<forall>s \<in> set plic_sources. plic_eligible p ctx s \<longrightarrow>
          priority p ! s < priority p ! ?s \<or> priority p ! s = priority p ! ?s \<and> ?s \<le> s"
      using best by (auto simp: is_best_def list_all_iff)
    then have "?s div 32 < 3" and "unat (of_nat ?s :: u32) = ?s"
      by (auto simp: plic_sources_def unat_of_nat)
    then have "ucast (of_nat ?s :: u32) = (of_nat ?s :: u64)"
      by (simp add: word_unat_eq_iff unsigned_ucast_eq unsigned_take_bit_eq take_bit_eq_mod unat_of_nat)
    then have "plic_read (claim_offset ctx) 4 p m
        = Some (of_nat ?s, clear_pending ?s p, plic_update_harts (clear_pending ?s p) m)"
      using False ctx by (simp add: read plic_do_claim_def Let_def)
    moreover have "\<forall>i < 3. \<forall>k < 32. bit (pending (clear_pending ?s p) ! i) k
        \<longleftrightarrow> bit (pending p ! i) k \<and> (i, k) \<noteq> (?s div 32, ?s mod 32)"
      using clear_pending_bit [of ?s p] words \<open>?s div 32 < 3\<close> by simp
    ultimately show ?thesis using s by auto
  qed
qed

text \<open>No write to an enable register controls source 64. Such a write leaves source 64 as
  eligible as it was, in every context; whether it counts as enabled there is bit 0 of the next
  context's threshold.\<close>
lemma plic_source_64_ignores_enables:
  fixes m :: "'d emu_machine"
  assumes "PLIC_ENABLE_BASE \<le> off" and "off < PLIC_CTX_BASE" and "wf_plic n p" and "ctx + 1 < 2 * n"
  shows "\<exists>p' m'. plic_write off 4 v p m = Some (p', m')
    \<and> plic_eligible p' ctx 64 = plic_eligible p ctx 64
    \<and> plic_eligible p ctx 64 = (bit (pending p ! 2) 0 \<and> bit (threshold (contexts p ! (ctx + 1))) 0
        \<and> priority p ! 64 > threshold (contexts p ! ctx))"
proof -
  have n: "ctx + 1 < length (contexts p)" using assms by (simp add: wf_plic_def)
  have same: "threshold ((contexts p)[c := (contexts p ! c)\<lparr>enable := e\<rparr>] ! i) = threshold (contexts p ! i)"
    if "i < length (contexts p)" for c e i
    using that by (cases "c = i") simp_all
  have el: "plic_eligible q ctx 64 = (bit (pending q ! 2) 0 \<and> bit (threshold (contexts q ! (ctx + 1))) 0
      \<and> priority q ! 64 > threshold (contexts q ! ctx))" if "ctx + 1 < length (contexts q)" for q
    using that by (simp add: plic_eligible_def enable_word_def)
  have "plic_eligible (set_enable c w x p) ctx 64 = plic_eligible p ctx 64" for c w x
    using n same [of "ctx + 1"] same [of ctx] by (simp add: el set_enable_def)
  moreover have "\<not> off < PLIC_PENDING_BASE" "\<not> off < PLIC_ENABLE_BASE"
    using assms(1) by (auto simp: word_le_nat_alt word_less_nat_alt)
  ultimately show ?thesis
    using assms(2) el [OF n] by (simp add: plic_write_def Let_def)
qed

section \<open>An instance\<close>

text \<open>The controller of a machine with one core: sources 3 and 9 are pending and enabled in the
  machine context, 9 is the more urgent one.\<close>

definition plic_demo :: rv_plic where
  "plic_demo = \<lparr>priority = (replicate 65 0)[3 := 1, 9 := 5], pending = [0x208, 0, 0],
     contexts = [\<lparr>threshold = 0, enable = [0x208, 0]\<rparr>, \<lparr>threshold = 0, enable = [0, 0]\<rparr>], after_contexts = 0\<rparr>"

lemma wf_plic_demo: "wf_plic 1 plic_demo" by (simp add: wf_plic_def plic_demo_def)


lemma plic_claim_takes_highest_witness:
  "plic_read 0x200004 4 plic_demo demo_machine
    = Some (9, clear_pending 9 plic_demo, plic_update_harts (clear_pending 9 plic_demo) demo_machine)"
proof -
  have e: "plic_eligible plic_demo 0 s \<longleftrightarrow> s = 3 \<or> s = 9" if "s \<in> set plic_sources" for s
    using that by (auto simp: plic_eligible_def enable_word_def plic_demo_def plic_sources_def nth_list_update)
  have n: "3 \<in> set plic_sources" "9 \<in> set plic_sources" by (simp_all add: plic_sources_def)
  have p: "priority plic_demo ! 3 = 1" "priority plic_demo ! 9 = 5" by (simp_all add: plic_demo_def)
  have "\<exists>s \<in> set plic_sources. plic_eligible plic_demo 0 s" using e n by blast
  with plic_claim_takes_highest [OF wf_plic_demo, of 0 demo_machine] obtain src where
    src: "src \<in> set plic_sources" "plic_eligible plic_demo 0 src"
      "plic_read (claim_offset 0) 4 plic_demo demo_machine
        = Some (of_nat src, clear_pending src plic_demo, plic_update_harts (clear_pending src plic_demo) demo_machine)"
    and top: "\<forall>s \<in> set plic_sources. plic_eligible plic_demo 0 s \<longrightarrow>
      priority plic_demo ! s < priority plic_demo ! src \<or> priority plic_demo ! s = priority plic_demo ! src \<and> src \<le> s"
    by auto
  then have "src = 9" using e n p bspec [OF top n(2)] by auto
  with src(3) show ?thesis by (simp add: claim_offset_def)
qed

lemma plic_source_64_ignores_enables_witness:
  "\<exists>p' m'. plic_write 0x2000 4 0 plic_demo demo_machine = Some (p', m')
    \<and> plic_eligible p' 0 64 = plic_eligible plic_demo 0 64"
  using plic_source_64_ignores_enables [OF _ _ wf_plic_demo, of "0x2000" 0 0 demo_machine] by auto

end
