(* ===== verification/RV_Board.thy ===== *)
theory RV_Board
  imports RV_Machine RV_Plic
begin

text \<open>
  A board: the machine with the emulator's own devices and the trap hook of \<open>main.c\<close>. Device 0 is
  the CLINT of the machine and device 1 the PLIC; hook 0 is \<open>ecall_hook\<close>. The devices' states and
  what the process has written and returned are the state \<open>devs\<close> of the machine. The contract the
  interpreter rests on is proved of it here, so its invariant holds in every state of a run.
\<close>

section \<open>The devices and the host\<close>

record board =
  plic :: rv_plic
  stdout :: "u8 list"
  exit_code :: "int option"

definition put_plic :: "rv_plic \<Rightarrow> board emu_machine \<Rightarrow> board emu_machine" where
  "put_plic p m = m\<lparr>devs := (devs m)\<lparr>plic := p\<rparr>\<rparr>"

text \<open>The callbacks of the two regions. A board without CLINT has no region for it.\<close>

definition board_read :: "nat \<Rightarrow> u64 \<Rightarrow> u8 \<Rightarrow> board emu_machine \<Rightarrow> bool \<times> u64 \<times> board emu_machine" where
  "board_read d off sz m =
     (if d = 0 then
        (case Option.bind (clint m) (\<lambda>c. clint_read off sz c m) of
           None \<Rightarrow> (False, 0, m) | Some v \<Rightarrow> (True, v, m))
      else
        (case plic_read off sz (plic (devs m)) m of
           None \<Rightarrow> (False, 0, m) | Some (v, p, m) \<Rightarrow> (True, v, put_plic p m)))"

definition board_write :: "nat \<Rightarrow> u64 \<Rightarrow> u8 \<Rightarrow> u64 \<Rightarrow> board emu_machine \<Rightarrow> bool \<times> board emu_machine" where
  "board_write d off sz v m =
     (if d = 0 then
        (case Option.bind (clint m) (\<lambda>c. clint_write off sz v c m) of
           None \<Rightarrow> (False, m) | Some m \<Rightarrow> (True, m))
      else
        (case plic_write off sz v (plic (devs m)) m of
           None \<Rightarrow> (False, m) | Some (p, m) \<Rightarrow> (True, put_plic p m)))"

text \<open>\<open>ecall_hook\<close>: call 1 writes a character, call 2 ends the process. \<open>exit\<close> does not return; here
  its first code is kept and the machine goes on unobserved.\<close>

definition ecall_hook :: "nat \<Rightarrow> rv_trap \<Rightarrow> board emu_machine \<Rightarrow> bool \<times> board emu_machine" where
  "ecall_hook h trap m =
     (let cpu = get_cpu m h
      in if trap_cause trap = rv_cause_code RV_CAUSE_ECALL_M \<and> xregs cpu ! 17 = 1
         then (False, m\<lparr>devs := (devs m)\<lparr>stdout := stdout (devs m) @ [ucast (xregs cpu ! 10)]\<rparr>\<rparr>)
         else if trap_cause trap = rv_cause_code RV_CAUSE_ECALL_M \<and> xregs cpu ! 17 = 2
         then (False, m\<lparr>devs := (devs m)\<lparr>exit_code :=
                (case exit_code (devs m) of
                   None \<Rightarrow> Some (sint (ucast (xregs cpu ! 10) :: 32 word)) | Some c \<Rightarrow> Some c)\<rparr>\<rparr>)
         else (True, m))"

definition board_env :: "board emu_env" where
  "board_env =
     \<lparr>mmio_read_fn = board_read, mmio_write_fn = board_write, trap_hook_fn = (\<lambda>_. ecall_hook)\<rparr>"

text \<open>A device on the board raises its interrupt.\<close>

definition board_raise :: "nat \<Rightarrow> board emu_machine \<Rightarrow> board emu_machine" where
  "board_raise src m = (let (p, m) = rv_plic_set_pending src (plic (devs m)) m in put_plic p m)"

definition board_event :: "board emu_machine \<Rightarrow> board emu_machine \<Rightarrow> bool" where
  "board_event m m' \<longleftrightarrow> (\<exists>src. m' = board_raise src m)"

section \<open>The machine of the main program\<close>

text \<open>
  \<open>main\<close> runs a core that is a variable of its own: the machine's core and reservation arrays stay
  empty. Here it is core 0, with no reservation entry; \<open>bs\<close> is the program's image.
\<close>

definition main_machine :: "u8 list \<Rightarrow> rv_plic \<Rightarrow> u64 \<Rightarrow> board emu_machine" where
  "main_machine bs p t =
     (zero_machine \<lparr>plic = p, stdout = [], exit_code = None\<rparr> t)
       \<lparr>ram_start := 0x10000, ram_end := 0x10000 + of_nat (length bs),
        ram := (\<lambda>i. if i < length bs then bs ! i else 0), ram_alloc := length bs,
        trap_hook := (replicate 32 None)[11 := Some 0],
        cpus := [cpu_zero\<lparr>privilege := 3, pc := 0x10000\<rparr>]\<rparr>"

section \<open>The contract\<close>

lemma wf_devs [simp]: "wf_machine (m\<lparr>devs := d\<rparr>) = wf_machine m"
  by (simp add: wf_machine_def split: option.splits)

lemma wf_next_devs [simp]: "wf_next m (m'\<lparr>devs := d\<rparr>) = wf_next m m'"
  "wf_next m (put_plic p m') = wf_next m m'"
  by (simp_all add: wf_next_def put_plic_def)

lemma board_raise_wf: "wf_machine m \<Longrightarrow> wf_next m (board_raise src m)"
  by (auto simp: board_raise_def split: prod.splits dest: wf_plic_set_pending)

interpretation board: emu_devices board_env board_event
proof
  fix m m' :: "board emu_machine" and d off sz ok v
  assume "wf_machine m" and "mmio_read_fn board_env d off sz m = (ok, v, m')"
  then show "wf_next m m'"
    by (auto simp: board_env_def board_read_def wf_next_refl split: if_splits option.splits dest: wf_plic_read)
next
  fix m m' :: "board emu_machine" and d off sz ok v
  assume "wf_machine m" and "mmio_write_fn board_env d off sz v m = (ok, m')"
  then show "wf_next m m'"
    by (auto simp: board_env_def board_write_def wf_next_refl split: if_splits option.splits bind_splits
        dest: wf_plic_write wf_clint_write)
next
  fix m m' :: "board emu_machine" and f h t ok
  assume "wf_machine m" and "trap_hook_fn board_env f h t m = (ok, m')"
  then show "wf_next m m'"
    by (auto simp: board_env_def ecall_hook_def Let_def wf_next_refl split: if_splits)
next
  fix m m' :: "board emu_machine"
  assume "wf_machine m" and "board_event m m'"
  then show "wf_next m m'" by (auto simp: board_event_def board_raise_wf)
qed

section \<open>Runs\<close>

text \<open>C36: the invariant of the machine holds in every state of a run. A machine that
  \<open>emu_machine_init\<close> made, with its CLINT and both regions registered, is well-formed, and it stays
  so with the same cores whatever the cores execute, in whatever order they take turns, however the
  clock advances and whenever devices raise interrupts.\<close>
theorem board_run_invariant:
  assumes "emu_machine_init True (zero_machine d t) n start sz = Some m0"
    and "n < 2 ^ 64" and "unat start + unat sz < 2 ^ 64"
    and "rv_clint_init True m0 = Some c"
    and "emu_machine_add_mmio True (rv_clint_mmio_region 0 RV_CLINT_BASE) (m0\<lparr>clint := Some c\<rparr>) = Some m1"
    and "emu_machine_add_mmio True (rv_plic_mmio_region 1 base) m1 = Some m2"
    and "emu_machine_run fp board_env board_event m2 m"
  shows "wf_machine m \<and> length (cpus m) = n"
proof -
  have w0: "wf_machine m0" and n0: "length (cpus m0) = n"
    using wf_machine_init [OF assms(1-3)] assms(1)
    by (simp_all add: zero_machine_def) (auto simp: emu_machine_init_def)
  have "wf_clint (length (cpus m0)) c"
    using assms(4) by (auto simp: rv_clint_init_def Let_def wf_clint_def)
  then have "wf_machine (m0\<lparr>clint := Some c\<rparr>)" by (rule wf_set_clint [OF w0])
  then have "wf_machine m2"
    using wf_add_mmio [OF assms(5)] wf_add_mmio [OF assms(6)] by simp
  moreover have "length (cpus m2) = n"
    using assms(5,6) n0 by (auto simp: emu_machine_add_mmio_def)
  ultimately show ?thesis
    using board.run_wf [OF assms(7)] by (simp add: wf_next_def)
qed


section \<open>Calls of the main program\<close>

lemma ecall_dispatch:
  assumes "privilege (get_cpu m h) = 3" and "trap_hook m ! 11 = Some f"
  shows "rv_forcefeed_insn fp board_env h 0x73 m =
    (case ecall_hook h \<lparr>trap_epc = epc (get_cpu m h), trap_tval = 0, trap_cause = rv_cause_code RV_CAUSE_ECALL_M\<rparr> m of
       (True, x) \<Rightarrow> Some (put_cpu h (take_trap (get_cpu x h) \<lparr>trap_epc = epc (get_cpu m h), trap_tval = 0, trap_cause = rv_cause_code RV_CAUSE_ECALL_M\<rparr>) x)
     | (False, x) \<Rightarrow> Some x)"
proof -
  have "rv_op_maj_of (RV_INSN_OP_MAJ 0x73) = Some RV_OP_MAJ_SYSTEM" and "RV_INSN_FUNCT3 0x73 = 0"
    by code_simp+
  moreover have "drop_bit 63 (11 :: u64) = 0" "drop_bit 25 (0x73 :: u32) = 0" by simp_all
  ultimately show ?thesis
    using assms by (simp add: rv_forcefeed_insn_def rv_base_system_def ecall_cause_def rv_do_trap_def board_env_def Let_def)
qed

text \<open>The two calls of the main program. In machine mode an \<open>ecall\<close> with 1 in a7 writes the low
  byte of a0 and one with 2 ends the process with the code in a0, read as an int; neither traps.
  Any other number is the environment call of the architecture.\<close>
lemma ecall_serves_calls:
  fixes m :: "board emu_machine" and h :: nat
  defines "c \<equiv> get_cpu m h"
  assumes "privilege c = 3" and "trap_hook m ! 11 = Some f"
  shows "rv_forcefeed_insn fp board_env h 0x73 m =
    Some (if xregs c ! 17 = 1
          then m\<lparr>devs := (devs m)\<lparr>stdout := stdout (devs m) @ [ucast (xregs c ! 10)]\<rparr>\<rparr>
          else if xregs c ! 17 = 2
          then m\<lparr>devs := (devs m)\<lparr>exit_code := (case exit_code (devs m) of
                 None \<Rightarrow> Some (sint (ucast (xregs c ! 10) :: 32 word)) | Some x \<Rightarrow> Some x)\<rparr>\<rparr>
          else put_cpu h (take_trap c \<lparr>trap_epc = epc c, trap_tval = 0, trap_cause = rv_cause_code RV_CAUSE_ECALL_M\<rparr>) m)"
  using assms(2,3) unfolding c_def by (simp add: ecall_dispatch ecall_hook_def Let_def)

section \<open>Interrupts from end to end\<close>

lemma pick_external:
  assumes "bit (irq_pending c) 11" and "bit (mie (csr c)) 11" and "\<not> bit (mideleg (csr c)) 11"
    and "privilege c < 3 \<or> bit (mstatus (csr c)) RV_STATUS_MIE_BIT"
  shows "pick_interrupt c = Some RV_INTR_MEIP"
proof -
  let ?p = "irq_pending c AND mie (csr c)"
  have b: "bit (?p AND NOT (mideleg (csr c))) 11" "bit ?p 11" using assms(1-3) by (simp_all add: bit_simps)
  then have "?p \<noteq> 0" "?p AND NOT (mideleg (csr c)) \<noteq> 0" by (metis bit_0_eq bot_apply bot_boolE)+
  with b(1) assms(4) show ?thesis
    by (simp add: pick_interrupt_def Let_def irq_priority_def and_single_bit and_one_bit del: push_bit_of_1 push_bit_numeral)
qed

text \<open>C38: a device's interrupt reaches the handler. When a device raises a source that a core's
  machine context enables above its threshold, and the core has the machine external interrupt
  enabled and not delegated, the core's next look for an interrupt enters machine mode at the
  address of the external-interrupt handler, with the cause in mcause and the interrupted program
  counter in mepc.\<close>
theorem device_interrupt_delivered:
  fixes m :: "board emu_machine" and h :: nat
  defines "c \<equiv> get_cpu m h" and "p \<equiv> plic (devs m)"
  assumes "wf_machine m" and "h < length (cpus m)" and "wf_plic (length (cpus m)) p"
    and "0 < src" and "src \<le> RV_PLIC_NUM_SOURCES"
    and "bit (enable_word p (2 * h) (src div 32)) (src mod 32)"
    and "priority p ! src > threshold (contexts p ! (2 * h))"
    and "bit (mie (csr c)) RV_PLIC_MEIP_BIT" and "\<not> bit (mideleg (csr c)) RV_PLIC_MEIP_BIT"
    and "privilege c < 3 \<or> bit (mstatus (csr c)) RV_STATUS_MIE_BIT"
  shows "\<exists>m'. rv_check_interrupts board_env h (board_raise src m) = Some m'
    \<and> privilege (get_cpu m' h) = 3 \<and> mepc (csr (get_cpu m' h)) = pc c
    \<and> mcause (csr (get_cpu m' h)) = 0x800000000000000B
    \<and> pc (get_cpu m' h) = trap_vector (mtvec (csr c)) 0x800000000000000B"
proof -
  define q where "q = p\<lparr>pending := (pending p)[src div 32 := pending p ! (src div 32) OR push_bit (src mod 32) 1]\<rparr>"
  let ?m = "plic_update_harts q m"
  have raise: "board_raise src m = put_plic q ?m"
    using assms(6,7) by (simp add: board_raise_def rv_plic_set_pending_def p_def q_def Let_def)
  have q: "enable_word q ctx w = enable_word p ctx w" "contexts q = contexts p" "priority q = priority p"
      "length (pending q) = length (pending p)" for ctx w
    by (simp_all add: enable_word_def q_def)
  have "length (pending p) = 3" using assms(5) by (simp add: wf_plic_def)
  moreover have "src div 32 < 3" using assms(7) by simp
  ultimately have "plic_eligible q (2 * h) src"
    using assms(8,9) by (simp add: plic_eligible_def q) (simp add: q_def bit_simps)
  then have "plic_has_irq q (2 * h)"
    using assms(6,7) by (auto simp: plic_has_irq_def plic_sources_def list_ex_iff)
  moreover have "wf_plic (length (cpus m)) q" using assms(5) by (simp add: wf_plic_def q)
  ultimately have irq: "bit (irq_pending (get_cpu ?m h)) 11"
    using assms(4) by (simp add: update_harts_bit)
  have same: "csr (get_cpu ?m h) = csr c" "privilege (get_cpu ?m h) = privilege c" "pc (get_cpu ?m h) = pc c"
    by (simp_all add: update_harts_frame c_def)
  have "pick_interrupt (get_cpu (board_raise src m) h) = Some RV_INTR_MEIP"
    using assms(10-12) irq by (simp add: pick_external raise put_plic_def same)
  moreover have "mideleg (csr c) AND push_bit 11 1 = 0"
    using assms(11) and_single_bit [of "mideleg (csr c)" 11] by simp
  then have "\<not> trap_delegated (get_cpu ?m h) 0x800000000000000B"
    by (simp add: trap_delegated_def Let_def same)
  moreover have "length (cpus ?m) = length (cpus m)" using wf_update_harts [OF assms(3)] by (simp add: wf_next_def)
  ultimately show ?thesis
    using assms(4) same
    by (simp add: rv_check_interrupts_def rv_do_trap_def raise put_plic_def RV_CAUSE_INTR_FLAG_def take_trap_def)
qed

text \<open>The main program has no reservations, so a load-reserved that succeeds leaves the empty array.\<close>

lemma main_machine_reservations: "reservations (main_machine bs p t) = []"
  by (simp add: main_machine_def zero_machine_def)

lemma load_reserved_needs_reservations:
  assumes "RV_INSN_RS2 insn = 0" and "atomic_load env h addr is_32 RV_ACCESS_LOAD m = Some (RV_MEM_OK, v, m')"
    and "reservations m' = []"
  shows "rv_atomic_lr env h insn is_32 addr hart m = None"
  using assms by (simp add: rv_atomic_lr_def guard_ub_def)

section \<open>A board\<close>

text \<open>One core, 256 bytes of RAM at 0x1000, a CLINT and the PLIC of \<open>plic_demo\<close>.\<close>

definition board_demo :: board where
  "board_demo = \<lparr>plic = plic_demo, stdout = [], exit_code = None\<rparr>"

definition board_machine :: "board emu_machine" where
  "board_machine =
     (zero_machine board_demo 0)\<lparr>cpus := [reset_cpu 0], reservations := [\<lparr>res_addr = 0, res_valid = False\<rparr>],
       ram_alloc := 0x100, ram_start := 0x1000, ram_end := 0x1100\<rparr>"

lemma board_machine_init: "emu_machine_init True (zero_machine board_demo 0) 1 0x1000 0x100 = Some board_machine"
  by (simp add: emu_machine_init_def board_machine_def zero_machine_def)

lemma wf_board_machine: "wf_machine board_machine"
  by (rule wf_machine_init [OF board_machine_init]) (simp_all add: zero_machine_def)

lemma board_machine_fields [simp]:
  "cpus board_machine = [reset_cpu 0]" "devs board_machine = board_demo" "clint board_machine = None"
  "plic board_demo = plic_demo"
  by (simp_all add: board_machine_def board_demo_def zero_machine_def)

lemma board_run_invariant_witness:
  "\<exists>m2. emu_machine_run fpu_zero board_env board_event m2 (board_raise 3 (m2\<lparr>host_ns := 900\<rparr>))
    \<and> wf_machine (board_raise 3 (m2\<lparr>host_ns := 900\<rparr>)) \<and> length (mmio m2) = 2"
proof -
  let ?c = "\<lparr>epoch_ns = 0, mtimecmp = [0], deadline_ns = [0xFFFFFFFFFFFFFFFF], clint_cpu_count = 1\<rparr>"
  let ?m1 = "board_machine\<lparr>clint := Some ?c, mmio := [rv_clint_mmio_region 0 RV_CLINT_BASE]\<rparr>"
  let ?m2 = "?m1\<lparr>mmio := [rv_clint_mmio_region 0 RV_CLINT_BASE, rv_plic_mmio_region 1 0xC000000]\<rparr>"
  have c: "rv_clint_init True board_machine = Some ?c"
    by (simp add: rv_clint_init_def board_machine_def zero_machine_def)
  have m1: "emu_machine_add_mmio True (rv_clint_mmio_region 0 RV_CLINT_BASE) (board_machine\<lparr>clint := Some ?c\<rparr>) = Some ?m1"
    by (simp add: emu_machine_add_mmio_def board_machine_def zero_machine_def)
  have m2: "emu_machine_add_mmio True (rv_plic_mmio_region 1 0xC000000) ?m1 = Some ?m2"
    by (simp add: emu_machine_add_mmio_def)
  have "emu_machine_turn fpu_zero board_env board_event ?m2 (?m2\<lparr>host_ns := 900\<rparr>)"
    by (rule turn_clock) (simp add: board_machine_def zero_machine_def)
  moreover have "emu_machine_turn fpu_zero board_env board_event (?m2\<lparr>host_ns := 900\<rparr>) (board_raise 3 (?m2\<lparr>host_ns := 900\<rparr>))"
    by (rule turn_device) (auto simp: board_event_def)
  ultimately have run: "emu_machine_run fpu_zero board_env board_event ?m2 (board_raise 3 (?m2\<lparr>host_ns := 900\<rparr>))"
    by (meson r_into_rtranclp rtranclp.rtrancl_into_rtrancl)
  from board_run_invariant [OF board_machine_init _ _ c m1 m2 run] run
  show ?thesis by - (rule exI [of _ ?m2], simp)
qed


text \<open>A call of the main program: the letter A.\<close>

definition main_call :: "board emu_machine" where
  "main_call = put_cpu 0 (cpu_zero\<lparr>privilege := 3, pc := 0x10004, xregs := (replicate 32 0)[10 := 65, 17 := 1]\<rparr>)
     (main_machine [0x73, 0, 0, 0] plic_demo 0)"

lemma ecall_serves_calls_witness:
  "\<exists>m. rv_forcefeed_insn fpu_zero board_env 0 0x73 main_call = Some m \<and> stdout (devs m) = [65] \<and> cpus m = cpus main_call"
proof -
  have f: "get_cpu main_call 0 = cpu_zero\<lparr>privilege := 3, pc := 0x10004, xregs := (replicate 32 0)[10 := 65, 17 := 1]\<rparr>"
      "trap_hook main_call ! 11 = Some 0" "stdout (devs main_call) = []"
    by (simp_all add: main_call_def main_machine_def zero_machine_def put_cpu_def)
  then show ?thesis
    using ecall_serves_calls [of main_call 0 0 fpu_zero] by simp
qed

definition irq_machine :: "board emu_machine" where
  "irq_machine = put_cpu 0 (upd_csr (\<lambda>s. s\<lparr>mie := 0x800, mstatus := 8, mtvec := 0x1080\<rparr>) (reset_cpu 0)) board_machine"

lemma device_interrupt_delivered_witness:
  "\<exists>m. rv_check_interrupts board_env 0 (board_raise 3 irq_machine) = Some m
    \<and> privilege (get_cpu m 0) = 3 \<and> mcause (csr (get_cpu m 0)) = 0x800000000000000B"
proof -
  let ?c = "upd_csr (\<lambda>s. s\<lparr>mie := 0x800, mstatus := 8, mtvec := 0x1080\<rparr>) (reset_cpu 0)"
  have "wf_csr (csr ?c)" using wf_reset_cpu [of 0] by (simp add: wf_cpu_def wf_csr_def pmpcfg_unpacked_def status_masks)
  then have "keeps (reset_cpu 0) ?c"
    by (auto simp: keeps_def wf_cpu_def rv_sync_mem_privilege_def)
  then have wf: "wf_machine irq_machine"
    unfolding irq_machine_def by (intro wf_put_cpu wf_board_machine) simp
  have c: "get_cpu irq_machine 0 = ?c" "length (cpus irq_machine) = 1" "plic (devs irq_machine) = plic_demo"
    by (simp_all add: irq_machine_def)
  have "mideleg (csr (reset_cpu 0)) = 0" by (simp add: reset_cpu_def)
  moreover have "bit (0x208 :: u32) 3" by code_simp
  ultimately show ?thesis
    using device_interrupt_delivered [OF wf, of 0 3] c wf_plic_demo
    by (auto simp: enable_word_def plic_demo_def)
qed

end
