(* ===== verification/RV_Progress.thy ===== *)
theory RV_Progress
  imports RV_Board
begin

text \<open>
  When the emulator cannot fail. A model operation is \<open>None\<close> where the C code aborts, breaks an
  assertion or leaves a host object. Here every operation of a core is shown to have a result under
  conditions the guest's system software controls, so these are all the ways to such a failure: an
  address that wraps without translation, a full row of the translation cache, and an \<open>ecall\<close> in the
  reserved privilege.
\<close>

section \<open>What a memory access leaves alone\<close>

text \<open>Devices only touch a core's interrupt lines and its timer.\<close>

definition core_frame :: "rv_cpu \<Rightarrow> rv_cpu \<Rightarrow> bool" where
  "core_frame c c' \<longleftrightarrow>
     c'\<lparr>irq_pending := 0, clint_timer_armed := False\<rparr> = c\<lparr>irq_pending := 0, clint_timer_armed := False\<rparr>"

definition device_frame :: "'d emu_machine \<Rightarrow> 'd emu_machine \<Rightarrow> bool" where
  "device_frame m m' \<longleftrightarrow> (\<forall>h < length (cpus m). core_frame (get_cpu m h) (get_cpu m' h))"

lemma core_frame_refl [simp]: "core_frame c c"
  by (simp add: core_frame_def)

lemma core_frame_trans: "core_frame a b \<Longrightarrow> core_frame b c \<Longrightarrow> core_frame a c"
  by (simp add: core_frame_def)

lemma core_frameD:
  assumes "core_frame c c'"
  shows "csr c' = csr c" "privilege c' = privilege c" "mem_privilege c' = mem_privilege c"
    "xregs c' = xregs c" "tlb c' = tlb c" "pc c' = pc c" "epc c' = epc c" "fregs c' = fregs c"
  using assms [unfolded core_frame_def]
  by (auto dest: arg_cong [of _ _ csr] arg_cong [of _ _ privilege] arg_cong [of _ _ mem_privilege]
      arg_cong [of _ _ xregs] arg_cong [of _ _ tlb] arg_cong [of _ _ pc] arg_cong [of _ _ epc] arg_cong [of _ _ fregs])

lemma device_frame_same [simp]: "cpus m' = cpus m \<Longrightarrow> device_frame m m'"
  by (simp add: device_frame_def)

lemma device_frame_trans:
  "device_frame a b \<Longrightarrow> device_frame b c \<Longrightarrow> length (cpus b) = length (cpus a) \<Longrightarrow> device_frame a c"
  by (auto simp: device_frame_def intro: core_frame_trans)

text \<open>\<open>both\<close> collects the invariant and the frame, as the loop needs them together.\<close>

definition both :: "'d emu_machine \<Rightarrow> 'd emu_machine \<Rightarrow> bool" where
  "both m x \<longleftrightarrow> wf_next m x \<and> device_frame m x"

text \<open>The callbacks of such devices.\<close>

locale emu_isolated = emu_callbacks env for env :: "'d emu_env" +
  assumes read_frame: "wf_machine m \<Longrightarrow> mmio_read_fn env d off sz m = (ok, v, m') \<Longrightarrow> device_frame m m'"
    and write_frame: "wf_machine m \<Longrightarrow> mmio_write_fn env d off sz v m = (ok, m') \<Longrightarrow> device_frame m m'"
begin

lemma both_refl: "wf_machine m \<Longrightarrow> both m m"
  by (simp add: both_def wf_next_refl)

lemma both_trans: "both a b \<Longrightarrow> both b c \<Longrightarrow> both a c"
  by (auto simp: both_def wf_next_def intro: device_frame_trans)

lemma bothD: "both m x \<Longrightarrow> wf_machine x"
  by (auto simp: both_def dest: wf_nextD)

lemma dispatch_both:
  assumes "mmio_dispatch env r addr data sz mode m = Some (res, data', m')" and "wf_machine m"
  shows "both m m'"
  using assms read_wf [OF assms(2)] read_frame [OF assms(2)] write_wf [OF assms(2)] write_frame [OF assms(2)]
  by (auto simp: both_def wf_next_refl mmio_dispatch_def Let_def split: option.splits if_splits prod.splits)

lemma ram_write_both: "ram_write m off bs = Some m' \<Longrightarrow> wf_machine m \<Longrightarrow> both m m'"
  by (auto simp: both_def ram_write_wf) (auto simp: ram_write_def split: if_splits)

lemma misaligned_ram_both:
  "misaligned_ram addr data part mode m = Some (data', m') \<Longrightarrow> wf_machine m \<Longrightarrow> both m m'"
  by (auto simp: misaligned_ram_def Let_def ram_read_def both_refl ram_write_both
      split: option.splits if_splits bind_splits)

lemma misaligned_both:
  assumes "misaligned_access env addr data sz mode m = Some (res, data', m')" and "wf_machine m"
  shows "both m m'"
  by (rule misaligned_invariant [OF assms(1), of "\<lambda>d. both m"])
    (auto simp: both_refl assms(2) dest: misaligned_ram_both dispatch_both bothD intro: both_trans)

lemma two_pass_both:
  assumes "misaligned_two_pass env addr data sz mode m = Some (res, data', m')" and "wf_machine m"
  shows "both m m'"
proof -
  from assms(1) consider q d where "misaligned_access env addr None sz mode m = Some (q, d, m')"
    | d d' x where "misaligned_access env addr None sz mode m = Some (RV_MEM_OK, d, x)"
        "misaligned_access env addr (Some data) sz mode x = Some (res, d', m')"
    by (auto simp: misaligned_two_pass_def split: option.splits rv_mem_result.splits)
  then show ?thesis using assms(2) by cases (blast intro: misaligned_both both_trans bothD)+
qed

lemma access_phys_both:
  assumes "rv_access_phys env h addr data e mode ignore_pmp m = Some (res, data', m')" and "wf_machine m"
  shows "both m m'"
  using assms
  by (auto simp: rv_access_phys_def ram_access_def ram_read_def Let_def both_refl
      split: if_splits option.splits bind_splits dest: two_pass_both dispatch_both ram_write_both)

lemma access_phys_partial_both:
  assumes "rv_access_phys_partial env h addr data sz mode ignore_pmp m = Some (res, data', m')" and "wf_machine m"
  shows "both m m'"
  using assms by (auto simp: rv_access_phys_partial_def both_refl split: if_splits dest: two_pass_both)

end

section \<open>Accesses that return\<close>

text \<open>
  An access leaves the core's registers alone and inserts at most \<open>n\<close> entries in the translation
  cache with \<open>next_column\<close>, the counter that is never reduced.
\<close>

definition columns_used :: "nat \<Rightarrow> 'd emu_machine \<Rightarrow> nat" where
  "columns_used h m = unat (next_column (tlb (get_cpu m h)))"

definition mem_next :: "nat \<Rightarrow> nat \<Rightarrow> 'd emu_machine \<Rightarrow> 'd emu_machine \<Rightarrow> bool" where
  "mem_next h n m x \<longleftrightarrow>
     wf_next m x \<and> csr (get_cpu x h) = csr (get_cpu m h) \<and> privilege (get_cpu x h) = privilege (get_cpu m h)
     \<and> mem_privilege (get_cpu x h) = mem_privilege (get_cpu m h) \<and> xregs (get_cpu x h) = xregs (get_cpu m h)
     \<and> columns_used h x \<le> columns_used h m + n"

definition returns3 :: "nat \<Rightarrow> nat \<Rightarrow> 'd emu_machine \<Rightarrow> ('a \<times> 'b \<times> 'd emu_machine) option \<Rightarrow> bool" where
  "returns3 h n m r \<longleftrightarrow> (\<exists>a b x. r = Some (a, b, x) \<and> mem_next h n m x)"

lemma mem_next_refl: "wf_machine m \<Longrightarrow> mem_next h n m m"
  by (simp add: mem_next_def wf_next_refl)

lemma mem_next_trans: "mem_next h n a b \<Longrightarrow> mem_next h k b c \<Longrightarrow> n + k \<le> l \<Longrightarrow> mem_next h l a c"
  by (auto simp: mem_next_def intro: wf_next_trans)

lemma mem_nextD:
  "mem_next h n m x \<Longrightarrow> wf_machine x" "mem_next h n m x \<Longrightarrow> length (cpus x) = length (cpus m)"
  "mem_next h n m x \<Longrightarrow> csr (get_cpu x h) = csr (get_cpu m h)"
  "mem_next h n m x \<Longrightarrow> privilege (get_cpu x h) = privilege (get_cpu m h)"
  "mem_next h n m x \<Longrightarrow> mem_privilege (get_cpu x h) = mem_privilege (get_cpu m h)"
  "mem_next h n m x \<Longrightarrow> columns_used h x \<le> columns_used h m + n"
  "mem_next h n m x \<Longrightarrow> xregs (get_cpu x h) = xregs (get_cpu m h)"
  by (simp_all add: mem_next_def wf_next_def)

lemma both_mem_next:
  assumes "both m x" and "h < length (cpus m)"
  shows "mem_next h n m x"
proof -
  have "core_frame (get_cpu m h) (get_cpu x h)" using assms by (simp add: both_def device_frame_def)
  from core_frameD [OF this] assms(1) show ?thesis by (simp add: mem_next_def both_def columns_used_def)
qed

text \<open>The core may insert \<open>k\<close> more entries.\<close>

definition ready :: "nat \<Rightarrow> nat \<Rightarrow> 'd emu_machine \<Rightarrow> bool" where
  "ready h k m \<longleftrightarrow> wf_machine m \<and> h < length (cpus m) \<and> columns_used h m + k \<le> RV_TLB_COLUMNS"

lemma readyD: "ready h k m \<Longrightarrow> wf_machine m" "ready h k m \<Longrightarrow> h < length (cpus m)"
  by (simp_all add: ready_def)

lemma ready_mono: "ready h k m \<Longrightarrow> l \<le> k \<Longrightarrow> ready h l m"
  by (simp add: ready_def)

lemma ready_next: "ready h l m \<Longrightarrow> mem_next h n m x \<Longrightarrow> n + k \<le> l \<Longrightarrow> ready h k x"
  using mem_nextD [of h n m x] by (simp add: ready_def)

lemma returns3_some: "ready h 0 m \<Longrightarrow> returns3 h n m (Some (a, b, m))"
  by (simp add: returns3_def ready_def mem_next_refl)

lemma returns3_mono: "returns3 h n m r \<Longrightarrow> n \<le> k \<Longrightarrow> returns3 h k m r"
  by (fastforce simp: returns3_def mem_next_def)

lemma returns3_bind:
  assumes "ready h l m" and "returns3 h n m r" and "n + k \<le> l"
    and "\<And>a b x. r = Some (a, b, x) \<Longrightarrow> mem_next h n m x \<Longrightarrow> ready h k x \<Longrightarrow> returns3 h k x (f a b x)"
  shows "returns3 h l m (Option.bind r (\<lambda>(a, b, x). f a b x))"
proof -
  from assms(2) obtain a b x where r: "r = Some (a, b, x)" "mem_next h n m x" by (auto simp: returns3_def)
  from assms(4) [OF r ready_next [OF assms(1) r(2) assms(3)]] r mem_next_trans [OF r(2) _ assms(3)]
  show ?thesis by (auto simp: returns3_def)
qed

lemma returns3_if:
  "(P \<Longrightarrow> returns3 h n m r) \<Longrightarrow> (\<not> P \<Longrightarrow> returns3 h n m q) \<Longrightarrow> returns3 h n m (if P then r else q)"
  by simp

text \<open>Translated addresses have 56 bits, so an access at one never wraps.\<close>

lemma entry_paddr_bound: "unat (entry_paddr e va) < 2 ^ 56"
proof -
  have "va mod RV_CPU_PAGE_SIZE = take_bit 12 va" by (simp add: take_bit_eq_mod)
  then have "entry_paddr e va = push_bit 12 (pte_ppn (pte e)) + take_bit 12 va"
    unfolding entry_paddr_def by (subst disjunctive_add [symmetric]) (auto simp: bit_simps)
  moreover have "unat (push_bit 12 (pte_ppn (pte e))) = 4096 * ppn_of (pte e)"
    using ppn_of_less [of "pte e"] by (simp add: push_bit_eq_mult unat_word_ariths unat_pte_ppn)
  moreover have "unat (take_bit 12 va) < 4096"
    by (simp only: unat_bits_div_mod) simp
  ultimately show ?thesis
    using ppn_of_less [of "pte e"] by (simp add: unat_word_ariths)
qed

text \<open>The two parts of an access that crosses a page.\<close>

lemma crossing_sizes:
  fixes va sz :: u64
  assumes "sz \<noteq> 0" and "unat sz \<le> 8" and "va div RV_CPU_PAGE_SIZE \<noteq> (va + sz - 1) div RV_CPU_PAGE_SIZE"
  defines "va1 \<equiv> (va div RV_CPU_PAGE_SIZE + 1) * RV_CPU_PAGE_SIZE"
  shows "unat (va1 - va) + unat (va + sz - va1) = unat sz"
proof -
  let ?o = "va mod RV_CPU_PAGE_SIZE"
  have o: "unat ?o = unat va mod 4096" by (simp add: unat_mod)
  have "va = va div RV_CPU_PAGE_SIZE * RV_CPU_PAGE_SIZE + ?o" by (rule div_mult_mod_eq [symmetric])
  then have d: "va1 - va = RV_CPU_PAGE_SIZE - ?o" "va + sz - va1 = sz - (RV_CPU_PAGE_SIZE - ?o)"
    unfolding va1_def by (simp_all add: algebra_simps)
  have "4096 \<le> unat va mod 4096 + unat sz"
  proof (rule ccontr)
    assume lt: "\<not> 4096 \<le> unat va mod 4096 + unat sz"
    have s: "unat (sz - 1) = unat sz - 1" "0 < unat sz"
      using assms(1) by (simp_all add: unat_minus_one unat_gt_0)
    define q r where "q = unat va div 4096" and "r = unat va mod 4096"
    then have va: "unat va = 4096 * q + r" by simp
    have "unat va < 2 ^ LENGTH(64)" by (rule unsigned_less)
    then have "q < 4503599627370496" by (simp add: va)
    moreover have "r + (unat sz - 1) < 4096" using lt by (simp add: r_def)
    ultimately have "unat va + (unat sz - 1) < 2 ^ LENGTH(64)" by (simp add: va)
    then have "unat (va + (sz - 1)) = unat va + (unat sz - 1)" by (simp add: unat_word_ariths s)
    moreover have "(unat va + (unat sz - 1)) div 4096 = unat va div 4096"
      using \<open>r + (unat sz - 1) < 4096\<close> by (simp add: va q_def [symmetric] add.assoc)
    ultimately have "unat ((va + (sz - 1)) div RV_CPU_PAGE_SIZE) = unat (va div RV_CPU_PAGE_SIZE)"
      by (simp add: unat_div)
    with assms(3) show False by (simp add: word_unat_eq_iff add_diff_eq)
  qed
  then have "unat (RV_CPU_PAGE_SIZE - ?o) = 4096 - unat va mod 4096" and "4096 - unat va mod 4096 \<le> unat sz"
    using assms(2) o by (simp_all add: unat_sub_if')
  then show ?thesis unfolding d by (simp add: unat_sub_if')
qed

lemma pte_address_bound:
  assumes "unat ppn < 2 ^ 44"
  shows "unat (ppn * RV_CPU_PAGE_SIZE + (drop_bit (9 * l) (va div RV_CPU_PAGE_SIZE) AND 0x1ff) * 8) + 2 ^ unat (3 :: u8) < 2 ^ 64"
proof -
  let ?x = "unat va div 4096 div 512 ^ l mod 512"
  have "4096 * unat ppn + 8 * ?x < 2 ^ 63" using assms mod_less_divisor [of 512 "unat va div 4096 div 512 ^ l"] by simp
  then have "unat (of_nat (4096 * unat ppn + 8 * ?x) :: u64) < 2 ^ 63"
    by (simp only: unat_of_nat) simp
  then show ?thesis unfolding pte_address [OF assms] by simp
qed

lemma tlb_fill_some:
  assumes "unat (next_column (tlb c)) < RV_TLB_COLUMNS" and "row < RV_TLB_ROWS"
  obtains c' where "tlb_fill row e c = Some c'" and "keeps c c'" and "csr c' = csr c" and "privilege c' = privilege c"
    and "mem_privilege c' = mem_privilege c" and "xregs c' = xregs c"
    and "unat (next_column (tlb c')) \<le> unat (next_column (tlb c)) + 1"
proof -
  have n: "unat (next_column (tlb c) + 1) \<le> unat (next_column (tlb c)) + 1" by (simp add: unat_word_ariths)
  have "row * RV_TLB_COLUMNS + unat (next_column (tlb c)) < RV_TLB_COLUMNS * RV_TLB_ROWS" using assms by simp
  with n have "\<exists>c'. tlb_fill row e c = Some c' \<and> csr c' = csr c \<and> privilege c' = privilege c
      \<and> mem_privilege c' = mem_privilege c \<and> xregs c' = xregs c
      \<and> unat (next_column (tlb c')) \<le> unat (next_column (tlb c)) + 1"
    unfolding tlb_fill_def Let_def tlb_put_entry_def tlb_set_valid_def by (simp split: option.split)
  then show thesis using that keeps_tlb_fill by blast
qed

lemma pte_ppn_bound: "unat (pte_ppn p) < 2 ^ 44"
  unfolding unat_pte_ppn by (rule ppn_of_less)

lemma mem_next_put_cpu:
  assumes "wf_machine m" and "h < length (cpus m)" and "keeps (get_cpu m h) c" and "csr c = csr (get_cpu m h)"
    and "privilege c = privilege (get_cpu m h)" and "mem_privilege c = mem_privilege (get_cpu m h)"
    and "xregs c = xregs (get_cpu m h)" and "unat (next_column (tlb c)) \<le> columns_used h m + n"
  shows "mem_next h n m (put_cpu h c m)"
  using assms wf_next_put_cpu [of m h c] by (simp add: mem_next_def columns_used_def)

text \<open>Whether \<open>rv_access_virt\<close> looks an address up.\<close>

definition translates :: "rv_cpu \<Rightarrow> rv_access \<Rightarrow> bool" where
  "translates c mode \<longleftrightarrow>
     (if mode = RV_ACCESS_INSN then privilege c else mem_privilege c) \<noteq> 3
     \<and> drop_bit RV_SATP_MODE_BASE_BIT (satp (csr c) AND RV_SATP_MODE_MASK) \<noteq> 0"

context emu_isolated
begin

lemma access_phys_returns:
  assumes "ready h 0 m" and "e \<le> 3" and "2 ^ unat e \<le> length data" and "unat addr + 2 ^ unat e < 2 ^ 64"
  shows "returns3 h n m (rv_access_phys env h addr data e mode ignore_pmp m)"
  unfolding returns3_def
  using access_phys_some [OF readyD(1) [OF assms(1)] assms(2,4,3), of h mode ignore_pmp] readyD [OF assms(1)]
  by (blast intro: access_phys_both both_mem_next)

lemma access_partial_returns:
  assumes "ready h 0 m" and "unat sz \<le> 8" and "unat sz \<le> length data" and "unat addr + unat sz < 2 ^ 64"
  shows "returns3 h n m (rv_access_phys_partial env h addr data sz mode ignore_pmp m)"
  unfolding returns3_def
  using access_phys_partial_some [OF readyD(1) [OF assms(1)] assms(4,2,3), of h mode ignore_pmp] readyD [OF assms(1)]
  by (blast intro: access_phys_partial_both both_mem_next)

lemma paging_leaf_returns:
  assumes "ready h 0 m" and "unat a + 2 ^ unat (3 :: u8) < 2 ^ 64"
  shows "returns3 h 0 m (paging_leaf env h va out mode asid level a pmp p m)"
  unfolding paging_leaf_def Let_def
  by (intro returns3_if returns3_some returns3_bind [where n = 0 and k = 0] access_phys_returns assms) simp_all

lemma paging_walk_returns:
  assumes "ready h 0 m" and "unat ppn < 2 ^ 44"
  shows "returns3 h 0 m (paging_walk env h va out mode asid ppn levels m)"
  using assms
proof (induction levels arbitrary: ppn m)
  case (Cons level levels)
  note b = pte_address_bound [OF Cons.prems(2), of level va]
  show ?case
    unfolding paging_walk.simps Let_def
    by (intro returns3_if returns3_some returns3_bind [where n = 0 and k = 0] access_phys_returns paging_leaf_returns
        Cons.IH Cons.prems b pte_ppn_bound) simp_all
qed (simp add: returns3_some)

lemma paging_miss_returns:
  assumes "ready h 1 m"
  shows "returns3 h 1 m (paging_miss env h va out mode m)"
proof -
  have raw: "returns3 h 0 m (rv_paging_raw_lookup env h va out mode m)"
    unfolding rv_paging_raw_lookup_def Let_def
  proof (rule paging_walk_returns [OF ready_mono [OF assms]])
    have "4096 * unat (satp (csr (get_cpu m h)) AND RV_SATP_PPN_MASK) = sv39_root (get_cpu m h)" by (rule satp_root)
    then have "unat (satp (csr (get_cpu m h)) AND RV_SATP_PPN_MASK) = unat (satp (csr (get_cpu m h))) mod 2 ^ 44"
      by (simp add: sv39_root_def)
    then show "unat (satp (csr (get_cpu m h)) AND RV_SATP_PPN_MASK) < 2 ^ 44" by simp
  qed simp
  have fill: "returns3 h 1 x (Option.bind (tlb_fill (tlb_row va) e (get_cpu x h)) (\<lambda>c. Some (r, e, put_cpu h c x)))"
    if "ready h 1 x" for x e and r :: rv_mem_result
  proof -
    have "columns_used h x < RV_TLB_COLUMNS" using that by (simp add: ready_def)
    then obtain c where c: "tlb_fill (tlb_row va) e (get_cpu x h) = Some c" "keeps (get_cpu x h) c"
        "csr c = csr (get_cpu x h)" "privilege c = privilege (get_cpu x h)" "mem_privilege c = mem_privilege (get_cpu x h)"
        "xregs c = xregs (get_cpu x h)" "unat (next_column (tlb c)) \<le> columns_used h x + 1"
      unfolding columns_used_def by (rule tlb_fill_some) (rule tlb_row_less)
    from mem_next_put_cpu [OF readyD [OF that] c(2-7)] c(1) show ?thesis by (simp add: returns3_def)
  qed
  show ?thesis
    unfolding paging_miss_def
    by (intro returns3_bind [OF assms raw, where k = 1] returns3_if returns3_some fill) (auto elim: ready_mono)
qed

lemma lookup_returns:
  assumes "ready h 1 m"
  shows "returns3 h 1 m (rv_paging_lookup env h va out mode m)"
proof (cases "tlb_search (get_cpu m h) va (pte_setfl mode) [0..<RV_TLB_COLUMNS]")
  case (Probe_Stale col)
  let ?c = "tlb_clear_valid (tlb_row va) col (get_cpu m h)"
  have x: "mem_next h 0 m (put_cpu h ?c m)"
    by (rule mem_next_put_cpu [OF readyD [OF assms] keeps_tlb_clear]) (simp_all add: tlb_clear_valid_def columns_used_def)
  have "returns3 h 1 (put_cpu h ?c m) (paging_miss env h va out mode (put_cpu h ?c m))"
    by (rule paging_miss_returns [OF ready_next [OF assms x]]) simp
  then show ?thesis using Probe_Stale mem_next_trans [OF x] by (fastforce simp: returns3_def rv_paging_lookup_def)
next
  case Probe_Miss
  then show ?thesis using paging_miss_returns [OF assms] by (simp add: rv_paging_lookup_def)
qed (use ready_mono [OF assms] in \<open>simp add: rv_paging_lookup_def returns3_some\<close>)

lemma pageboundary_returns:
  assumes "ready h 2 m" and "e \<le> 3" and "2 ^ unat e \<le> length data"
    and "va div RV_CPU_PAGE_SIZE \<noteq> (va + push_bit (unat e) 1 - 1) div RV_CPU_PAGE_SIZE"
  shows "returns3 h 2 m (rv_access_virt_pageboundary env h va data e mode m)"
proof -
  define sz :: u64 where "sz = push_bit (unat e) 1"
  define va1 where "va1 = (va div RV_CPU_PAGE_SIZE + 1) * RV_CPU_PAGE_SIZE"
  note sz = unat_size_exp [OF assms(2), folded sz_def]
  have "sz \<noteq> 0" "unat sz \<le> 8" using sz by (auto simp flip: unat_eq_0)
  from crossing_sizes [OF this assms(4) [folded sz_def]]
  have sizes: "unat (va1 - va) + unat (va + sz - va1) = 2 ^ unat e" by (simp add: va1_def sz)
  then have parts: "unat (va1 - va) \<le> 8" "unat (va + sz - va1) \<le> 8" "unat (va1 - va) \<le> length data"
      "unat (va + sz - va1) \<le> length data - unat (va1 - va)"
    using sz(2) assms(3) by simp_all
  have bound: "unat (entry_paddr r v) + unat s < 2 ^ 64" if "unat s \<le> 8" for r v and s :: u64
    using entry_paddr_bound [of r v] that by simp
  have len: "length d = length b"
    if "rv_access_phys_partial env h a b s mode True y = Some (q, d, x)" "ready h 0 y" for a b s x q d y
    using access_phys_partial_wf [OF that(1) readyD(1) [OF that(2)]] by simp
  show ?thesis
    unfolding rv_access_virt_pageboundary_def Let_def sz_def [symmetric] va1_def [symmetric]
    apply (intro returns3_if returns3_some ready_mono [OF assms(1)] order_refl zero_le)
    apply (rule returns3_bind [where n = 1 and k = 1, OF assms(1) lookup_returns [OF ready_mono [OF assms(1)]]], simp, simp)
    apply (intro returns3_if returns3_some, erule ready_mono, simp)
    apply (rule returns3_bind [where n = 1 and k = 0, OF _ lookup_returns], assumption+, simp)
    apply (intro returns3_if returns3_some returns3_bind [where n = 0 and k = 0] access_partial_returns bound parts)
    apply (auto simp: parts dest!: len)
    done
qed

text \<open>An access needs no bound on its address when it is translated.\<close>

lemma access_virt_returns:
  assumes "ready h 2 m" and "e \<le> 3" and "2 ^ unat e \<le> length data"
    and "translates (get_cpu m h) mode \<or> unat va + 2 ^ unat e < 2 ^ 64"
  shows "returns3 h 2 m (rv_access_virt env h va data e mode m)"
proof (cases "translates (get_cpu m h) mode")
  case True
  have bound: "unat (entry_paddr r v) + 2 ^ unat e < 2 ^ 64" for r v
    using entry_paddr_bound [of r v] unat_size_exp(2) [OF assms(2)] by simp
  show ?thesis
    using True unfolding rv_access_virt_def Let_def
    apply (intro returns3_if returns3_some ready_mono [OF assms(1)] pageboundary_returns assms order_refl zero_le)
      apply (simp add: translates_def split: if_splits)
     apply simp
    apply (rule returns3_bind [where n = 1 and k = 0, OF assms(1) lookup_returns [OF ready_mono [OF assms(1)]]], simp, simp)
    apply (intro returns3_if returns3_some access_phys_returns assms bound; simp)
    done
next
  case False
  then show ?thesis
    using assms access_phys_returns [OF ready_mono [OF assms(1)] assms(2,3), of va 2 mode False]
    by (auto simp: rv_access_virt_def translates_def Let_def)
qed

end

section \<open>Instructions that return\<close>

text \<open>The address of an instruction's data.\<close>

definition data_addr :: "rv_cpu \<Rightarrow> u32 \<Rightarrow> u64" where
  "data_addr c insn =
     rv_xreg_read c (RV_INSN_RS1 insn) +
     (case rv_op_maj_of (RV_INSN_OP_MAJ insn) of
        Some RV_OP_MAJ_LOAD \<Rightarrow> scast (RV_INSN_IMM12 insn) | Some RV_OP_MAJ_LOAD_FP \<Rightarrow> scast (RV_INSN_IMM12 insn)
      | Some RV_OP_MAJ_STORE \<Rightarrow> scast (RV_INSN_S_IMM12 insn) | Some RV_OP_MAJ_STORE_FP \<Rightarrow> scast (RV_INSN_S_IMM12 insn)
      | _ \<Rightarrow> 0)"

text \<open>What the host cannot survive: a wrapping untranslated access, and \<open>ecall\<close> in the reserved mode.\<close>

definition survivable :: "rv_cpu \<Rightarrow> u32 \<Rightarrow> bool" where
  "survivable c insn \<longleftrightarrow>
     (translates c RV_ACCESS_LOAD \<or> unat (data_addr c insn) + 8 < 2 ^ 64) \<and> (privilege c \<le> 3 \<and> (privilege c = 2 \<longrightarrow> insn \<noteq> 0x73))"

lemma translates_data: "mode \<noteq> RV_ACCESS_INSN \<Longrightarrow> translates c mode = translates c RV_ACCESS_LOAD"
  by (simp add: translates_def)

lemma size_le_8: "e \<le> (3 :: u8) \<Longrightarrow> (2 :: nat) ^ unat e \<le> 8"
  using unat_size_exp(2) .

named_theorems runs_rules \<open>an operation has a result, by its shape\<close>

lemma runs_basic [runs_rules]:
  "Some x \<noteq> None"
  "(P \<Longrightarrow> r \<noteq> None) \<Longrightarrow> (\<not> P \<Longrightarrow> q \<noteq> None) \<Longrightarrow> (if P then r else q) \<noteq> None"
  "(o1 = None \<Longrightarrow> r \<noteq> None) \<Longrightarrow> (\<And>x. o1 = Some x \<Longrightarrow> f x \<noteq> None) \<Longrightarrow> (case o1 of None \<Rightarrow> r | Some x \<Rightarrow> f x) \<noteq> None"
  by (auto split: option.split)

lemma runs_bind:
  assumes "ready h l m" and "returns3 h n m r" and "n + k \<le> l"
    and "\<And>a b x. mem_next h n m x \<Longrightarrow> ready h k x \<Longrightarrow> f a b x \<noteq> None"
  shows "Option.bind r (\<lambda>(a, b, x). f a b x) \<noteq> None"
proof -
  from assms(2) obtain a b x where r: "r = Some (a, b, x)" "mem_next h n m x" by (auto simp: returns3_def)
  with assms(4) [OF r(2) ready_next [OF assms(1) r(2) assms(3)]] show ?thesis by simp
qed

lemma runs_trap [runs_rules]:
  "rv_do_trap env h \<lparr>trap_epc = x, trap_tval = y, trap_cause = rv_cause_code c\<rparr> m \<noteq> None"
  "rv_do_iillegal env h insn m \<noteq> None" "mem_trap env h r mode a m \<noteq> None"
  by (simp_all add: rv_do_trap_total rv_do_iillegal_def mem_trap_def)

lemma runs_check_interrupts: "rv_check_interrupts env h m \<noteq> None"
proof (cases "pick_interrupt (get_cpu m h)")
  case (Some i)
  have "bit (RV_CAUSE_INTR_FLAG OR of_nat (rv_intr_bit i)) 63"
    by (simp add: bit_or_iff RV_CAUSE_INTR_FLAG_def)
  then show ?thesis by (simp add: rv_check_interrupts_def Some rv_do_trap_total del: not_None_eq)
qed (simp add: rv_check_interrupts_def)

lemma runs_simple [runs_rules]:
  "rv_base_op env h insn m \<noteq> None" "rv_base_jal env h insn m \<noteq> None" "rv_base_jalr env h insn m \<noteq> None"
  "rv_base_lui env h insn m \<noteq> None" "rv_base_branch env h insn m \<noteq> None" "rv_base_miscmem env h insn m \<noteq> None"
  "rv_float_op_fp fp env h insn m \<noteq> None" "rv_float_fmadd fp env h insn m \<noteq> None" "do_csr env h insn m \<noteq> None"
  unfolding rv_base_op_def rv_muldiv_op_def rv_base_jal_def rv_base_jalr_def rv_base_lui_def rv_base_branch_def
    rv_base_miscmem_def rv_float_op_fp_def rv_float_fmadd_def op_fp_compare_def op_fp_sgnj_def op_fp_min_max_def
    do_csr_def Let_def case_prod_beta
  by (intro runs_rules)+

lemma runs_system:
  assumes "privilege (get_cpu m h) \<le> 3" and "privilege (get_cpu m h) = 2 \<longrightarrow> insn \<noteq> 0x73"
  shows "rv_base_system env h insn m \<noteq> None"
proof -
  have "\<exists>c. ecall_cause (get_cpu m h) = Some c" if "insn = 0x73"
    using assms that u8_le_3 [OF assms(1)] by (auto simp: ecall_cause_def)
  then show ?thesis
    unfolding rv_base_system_def Let_def by (intro runs_rules) auto
qed

context emu_isolated
begin

text \<open>An access of any size within the bound of \<open>survivable\<close>.\<close>

lemma data_access_returns:
  assumes "ready h 2 m" and "translates (get_cpu m h) RV_ACCESS_LOAD \<or> unat a + 8 < 2 ^ 64"
    and "mode \<noteq> RV_ACCESS_INSN" and "e \<le> 3" and "2 ^ unat e \<le> length data"
  shows "returns3 h 2 m (rv_access_virt env h a data e mode m)"
proof (rule access_virt_returns [OF assms(1,4,5)])
  show "translates (get_cpu m h) mode \<or> unat a + 2 ^ unat e < 2 ^ 64"
    using assms(2) size_le_8 [OF assms(4)] unfolding translates_data [OF assms(3)] by linarith
qed

lemma runs_load:
  assumes "ready h 2 m" and "translates (get_cpu m h) RV_ACCESS_LOAD \<or>
    unat (rv_xreg_read (get_cpu m h) (RV_INSN_RS1 insn) + scast (RV_INSN_IMM12 insn)) + 8 < 2 ^ 64"
  shows "rv_base_load env h insn m \<noteq> None"
proof -
  have e: "e \<le> 3" if "load_size_exp f = Some e" for e f
    using that by (auto simp: load_size_exp_def split: if_splits)
  have acc: "returns3 h 2 m (rv_access_virt env h
      (rv_xreg_read (get_cpu m h) (RV_INSN_RS1 insn) + scast (RV_INSN_IMM12 insn)) (le_bytes 8 0) e RV_ACCESS_LOAD m)"
    if "load_size_exp f = Some e" for e f
    using size_le_8 [OF e [OF that]] by (intro data_access_returns assms e [OF that]) simp_all
  show ?thesis
    unfolding rv_base_load_def Let_def
    by (intro runs_rules runs_bind [OF assms(1) acc, where k = 0]) (assumption | simp)+
qed

lemma runs_store:
  assumes "ready h 2 m" and "translates (get_cpu m h) RV_ACCESS_LOAD \<or>
    unat (rv_xreg_read (get_cpu m h) (RV_INSN_RS1 insn) + scast (RV_INSN_S_IMM12 insn)) + 8 < 2 ^ 64"
  shows "rv_base_store env h insn m \<noteq> None"
proof -
  have acc: "returns3 h 2 m (rv_access_virt env h
      (rv_xreg_read (get_cpu m h) (RV_INSN_RS1 insn) + scast (RV_INSN_S_IMM12 insn)) (le_bytes 8 v) (f AND 3) RV_ACCESS_STORE m)"
    for v and f :: u8
  proof -
    have "f AND 3 \<le> 3" by (rule word_and_le1)
    from size_le_8 [OF this] show ?thesis by (intro data_access_returns assms \<open>f AND 3 \<le> 3\<close>) simp_all
  qed
  show ?thesis
    unfolding rv_base_store_def Let_def
    by (intro runs_rules runs_bind [OF assms(1) acc, where k = 0]) (assumption | simp)+
qed

lemma atomic_load_returns:
  assumes "ready h 2 m" and "translates (get_cpu m h) RV_ACCESS_LOAD \<or> unat a + 8 < 2 ^ 64" and "mode \<noteq> RV_ACCESS_INSN"
  shows "returns3 h 2 m (atomic_load env h a w mode m)"
  unfolding atomic_load_def
  by (intro returns3_if returns3_bind [OF assms(1) data_access_returns, where k = 0] returns3_some assms) simp_all

lemma atomic_store_returns:
  assumes "ready h 2 m" and "translates (get_cpu m h) RV_ACCESS_LOAD \<or> unat a + 8 < 2 ^ 64"
  shows "returns3 h 2 m (atomic_store env h a w v m)"
  unfolding atomic_store_def by (intro returns3_if data_access_returns assms) simp_all

lemma runs_atomic:
  assumes "ready h 4 m" and "translates (get_cpu m h) RV_ACCESS_LOAD \<or>
    unat (rv_xreg_read (get_cpu m h) (RV_INSN_RS1 insn)) + 8 < 2 ^ 64"
  shows "rv_atomic_op env h insn m \<noteq> None"
proof -
  let ?a = "rv_xreg_read (get_cpu m h) (RV_INSN_RS1 insn)"
  have ready: "ready h 2 m" "ready h 0 m" using ready_mono [OF assms(1)] by simp_all
  note load = atomic_load_returns [OF ready(1) assms(2)] and store = atomic_store_returns [OF ready(1) assms(2)]
  have res: "unat (mhartid (csr (get_cpu m h))) < length (reservations x)" if "mem_next h n m x" for n x
    using mem_nextD(1,2) [OF that] readyD [OF assms(1)] wf_machine_hartid [of m h] by (simp add: wf_machine_def)
  note res0 = res [OF mem_next_refl [OF readyD(1) [OF assms(1)]]]
  have again: "returns3 h 2 x (atomic_store env h ?a w v x)" if "mem_next h 2 m x" "ready h 2 x" for x w v
    using assms(2) mem_nextD(3,5) [OF that(1)] by (intro atomic_store_returns that(2)) (simp add: translates_def)
  have guard: "Option.bind (guard_ub P) f \<noteq> None" if "P" "f () \<noteq> None" for P and f :: "unit \<Rightarrow> 'd emu_machine option"
    using that by (simp add: guard_ub_def)
  have lr: "rv_atomic_lr env h insn w ?a (unat (mhartid (csr (get_cpu m h)))) m \<noteq> None" for w
    unfolding rv_atomic_lr_def Let_def
    by (intro runs_rules runs_bind [OF ready(1) load, where k = 0] guard res) (assumption | simp)+
  have sc: "rv_atomic_sc env h insn w ?a (unat (mhartid (csr (get_cpu m h)))) m \<noteq> None" for w
    unfolding rv_atomic_sc_def Let_def
    by (intro guard res0 runs_rules runs_bind [OF ready(1) store, where k = 0]) (assumption | simp)+
  have rmw: "rv_atomic_rmw env h insn f w ?a m \<noteq> None" for f w
    unfolding rv_atomic_rmw_def Let_def
    by (intro runs_rules runs_bind [OF assms(1) load, where k = 2] runs_bind [OF _ again, where k = 0])
      (assumption | simp)+
  show ?thesis
    unfolding rv_atomic_op_def Let_def by (intro runs_rules lr sc rmw)
qed

lemma runs_forcefeed:
  assumes "ready h 4 m" and "survivable (get_cpu m h) insn"
  shows "rv_forcefeed_insn fp env h insn m \<noteq> None"
proof -
  note r2 = ready_mono [OF assms(1), of 2, simplified]
  show ?thesis
    using assms(2) runs_simple runs_load [OF r2, of insn] runs_store [OF r2, of insn] runs_atomic [OF assms(1), of insn]
      runs_system [of m h insn env] runs_trap(2)
    by (cases "rv_op_maj_of (RV_INSN_OP_MAJ insn)"; simp add: rv_forcefeed_insn_def survivable_def data_addr_def split: rv_op_maj.splits)
qed

lemma insn_runs:
  assumes "ready h 4 m" and "survivable (get_cpu m h) insn"
  shows "run_insn fp env h insn len m \<noteq> None"
proof -
  let ?c = "get_cpu m h"
  let ?d = "?c\<lparr>epc := pc ?c, pc := pc ?c + len\<rparr>"
  have x: "mem_next h 0 m (put_cpu h ?d m)"
    by (rule mem_next_put_cpu [OF readyD [OF assms(1)] keeps_pc_epc]) (simp_all add: columns_used_def)
  have "survivable ?d insn"
    using assms(2) by (simp add: survivable_def translates_def data_addr_def rv_xreg_read_def)
  then have "rv_forcefeed_insn fp env h insn (put_cpu h ?d m) \<noteq> None"
    using readyD(2) [OF assms(1)] by (intro runs_forcefeed ready_next [OF assms(1) x]) simp_all
  then show ?thesis using runs_check_interrupts by (auto simp: run_insn_def Let_def)
qed

lemma fetch_half_returns:
  assumes "ready h 2 m" and "translates (get_cpu m h) RV_ACCESS_INSN"
  shows "returns3 h 2 m (fetch_half env h a m)"
  unfolding fetch_half_def
  by (intro returns3_bind [OF assms(1) access_virt_returns, where k = 0] returns3_some assms disjI1) simp_all

lemma step_runs:
  fixes m :: "'d emu_machine" and h :: nat
  defines "c \<equiv> get_cpu m h"
  assumes "ready h 8 m" and "translates c RV_ACCESS_INSN" and "translates c RV_ACCESS_LOAD" and "privilege c \<le> 1"
  shows "rv_step_insn fp env h m \<noteq> None"
proof -
  have same: "translates (get_cpu x h) RV_ACCESS_INSN" "survivable (get_cpu x h) insn" if "mem_next h n m x" for x n insn
  proof -
    show "translates (get_cpu x h) RV_ACCESS_INSN"
      using mem_nextD(3-5) [OF that] assms(3) by (simp add: translates_def c_def)
    have "privilege c \<le> 3" "privilege c \<noteq> 2"
      using assms(5) by (auto simp: word_le_nat_alt)
    then show "survivable (get_cpu x h) insn"
      using mem_nextD(3-5) [OF that] assms(4) by (simp add: survivable_def translates_def c_def)
  qed
  have fetch1: "returns3 h 2 m (fetch_half env h a m)" for a
    using assms(3) by (intro fetch_half_returns ready_mono [OF assms(2)]) (simp_all add: c_def)
  have fetch2: "returns3 h 2 x (fetch_half env h a x)" if "mem_next h 2 m x" "ready h 6 x" for a x
    by (intro fetch_half_returns same [OF that(1)] ready_mono [OF that(2)]) simp
  have run: "run_insn fp env h insn len x \<noteq> None" if "mem_next h n m x" "ready h 4 x" for x n insn len
    by (intro insn_runs same [OF that(1)] that(2))
  have run2: "run_insn fp env h insn len x \<noteq> None" if "mem_next h 2 m x" "ready h 6 x" for x insn len
    by (rule run [OF that(1) ready_mono [OF that(2)]]) simp
  have run4: "run_insn fp env h insn len y \<noteq> None"
    if "mem_next h 2 m x" "mem_next h 2 x y" "ready h 4 y" for x y insn len
    by (rule run [OF mem_next_trans [OF that(1,2), of 4] that(3)]) simp
  show ?thesis
    unfolding rv_step_insn_def Let_def fetch_trap_def
    by (intro runs_bind [OF assms(2) fetch1, where k = 6] runs_bind [where l = 6 and k = 4, OF _ fetch2] runs_rules run2 run4;
        (assumption | simp)?)
qed

end

section \<open>The emulator's devices\<close>

lemma put_cpu_device_frame:
  assumes "core_frame (get_cpu m h) c"
  shows "device_frame m (put_cpu h c m)"
  using assms
  by (cases "h < length (cpus m)")
    (auto simp: device_frame_def put_cpu_cpus nth_list_update put_cpu_def list_update_beyond)

lemma irq_device_frame:
  "device_frame m (irq_set h b m)" "device_frame m (irq_clear h b m)" "device_frame m (set_armed h x m)"
  unfolding irq_set_def irq_clear_def set_armed_def
  by (rule put_cpu_device_frame, simp add: core_frame_def)+

lemma set_mtimecmp_frame: "device_frame m (rv_clint_set_mtimecmp c hart v m)"
proof -
  let ?a = "irq_clear (unat hart) RV_CLINT_MTIP_BIT m"
  have "device_frame m (?a\<lparr>clint := x\<rparr>)" for x
    by (rule device_frame_trans [OF irq_device_frame(2) device_frame_same]) simp_all
  then show ?thesis
    unfolding rv_clint_set_mtimecmp_def Let_def
    by (rule device_frame_trans [OF _ irq_device_frame(3)]) simp
qed

lemma clint_write_frame: "clint_write off sz v c m = Some m' \<Longrightarrow> device_frame m m'"
  by (auto simp: clint_write_def clint_set_mtime_def Let_def irq_device_frame set_mtimecmp_frame split: if_splits)

lemma update_fold_device_frame: "device_frame m (fold (plic_update_ctx p) cs m)"
proof (induction cs arbitrary: m)
  case (Cons ctx cs)
  have "device_frame m (plic_update_ctx p ctx m)"
    by (simp add: plic_update_ctx_def Let_def irq_device_frame)
  from device_frame_trans [OF this Cons.IH] show ?case by simp
qed simp

lemma plic_frame:
  "device_frame m (plic_update_harts p m)"
  "plic_read off sz p m = Some (v, p', m') \<Longrightarrow> device_frame m m'"
  "plic_write off sz w p m = Some (p', m') \<Longrightarrow> device_frame m m'"
  using update_fold_device_frame [of m]
  by (auto simp: plic_update_harts_def plic_read_def plic_write_def plic_do_claim_def Let_def split: if_splits)

lemma frame_put_plic [simp]: "device_frame m (put_plic p x) = device_frame m x"
  by (simp add: device_frame_def put_plic_def)

interpretation board_isolated: emu_isolated board_env
proof
  fix m m' :: "board emu_machine" and d off sz ok v
  assume "mmio_read_fn board_env d off sz m = (ok, v, m')"
  then show "device_frame m m'"
    by (auto simp: board_env_def board_read_def plic_frame split: if_splits option.splits)
next
  fix m m' :: "board emu_machine" and d off sz ok v
  assume "mmio_write_fn board_env d off sz v m = (ok, m')"
  then show "device_frame m m'"
    by (auto simp: board_env_def board_write_def plic_frame clint_write_frame
        split: if_splits option.splits bind_splits)
qed

interpretation demo_isolated: emu_isolated demo_env
  by unfold_locales (auto simp: demo_env_def)

section \<open>Progress and preservation\<close>




text \<open>A supervisor with translation on and its page table at address 0, outside RAM.\<close>

definition sv39_board :: "board emu_machine" where
  "sv39_board = put_cpu 0
     (upd_csr (\<lambda>s. s\<lparr>satp := 0x8000000000000000\<rparr>) ((reset_cpu 0)\<lparr>privilege := 1, mem_privilege := 1\<rparr>)) board_machine"


end
