(* ===== verification/RV_Main.thy ===== *)
theory RV_Main
  imports RV_Board
begin

text \<open>
  The main program, \<open>main.c\<close>: it reads an image, sets up a machine of its own and steps its core for
  ever; the program it runs ends the process with a call. What the file system and the allocator of the
  host answer are parameters.
\<close>

section \<open>The code\<close>

text \<open>
  \<open>file\<close> is the image file, if it can be opened; \<open>ok\<close> says whether the host gave the buffer and \<open>count\<close>
  how many bytes \<open>fread\<close> delivered. \<open>main\<close> checks only the last: on a null stream or buffer the library
  calls are undefined.
\<close>

definition main_start ::
  "u8 list option \<Rightarrow> bool \<Rightarrow> nat \<Rightarrow> rv_plic \<Rightarrow> u64 \<Rightarrow> (int + board emu_machine) option" where
  "main_start file ok count p t =
     do {
       bs \<leftarrow> file;
       guard_ub (ok \<or> bs = []);
       Some (if count \<noteq> length bs then Inl 1 else Inr (main_machine bs p t))
     }"

text \<open>The endless loop, which only the exit of the process leaves.\<close>

partial_function (option) main_loop :: "fpu \<Rightarrow> board emu_machine \<Rightarrow> board emu_machine option" where
  [code]: "main_loop fp m =
     (if exit_code (devs m) \<noteq> None then Some m
      else do { m \<leftarrow> rv_step_insn fp board_env 0 m; main_loop fp m })"

text \<open>The exit code of the process and what it wrote.\<close>

definition main_program ::
  "fpu \<Rightarrow> u8 list option \<Rightarrow> bool \<Rightarrow> nat \<Rightarrow> rv_plic \<Rightarrow> u64 \<Rightarrow> (int \<times> u8 list) option" where
  "main_program fp file ok count p t =
     do {
       r \<leftarrow> main_start file ok count p t;
       (case r of
          Inl code \<Rightarrow> Some (code, [])
        | Inr m \<Rightarrow> do { m \<leftarrow> main_loop fp m; Some (the (exit_code (devs m)), stdout (devs m)) })
     }"

section \<open>When it ends\<close>

text \<open>Exactly \<open>n\<close> turns of the loop.\<close>

primrec main_turns :: "fpu \<Rightarrow> nat \<Rightarrow> board emu_machine \<Rightarrow> board emu_machine option" where
  "main_turns fp 0 m = Some m"
| "main_turns fp (Suc n) m =
     (if exit_code (devs m) \<noteq> None then None
      else do { m \<leftarrow> rv_step_insn fp board_env 0 m; main_turns fp n m })"

lemma main_turns_of_loop:
  assumes "main_loop fp m = Some m'"
  shows "\<exists>n. main_turns fp n m = Some m' \<and> exit_code (devs m') \<noteq> None"
proof (rule main_loop.raw_induct [OF _ assms])
  fix f fp and m m' :: "board emu_machine"
  assume IH: "\<And>fp m y. f fp m = Some y \<Longrightarrow> \<exists>n. main_turns fp n m = Some y \<and> exit_code (devs y) \<noteq> None"
    and eq: "(if exit_code (devs m) \<noteq> None then Some m else rv_step_insn fp board_env 0 m \<bind> f fp) = Some m'"
  show "\<exists>n. main_turns fp n m = Some m' \<and> exit_code (devs m') \<noteq> None"
  proof (cases "exit_code (devs m)")
    case None
    with eq obtain x where x: "rv_step_insn fp board_env 0 m = Some x" "f fp x = Some m'"
      by (auto split: bind_splits)
    from IH [OF x(2)] obtain n where "main_turns fp n x = Some m'" "exit_code (devs m') \<noteq> None" by blast
    with None x(1) show ?thesis by (auto intro: exI [of _ "Suc n"])
  qed (use eq in \<open>auto intro: exI [of _ 0]\<close>)
qed

lemma main_loop_of_turns:
  "main_turns fp n m = Some m' \<Longrightarrow> exit_code (devs m') \<noteq> None \<Longrightarrow> main_loop fp m = Some m'"
proof (induction n arbitrary: m)
  case 0
  then show ?case by (simp add: main_loop.simps)
next
  case (Suc n)
  then show ?case by (subst main_loop.simps) (auto split: if_splits bind_splits)
qed


section \<open>Programs in machine mode\<close>

text \<open>The image of a list of instruction words.\<close>

definition image_of :: "u32 list \<Rightarrow> u8 list" where
  "image_of ws = concat (map (\<lambda>w. le_bytes 4 (ucast w)) ws)"

lemma length_image_of [simp]: "length (image_of ws) = 4 * length ws"
  by (induction ws) (simp_all add: image_of_def)

lemma image_of_word:
  assumes "i < length ws"
  shows "take 4 (drop (4 * i) (image_of ws)) = le_bytes 4 (ucast (ws ! i))"
  using assms
proof (induction ws arbitrary: i)
  case (Cons w ws)
  have "length (le_bytes 4 (ucast w)) = 4" by simp
  with Cons show ?case by (cases i) (simp_all add: image_of_def del: le_bytes.simps)
qed simp

text \<open>
  The machine before instruction \<open>i\<close> of the program \<open>ws\<close>, with the registers \<open>xs\<close>, the output \<open>out\<close>
  and the exit code \<open>ex\<close>: nothing else has changed since the start.
\<close>

definition prog_state ::
  "u32 list \<Rightarrow> board emu_machine \<Rightarrow> nat \<Rightarrow> u64 list \<Rightarrow> u8 list \<Rightarrow> int option \<Rightarrow> bool" where
  "prog_state ws m i xs out ex \<longleftrightarrow>
     length (cpus m) = 1 \<and> privilege (get_cpu m 0) = 3 \<and> csr (get_cpu m 0) = csr cpu_zero
     \<and> irq_pending (get_cpu m 0) = 0 \<and> pc (get_cpu m 0) = 0x10000 + of_nat (4 * i) \<and> xregs (get_cpu m 0) = xs
     \<and> ram_start m = 0x10000 \<and> ram_end m = 0x10000 + of_nat (length (image_of ws)) \<and> ram_alloc m = length (image_of ws)
     \<and> (\<forall>k < length (image_of ws). ram m k = image_of ws ! k) \<and> trap_hook m ! 11 = Some 0
     \<and> stdout (devs m) = out \<and> exit_code (devs m) = ex"

lemma prog_state_start: "prog_state ws (main_machine (image_of ws) p t) 0 (replicate 32 0) [] None"
  by (simp add: prog_state_def main_machine_def zero_machine_def cpu_zero_def)

text \<open>A load immediate: \<open>addi rd, x0, v\<close>.\<close>

definition li :: "5 word \<Rightarrow> u8 \<Rightarrow> u32" where
  "li rd v = enc_I (ucast v, 0, 0, rd, 0x13)"

lemma scast_ucast_byte: "(scast (scast (ucast (v :: u8) :: 12 word) :: u32) :: u64) = ucast v"
  by (rule bit_word_eqI) (auto simp: bit_simps min_def dest: bit_imp_le_length)

lemma li_fields:
  "RV_INSN_OP_MAJ (li rd v) = 4"
  "RV_INSN_FUNCT3 (li rd v) = 0" "RV_INSN_RS1 (li rd v) = 0" "RV_INSN_RD (li rd v) = ucast rd"
  "scast (RV_INSN_IMM12 (li rd v)) = (ucast v :: u64)" "li rd v AND 3 = 3"
proof -
  have low: "take_bit 7 (li rd v) = OP RV_OP_MAJ_OP_IMM"
    using rv_enc_i_fields(4) [of "ucast v" 0 0 rd "0x13"] by (simp add: li_def OP_def)
  from op_maj_of_low_bits [OF this]
  show "RV_INSN_OP_MAJ (li rd v) = 4" by simp
  have "li rd v AND 3 = take_bit 2 (li rd v)" by (simp add: take_bit_eq_mask mask_eq_exp_minus_1)
  also have "\<dots> = take_bit 2 (take_bit 7 (li rd v))" by simp
  finally show "li rd v AND 3 = 3" unfolding low by (simp add: OP_def)
  show "RV_INSN_FUNCT3 (li rd v) = 0" "RV_INSN_RS1 (li rd v) = 0" "RV_INSN_RD (li rd v) = ucast rd"
    using rv_enc_i_fields [of "ucast v" 0 0 rd "0x13"] by (simp_all add: li_def)
  show "scast (RV_INSN_IMM12 (li rd v)) = (ucast v :: u64)"
    using rv_enc_i_imm [of "ucast v" 0 0 rd "0x13"] by (simp add: li_def scast_ucast_byte)
qed

text \<open>The next instruction is fetched as the image has it.\<close>

lemma prog_state_insn:
  assumes "prog_state ws m i xs out ex" and "i < length ws" and "length ws < 2 ^ 28" and "ws ! i AND 3 = 3"
  shows "insn_at m (pc (get_cpu m 0)) = Some (ws ! i, 4)" and "in_ram m (pc (get_cpu m 0)) 4" and "ram_bounds m"
proof -
  have sz: "unat (0x10000 + of_nat (4 * n) :: u64) = 0x10000 + 4 * n" if "n \<le> length ws" for n
    using that assms(3) by (simp add: unat_word_ariths unat_of_nat)
  have pc: "unat (pc (get_cpu m 0)) = 0x10000 + 4 * i"
    using assms(1,2) sz [of i] by (simp add: prog_state_def)
  have e: "unat (ram_end m) = 0x10000 + 4 * length ws" and st: "unat (ram_start m) = 0x10000"
    using assms(1) sz [of "length ws"] by (simp_all add: prog_state_def)
  show "ram_bounds m" using assms(1) e st by (simp add: ram_bounds_def prog_state_def)
  show "in_ram m (pc (get_cpu m 0)) 4" using pc e st assms(2) by (simp add: in_ram_def)
  have off: "ram_off m (pc (get_cpu m 0)) = 4 * i" using pc st by (simp add: ram_off_def)
  have ram: "ram m k = image_of ws ! k" if "k < 4 * length ws" for k
    using assms(1) that by (simp add: prog_state_def)
  have "ram_bytes m (pc (get_cpu m 0)) 4 = take 4 (drop (4 * i) (image_of ws))"
    using assms(2) ram by (intro nth_equalityI) (auto simp: ram_bytes_def off)
  then have b4: "ram_bytes m (pc (get_cpu m 0)) 4 = le_bytes 4 (ucast (ws ! i))"
    by (simp only: image_of_word [OF assms(2)])
  have "ram_bytes m (pc (get_cpu m 0)) 2 = take 2 (ram_bytes m (pc (get_cpu m 0)) 4)"
    by (simp add: ram_bytes_def take_map)
  also have "\<dots> = le_bytes 2 (ucast (ws ! i))" unfolding b4 by (simp add: numeral_eq_Suc)
  finally have b2: "le_word (ram_bytes m (pc (get_cpu m 0)) 2) = take_bit 16 (ucast (ws ! i))"
    by (simp only: le_word_le_bytes) simp
  have "(ucast (le_word (ram_bytes m (pc (get_cpu m 0)) 2)) :: u16) AND 3 = ucast (ws ! i AND 3)"
    unfolding b2 by (rule bit_word_eqI) (auto simp: bit_simps)
  moreover have "(ucast (le_word (ram_bytes m (pc (get_cpu m 0)) 4)) :: u32) = ws ! i"
    unfolding b4 le_word_le_bytes by (rule bit_word_eqI) (auto simp: bit_simps)
  ultimately show "insn_at m (pc (get_cpu m 0)) = Some (ws ! i, 4)"
    using assms(4) by (simp add: insn_at_def)
qed

lemma prog_step:
  fixes m :: "board emu_machine"
  defines "c \<equiv> get_cpu m 0"
  assumes "prog_state ws m i xs out ex" and "i < length ws" and "length ws < 2 ^ 28" and "ws ! i AND 3 = 3"
  shows "rv_step_insn fp board_env 0 m =
    Option.bind (rv_forcefeed_insn fp board_env 0 (ws ! i) (put_cpu 0 (c\<lparr>epc := pc c, pc := pc c + 4\<rparr>) m))
      (rv_check_interrupts board_env 0)"
proof -
  have c: "privilege (get_cpu m 0) = 3" "csr (get_cpu m 0) = csr cpu_m"
    using assms(2) by (simp_all add: prog_state_def cpu_m_def)
  then have "\<not> pmp_refuses m 0 a n RV_ACCESS_INSN False" for a n
    by (simp add: pmp_refuses_def do_pmp_check_def cpu_m_pmp)
  then show ?thesis
    using step_executes_insn_at_pc [of m 0 fp board_env] prog_state_insn [OF assms(2-5)] c(1) by (simp add: c_def)
qed

lemma quiet_check: "irq_pending (get_cpu m h) = 0 \<Longrightarrow> rv_check_interrupts env h m = Some m"
  by (simp add: rv_check_interrupts_def pick_interrupt_def)

lemma next_pc: "(0x10000 + of_nat (4 * i) :: u64) + 4 = 0x10000 + of_nat (4 * Suc i)"
  by simp

lemma step_li:
  assumes "prog_state ws m i xs out None" and "i < length ws" and "length ws < 2 ^ 28" and "ws ! i = li rd v"
    and "rd \<noteq> 0" and "xs ! 0 = 0"
  shows "\<exists>m'. rv_step_insn fp board_env 0 m = Some m' \<and> prog_state ws m' (Suc i) (xs[unat rd := ucast v]) out None"
proof -
  define x where "x = put_cpu 0 ((get_cpu m 0)\<lparr>epc := pc (get_cpu m 0), pc := pc (get_cpu m 0) + 4\<rparr>) m"
  let ?c = "rv_xreg_write (get_cpu x 0) (ucast rd) (ucast v)"
  have x: "get_cpu x 0 = (get_cpu m 0)\<lparr>epc := pc (get_cpu m 0), pc := pc (get_cpu m 0) + 4\<rparr>" "length (cpus x) = 1"
    using assms(1) by (simp_all add: x_def prog_state_def)
  have "unat rd < 32" using unsigned_less [of rd] by simp
  then have reg: "unat (ucast rd :: u32) = unat rd" "(ucast rd :: u32) \<noteq> 0"
    using assms(5) by (simp_all add: unsigned_ucast_eq take_bit_nat_eq_self flip: unat_eq_0)
  have "rv_xreg_read (get_cpu x 0) 0 = 0" using assms(1,6) by (simp add: x rv_xreg_read_def prog_state_def)
  then have "rv_forcefeed_insn fp board_env 0 (ws ! i) x = Some (put_cpu 0 ?c x)"
    by (simp add: assms(4) rv_forcefeed_insn_def rv_base_op_def li_fields alu_result_def Let_def
        rv_op_maj_of_def rv_op_majs_def)
  moreover have "rv_check_interrupts board_env 0 (put_cpu 0 ?c x) = Some (put_cpu 0 ?c x)"
    using assms(1) x by (intro quiet_check) (simp add: prog_state_def)
  ultimately have "rv_step_insn fp board_env 0 m = Some (put_cpu 0 ?c x)"
    using prog_step [OF assms(1-3), of fp] li_fields(6) by (simp add: assms(4) x_def)
  moreover have "xregs ?c = xs[unat rd := ucast v]"
    using assms(1,5) reg by (simp add: rv_xreg_write_def x prog_state_def)
  then have "prog_state ws (put_cpu 0 ?c x) (Suc i) (xs[unat rd := ucast v]) out None"
    using assms(1) x unfolding prog_state_def next_pc [symmetric] by (simp add: x_def)
  ultimately show ?thesis by blast
qed

text \<open>The two calls.\<close>

lemma step_call:
  assumes "prog_state ws m i xs out None" and "i < length ws" and "length ws < 2 ^ 28" and "ws ! i = 0x73"
    and "xs ! 17 = 1 \<or> xs ! 17 = 2"
  shows "\<exists>m'. rv_step_insn fp board_env 0 m = Some m'
    \<and> prog_state ws m' (Suc i) xs (if xs ! 17 = 1 then out @ [ucast (xs ! 10)] else out)
        (if xs ! 17 = 1 then None else Some (sint (ucast (xs ! 10) :: 32 word)))"
proof -
  define x where "x = put_cpu 0 ((get_cpu m 0)\<lparr>epc := pc (get_cpu m 0), pc := pc (get_cpu m 0) + 4\<rparr>) m"
  have x: "get_cpu x 0 = (get_cpu m 0)\<lparr>epc := pc (get_cpu m 0), pc := pc (get_cpu m 0) + 4\<rparr>" "length (cpus x) = 1"
    "trap_hook x = trap_hook m" "devs x = devs m"
    using assms(1) by (simp_all add: x_def prog_state_def)
  define y where "y = (if xs ! 17 = 1 then x\<lparr>devs := (devs x)\<lparr>stdout := out @ [ucast (xs ! 10)]\<rparr>\<rparr>
    else x\<lparr>devs := (devs x)\<lparr>exit_code := Some (sint (ucast (xs ! 10) :: 32 word))\<rparr>\<rparr>)"
  have "rv_forcefeed_insn fp board_env 0 (ws ! i) x = Some y"
    using ecall_dispatch [of x 0 0 fp] assms(1,4,5) x by (auto simp: prog_state_def ecall_hook_def Let_def y_def)
  moreover have "rv_check_interrupts board_env 0 y = Some y"
    using assms(1) x by (intro quiet_check) (simp add: prog_state_def y_def)
  ultimately have "rv_step_insn fp board_env 0 m = Some y"
    using prog_step [OF assms(1-3), of fp] by (simp add: assms(4) x_def)
  moreover have "prog_state ws y (Suc i) xs (if xs ! 17 = 1 then out @ [ucast (xs ! 10)] else out)
        (if xs ! 17 = 1 then None else Some (sint (ucast (xs ! 10) :: 32 word)))"
    using assms(1,5) x unfolding prog_state_def next_pc [symmetric] by (auto simp: x_def y_def)
  ultimately show ?thesis by blast
qed

section \<open>A program that prints and exits\<close>

text \<open>The calls of a program, as the argument and the number of each.\<close>

definition calls :: "(u8 \<times> u8) list \<Rightarrow> u32 list" where
  "calls cs = concat (map (\<lambda>(v, f). [li 10 v, li 17 f, 0x73]) cs)"

definition print_then_exit :: "u8 list \<Rightarrow> u8 \<Rightarrow> u32 list" where
  "print_then_exit text code = calls (map (\<lambda>c. (c, 1)) text @ [(code, 2)])"

lemma length_calls [simp]: "length (calls cs) = 3 * length cs"
  by (induction cs) (auto simp: calls_def)

lemma nth_calls:
  assumes "j < length cs" and "cs ! j = (v, f)"
  shows "calls cs ! (3 * j) = li 10 v" "calls cs ! Suc (3 * j) = li 17 f" "calls cs ! Suc (Suc (3 * j)) = 0x73"
proof -
  have "take 3 (drop (3 * j) (calls cs)) = [li 10 v, li 17 f, 0x73]"
    using assms
  proof (induction cs arbitrary: j)
    case (Cons c cs)
    then show ?case by (cases j; cases c) (simp_all add: calls_def numeral_3_eq_3)
  qed simp
  then have "take 3 (drop (3 * j) (calls cs)) ! k = [li 10 v, li 17 f, 0x73] ! k" for k by simp
  from this [of 0] this [of 1] this [of 2] assms(1)
  show "calls cs ! (3 * j) = li 10 v" "calls cs ! Suc (3 * j) = li 17 f" "calls cs ! Suc (Suc (3 * j)) = 0x73"
    by simp_all
qed

lemma loop_step:
  "prog_state ws m i xs out None \<Longrightarrow> rv_step_insn fp board_env 0 m = Some m' \<Longrightarrow> main_loop fp m = main_loop fp m'"
  by (subst main_loop.simps) (simp add: prog_state_def)

lemma call_runs:
  fixes f v :: u8
  assumes "prog_state (calls cs) m (3 * j) xs out None" and "j < length cs" and "length cs < 2 ^ 26" and "cs ! j = (v, f)"
    and "f = 1 \<or> f = 2" and "length xs = 32" and "xs ! 0 = 0"
  shows "\<exists>m' xs'. main_loop fp m = main_loop fp m' \<and> length xs' = 32 \<and> xs' ! 0 = 0
    \<and> prog_state (calls cs) m' (3 * Suc j) xs' (if f = 1 then out @ [v] else out) (if f = 1 then None else Some (uint v))"
proof -
  let ?ws = "calls cs"
  let ?x1 = "xs[10 := ucast v]" and ?x2 = "xs[10 := ucast v, 17 := ucast f]"
  have n: "3 * j < length ?ws" "Suc (3 * j) < length ?ws" "Suc (Suc (3 * j)) < length ?ws" "length ?ws < 2 ^ 28"
    using assms(2,3) by simp_all
  note w = nth_calls [OF assms(2,4)]
  from step_li [OF assms(1) n(1,4) w(1) _ assms(7), of fp] obtain m1 where
    m1: "rv_step_insn fp board_env 0 m = Some m1" "prog_state ?ws m1 (Suc (3 * j)) ?x1 out None" by auto
  from step_li [OF m1(2) n(2,4) w(2), of fp] assms(7) obtain m2 where
    m2: "rv_step_insn fp board_env 0 m1 = Some m2" "prog_state ?ws m2 (Suc (Suc (3 * j))) ?x2 out None" by auto
  have f: "(ucast f :: u64) = 1 \<longleftrightarrow> f = 1" using assms(5) by auto
  have c: "(sint (ucast (ucast v :: u64) :: 32 word)) = uint v" "(ucast (ucast v :: u64) :: u8) = v"
    by (rule bit_eqI, auto simp: bit_simps min_def dest: bit_imp_le_length)
      (rule bit_word_eqI, simp add: bit_simps)
  have s: "3 * Suc j = Suc (Suc (Suc (3 * j)))" by simp
  have "?x2 ! 17 = ucast f" using assms(6) by simp
  with step_call [OF m2(2) n(3,4) w(3), of fp] assms(5) obtain m3 where
    m3: "rv_step_insn fp board_env 0 m2 = Some m3"
      "prog_state ?ws m3 (3 * Suc j) ?x2 (if f = 1 then out @ [v] else out) (if f = 1 then None else Some (uint v))"
    using assms(6) unfolding s by (auto simp: f c)
  have "main_loop fp m = main_loop fp m3"
    using loop_step [OF assms(1) m1(1)] loop_step [OF m1(2) m2(1)] loop_step [OF m2(2) m3(1)] by simp
  with m3(2) show ?thesis using assms(6,7) by (intro exI [of _ m3] exI [of _ ?x2]) simp
qed

lemma prints_run:
  assumes "cs = map (\<lambda>c. (c, 1)) text @ [(code, 2)]" and "length text < 2 ^ 24" and "j \<le> length text"
    and "prog_state (calls cs) m (3 * j) xs (take j text) None" and "length xs = 32" and "xs ! 0 = 0"
  shows "\<exists>m'. main_loop fp m = Some m' \<and> stdout (devs m') = text \<and> exit_code (devs m') = Some (uint code)"
  using assms(3-6)
proof (induction "length text - j" arbitrary: j m xs)
  case 0
  then have j: "j = length text" by simp
  with call_runs [OF "0.prems"(2), of code 2 fp] 0 assms(1,2) obtain m' xs' where
    m': "main_loop fp m = main_loop fp m'" "prog_state (calls cs) m' (3 * Suc j) xs' text (Some (uint code))"
    by (auto simp: nth_append)
  then have "main_loop fp m' = Some m'" by (subst main_loop.simps) (simp add: prog_state_def)
  with m' show ?case by (auto simp: prog_state_def)
next
  case (Suc d)
  then have j: "j < length text" by simp
  then have "cs ! j = (text ! j, 1)" using assms(1) by (simp add: nth_append)
  with call_runs [OF Suc.prems(2), of "text ! j" 1 fp] Suc.prems j assms(1,2) obtain m' xs' where
    m': "main_loop fp m = main_loop fp m'" "length xs' = 32" "xs' ! 0 = 0"
      "prog_state (calls cs) m' (3 * Suc j) xs' (take j text @ [text ! j]) None"
    by auto
  have "d = length text - Suc j" "Suc j \<le> length text" using Suc.hyps(2) j by simp_all
  from Suc.hyps(1) [OF this _ m'(2,3), of m'] m'(1,4) j show ?case by (simp add: take_Suc_conv_app_nth)
qed

text \<open>C40: the main program runs its image to the end. For every text and every exit code, the image that
  prints the text character by character through call 1 and then exits through call 2 makes the process
  write exactly this text and end with exactly this code: image loading, fetch, decoding, execution, the
  calls and the loop of the main program together.\<close>
theorem main_program_prints_and_exits:
  assumes "length text < 2 ^ 24"
  shows "main_program fp (Some (image_of (print_then_exit text code))) True
      (length (image_of (print_then_exit text code))) p t = Some (uint code, text)"
proof -
  let ?ws = "print_then_exit text code"
  have st: "prog_state ?ws (main_machine (image_of ?ws) p t) (3 * 0) (replicate 32 0) (take 0 text) None"
    using prog_state_start [of ?ws p t] by simp
  obtain m where "main_loop fp (main_machine (image_of ?ws) p t) = Some m" "stdout (devs m) = text"
      "exit_code (devs m) = Some (uint code)"
    using prints_run [OF refl assms _ st [unfolded print_then_exit_def], of fp] unfolding print_then_exit_def by auto
  then show ?thesis by (simp add: main_program_def main_start_def)
qed

lemma main_program_prints_and_exits_witness:
  "main_program fpu_zero (Some (image_of (print_then_exit [0x48, 0x69, 0x0a] 3))) True 48 plic_demo 0 = Some (3, [0x48, 0x69, 0x0a])"
  using main_program_prints_and_exits [of "[0x48, 0x69, 0x0a]" fpu_zero 3 plic_demo 0]
  by (simp add: print_then_exit_def)

end
